(* ===== verification/KV_Prelude.thy ===== *)
theory KV_Prelude
  imports Main
begin

text \<open>
  Prelude of the development: the errors the program throws, the result type of a fallible
  operation with its sequencing combinator, and the generic lemmas on lists, maps and sorted
  key lists that the component theories share. The collections \<open>res_simps\<close> (sequencing of
  fallible steps) and \<open>codec_simps\<close> (encoders and decoders) are filled by the later theories.
\<close>

named_theorems res_simps \<open>rewrite rules for sequences of fallible steps\<close>
named_theorems codec_simps \<open>rewrite rules for encoders and decoders\<close>

section \<open>Errors and fallible results\<close>

text \<open>
  One constructor for each \<open>throw\<close> of the modelled sources; \<open>RangeError\<close> is the exception
  that the Node Buffer methods raise for a value or an offset out of range, \<open>FileNotFound\<close>
  the ENOENT of the file system, \<open>BadPort\<close> and \<open>ListenFailed\<close> what \<open>listen\<close> of Node's
  servers raises: ERR_SOCKET_BAD_PORT, and the errors of the system such as EADDRINUSE.
\<close>

datatype js_error =
    RangeError
  | FileNotFound
  | WalNotOpen
  | PutRequiresKeyAndValue
  | DeleteRequiresKey
  | BatchPutRequiresEqualLength
  | UnknownCode nat
  | UnknownOpcode nat
  | CannotAddAfterBuild
  | KeysNotSorted
  | BuildAlreadyCalled
  | CannotBuildEmpty
  | ReaderAlreadyOpen
  | ReaderNotOpen
  | InvalidMagic
  | InvalidFooterSize nat
  | ManifestNotLoaded
  | UnsupportedManifestVersion nat
  | JSONSyntaxError
  | AlreadyInitialized
  | NotInitialized
  | CompactionNotAvailable
  | InvalidTuning
  | UndefinedProperty
  | AlreadyStarted
  | AlreadyConnected
  | NotConnected
  | RequestRejected
  | ConnectionClosed
  | InvalidRole
  | InvalidSyncPolicy
  | InvalidNumber
  | MissingOption
  | URIMalformed
  | InvalidJSON
  | BodyTooLarge
  | BadPort
  | ListenFailed

type_synonym 'a res = "js_error + 'a"

text \<open>Statement sequencing: a throw skips the rest.\<close>

definition bind_res :: "'a res \<Rightarrow> ('a \<Rightarrow> 'b res) \<Rightarrow> 'b res" where
  "bind_res m f = (case m of Inl e \<Rightarrow> Inl e | Inr x \<Rightarrow> f x)"

lemma bind_res_Inl [simp, res_simps]: "bind_res (Inl e) f = Inl e"
  by (simp add: bind_res_def)

lemma bind_res_Inr [simp, res_simps]: "bind_res (Inr x) f = f x"
  by (simp add: bind_res_def)

lemma bind_res_eq_Inr: "bind_res m f = Inr y \<longleftrightarrow> (\<exists>x. m = Inr x \<and> f x = Inr y)"
  by (cases m) auto

lemma bind_res_eq_Inl:
  "bind_res m f = Inl e \<longleftrightarrow> m = Inl e \<or> (\<exists>x. m = Inr x \<and> f x = Inl e)"
  by (cases m) auto

lemma bind_res_if [res_simps]:
  "bind_res (if c then a else b) f = (if c then bind_res a f else bind_res b f)"
  by simp

lemma bind_res_assoc: "bind_res (bind_res m f) g = bind_res m (\<lambda>x. bind_res (f x) g)"
  by (cases m) auto

text \<open>A loop that collects the results of a fallible step over a list.\<close>

fun map_res :: "('a \<Rightarrow> 'b res) \<Rightarrow> 'a list \<Rightarrow> 'b list res" where
  "map_res f [] = Inr []"
| "map_res f (x # xs) =
     bind_res (f x) (\<lambda>y. bind_res (map_res f xs) (\<lambda>ys. Inr (y # ys)))"

lemma map_res_Inr: "(\<And>x. x \<in> set xs \<Longrightarrow> f x = Inr (g x)) \<Longrightarrow> map_res f xs = Inr (map g xs)"
  by (induction xs) auto

section \<open>Lists sorted by a key\<close>

text \<open>
  \<open>ordered_by f xs\<close>: the keys \<open>f x\<close> are strictly increasing. It is the order every table
  of the store keeps: the entries of a memtable, of an SSTable and of a merged stream.
\<close>

definition ordered_by :: "('a \<Rightarrow> 'k::linorder) \<Rightarrow> 'a list \<Rightarrow> bool" where
  "ordered_by f xs = sorted_wrt (\<lambda>x y. f x < f y) xs"

lemma ordered_by_Nil [simp]: "ordered_by f []"
  by (simp add: ordered_by_def)

lemma ordered_by_Cons [simp]:
  "ordered_by f (x # xs) \<longleftrightarrow> (\<forall>y\<in>set xs. f x < f y) \<and> ordered_by f xs"
  by (simp add: ordered_by_def)

lemma ordered_by_append:
  "ordered_by f (xs @ ys) \<longleftrightarrow>
     ordered_by f xs \<and> ordered_by f ys \<and> (\<forall>x\<in>set xs. \<forall>y\<in>set ys. f x < f y)"
  by (auto simp: ordered_by_def sorted_wrt_append)

lemma ordered_by_map [simp]: "ordered_by f (map g xs) \<longleftrightarrow> ordered_by (f \<circ> g) xs"
  by (simp add: ordered_by_def sorted_wrt_map)

lemma ordered_by_filter: "ordered_by f xs \<Longrightarrow> ordered_by f (filter P xs)"
  by (simp add: ordered_by_def sorted_wrt_filter)

lemma ordered_by_take: "ordered_by f xs \<Longrightarrow> ordered_by f (take n xs)"
  by (simp add: ordered_by_def sorted_wrt_take)

lemma ordered_by_drop: "ordered_by f xs \<Longrightarrow> ordered_by f (drop n xs)"
  by (simp add: ordered_by_def sorted_wrt_drop)

lemma ordered_by_distinct: "ordered_by f xs \<Longrightarrow> distinct (map f xs)"
  by (induction xs) auto

lemma ordered_by_nth:
  "ordered_by f xs \<Longrightarrow> i < j \<Longrightarrow> j < length xs \<Longrightarrow> f (xs ! i) < f (xs ! j)"
  by (simp add: ordered_by_def sorted_wrt_iff_nth_less)

lemma ordered_by_nth_le:
  "ordered_by f xs \<Longrightarrow> i \<le> j \<Longrightarrow> j < length xs \<Longrightarrow> f (xs ! i) \<le> f (xs ! j)"
  by (cases "i = j") (auto dest: ordered_by_nth [where i = i and j = j])

lemma ordered_by_unique:
  "ordered_by f xs \<Longrightarrow> x \<in> set xs \<Longrightarrow> y \<in> set xs \<Longrightarrow> f x = f y \<Longrightarrow> x = y"
  by (induction xs) (auto dest: less_imp_neq)

lemma ordered_by_hd_last:
  assumes "ordered_by f xs" "x \<in> set xs"
  shows "f (hd xs) \<le> f x" "f x \<le> f (last xs)"
proof -
  obtain i where i: "i < length xs" "x = xs ! i"
    using assms(2) by (auto simp: in_set_conv_nth)
  have ne: "xs \<noteq> []" using i by auto
  show "f (hd xs) \<le> f x"
    using ordered_by_nth_le [OF assms(1), of 0 i] i ne by (simp add: hd_conv_nth)
  show "f x \<le> f (last xs)"
    using ordered_by_nth_le [OF assms(1), of i "length xs - 1"] i ne
    by (auto simp: last_conv_nth)
qed

text \<open>The first element of a list with a given property.\<close>

lemma find_ordered:
  assumes "ordered_by f xs" "x \<in> set xs" "f x = k"
  shows "find (\<lambda>y. f y = k) xs = Some x"
  using assms by (induction xs) (auto dest: less_imp_neq)

lemma find_absent: "(\<And>x. x \<in> set xs \<Longrightarrow> f x \<noteq> k) \<Longrightarrow> find (\<lambda>y. f y = k) xs = None"
  by (auto simp: find_None_iff)

lemma find_append: "find P (xs @ ys) = (case find P xs of Some x \<Rightarrow> Some x | None \<Rightarrow> find P ys)"
  by (induction xs) auto

text \<open>Two splits of a list: the shorter front is a front of the longer one.\<close>

lemma append_eq_split:
  assumes "xs @ ys = zs @ ws" "length zs \<le> length xs"
  obtains us where "xs = zs @ us" "ws = us @ ys"
proof
  have "zs = take (length zs) (xs @ ys)"
    using assms(1) by simp
  also have "\<dots> = take (length zs) xs"
    using assms(2) by simp
  finally show "xs = zs @ drop (length zs) xs"
    by (metis append_take_drop_id)
  have "ws = drop (length zs) (xs @ ys)"
    using assms(1) by simp
  then show "ws = drop (length zs) xs @ ys"
    using assms(2) by simp
qed

section \<open>Association lists with ordered keys\<close>

lemma map_of_find:
  "map_of xs k = map_option snd (find (\<lambda>p. fst p = k) xs)"
  by (induction xs) auto

lemma map_of_append_disjoint:
  "k \<notin> fst ` set xs \<Longrightarrow> map_of (xs @ ys) k = map_of ys k"
  by (simp add: map_add_dom_app_simps dom_map_of_conv_image_fst)

lemma map_of_ordered:
  assumes "ordered_by fst xs"
  shows "map_of xs k = Some v \<longleftrightarrow> (k, v) \<in> set xs"
  using assms by (simp add: ordered_by_distinct)

lemma ordered_keys_eq:
  assumes "ordered_by f xs" "ordered_by f ys" "f ` set xs = f ` set ys"
  shows "map f xs = map f ys"
proof (rule sorted_distinct_set_unique)
  show "sorted (map f xs)" "sorted (map f ys)"
    using assms(1,2) by (auto simp: ordered_by_def sorted_map elim!: sorted_wrt_mono_rel [rotated])
qed (use assms in \<open>auto simp: ordered_by_distinct\<close>)

lemma alist_of_keys:
  assumes "distinct (map fst xs)"
  shows "map (\<lambda>k. (k, the (map_of xs k))) (map fst xs) = xs"
proof -
  have "(fst p, the (map_of xs (fst p))) = p" if "p \<in> set xs" for p
    using that map_of_is_SomeI [OF assms, of "fst p" "snd p"] by simp
  then show ?thesis by (simp add: map_idI)
qed

lemma ordered_map_of_eq:
  assumes "ordered_by fst xs" "ordered_by fst ys" "map_of xs = map_of ys"
  shows "xs = ys"
proof -
  have "fst ` set xs = fst ` set ys"
    using arg_cong [OF assms(3), of dom] by (simp add: dom_map_of_conv_image_fst)
  then have keys: "map fst xs = map fst ys"
    by (rule ordered_keys_eq [OF assms(1,2)])
  have "xs = map (\<lambda>k. (k, the (map_of xs k))) (map fst xs)"
    by (rule alist_of_keys [OF ordered_by_distinct [OF assms(1)], symmetric])
  also have "\<dots> = map (\<lambda>k. (k, the (map_of ys k))) (map fst ys)"
    by (simp only: keys assms(3))
  also have "\<dots> = ys"
    by (rule alist_of_keys [OF ordered_by_distinct [OF assms(2)]])
  finally show ?thesis .
qed

section \<open>Ports\<close>

text \<open>
  \<open>listen\<close> of Node's servers. \<open>ports\<close> are the ports the system does not give, because they are
  in use or not permitted; for port 0 the system picks one.
\<close>

definition listen_on :: "(int list \<Rightarrow> int) \<Rightarrow> int \<Rightarrow> int list \<Rightarrow> unit res \<times> int list" where
  "listen_on pick port ports =
     (if port < 0 \<or> 65535 < port then (Inl BadPort, ports)
      else
        let p = (if port = 0 then pick ports else port) in
        if p \<in> set ports then (Inl ListenFailed, ports) else (Inr (), p # ports))"

text \<open>All of these ports can be had, one after the other.\<close>

fun ports_free :: "(int list \<Rightarrow> int) \<Rightarrow> int list \<Rightarrow> int list \<Rightarrow> bool" where
  "ports_free pick ports [] \<longleftrightarrow> True"
| "ports_free pick ports (p # ps) \<longleftrightarrow>
     0 \<le> p \<and> p \<le> 65535 \<and> (if p = 0 then pick ports else p) \<notin> set ports \<and>
     ports_free pick ((if p = 0 then pick ports else p) # ports) ps"

lemma ports_free_fixed:
  "0 \<notin> set ps \<Longrightarrow> ports_free pick ports ps \<longleftrightarrow>
     (\<forall>p\<in>set ps. 0 < p \<and> p \<le> 65535 \<and> p \<notin> set ports) \<and> distinct ps"
  by (induction ps arbitrary: ports) auto

section \<open>Folding a partial map over a list\<close>

text \<open>The first of a list of maps that has the key: the lookup order of a layered store.\<close>

fun first_hit :: "('k \<rightharpoonup> 'v) list \<Rightarrow> 'k \<rightharpoonup> 'v" where
  "first_hit [] k = None"
| "first_hit (m # ms) k = (case m k of Some v \<Rightarrow> Some v | None \<Rightarrow> first_hit ms k)"

lemma first_hit_append:
  "first_hit (ms @ ns) k = (case first_hit ms k of Some v \<Rightarrow> Some v | None \<Rightarrow> first_hit ns k)"
  by (induction ms) (auto split: option.splits)

lemma first_hit_None: "first_hit ms k = None \<longleftrightarrow> (\<forall>m\<in>set ms. m k = None)"
  by (induction ms) (auto split: option.splits)

lemma first_hit_skip: "m k = None \<Longrightarrow> first_hit (m # ms) k = first_hit ms k"
  by simp

end
