(* ===== verification/JS_String.thy ===== *)
theory JS_String
  imports KV_Prelude "HOL-Library.Word"
begin

text \<open>
  JavaScript strings: sequences of 16-bit code units, ordered as the operators \<open><\<close> and
  \<open>>\<close> of the language order them (code unit by code unit), and the conversion to and from
  UTF-8 of the Buffer methods \<open>Buffer.from(s, 'utf8')\<close> and \<open>toString('utf8', a, b)\<close>.
  A lone surrogate is encoded as U+FFFD, and an ill-formed byte sequence decodes to U+FFFD by
  maximal subparts, as the Encoding Standard prescribes and Node implements.
\<close>

text \<open>Offsets are kept as sums: \<open>off + 2\<close> is not rewritten to successors.\<close>

declare add_2_eq_Suc [simp del] add_2_eq_Suc' [simp del]

section \<open>Strings and their order\<close>

datatype jstring = JString (units: "16 word list")

fun units_less :: "16 word list \<Rightarrow> 16 word list \<Rightarrow> bool" where
  "units_less [] [] = False"
| "units_less [] (v # vs) = True"
| "units_less (u # us) [] = False"
| "units_less (u # us) (v # vs) = (u < v \<or> u = v \<and> units_less us vs)"

lemma units_less_irrefl [simp]: "\<not> units_less us us"
  by (induction us) auto

lemma units_less_trans: "units_less us vs \<Longrightarrow> units_less vs ws \<Longrightarrow> units_less us ws"
proof (induction us vs arbitrary: ws rule: units_less.induct)
  case (2 v vs)
  then show ?case by (cases ws) auto
next
  case (4 u us v vs)
  then show ?case by (cases ws) (auto intro: less_trans)
qed auto

lemma units_less_linear: "us = vs \<or> units_less us vs \<or> units_less vs us"
  by (induction us vs rule: units_less.induct) (auto simp: neq_iff)

instantiation jstring :: linorder
begin

definition less_jstring :: "jstring \<Rightarrow> jstring \<Rightarrow> bool" where
  "less_jstring s t = units_less (units s) (units t)"

definition less_eq_jstring :: "jstring \<Rightarrow> jstring \<Rightarrow> bool" where
  "less_eq_jstring s t = (s = t \<or> units_less (units s) (units t))"

instance
proof
  fix x y z :: jstring
  show "x < y \<longleftrightarrow> x \<le> y \<and> \<not> y \<le> x"
    unfolding less_jstring_def less_eq_jstring_def
    by (metis units_less_irrefl units_less_trans)
  show "x \<le> x" by (simp add: less_eq_jstring_def)
  show "x \<le> y \<Longrightarrow> y \<le> z \<Longrightarrow> x \<le> z"
    unfolding less_eq_jstring_def by (metis units_less_trans)
  show "x \<le> y \<Longrightarrow> y \<le> x \<Longrightarrow> x = y"
    unfolding less_eq_jstring_def by (metis units_less_irrefl units_less_trans)
  show "x \<le> y \<or> y \<le> x"
    unfolding less_eq_jstring_def by (metis jstring.expand units_less_linear)
qed

end

text \<open>A string literal of ASCII characters, the empty string, and concatenation.\<close>

definition js :: "string \<Rightarrow> jstring" where
  "js s = JString (map (\<lambda>c. word_of_nat (of_char c)) s)"

abbreviation empty_string :: jstring where
  "empty_string \<equiv> JString []"

definition js_append :: "jstring \<Rightarrow> jstring \<Rightarrow> jstring" where
  "js_append s t = JString (units s @ units t)"

lemma js_empty [simp]: "js [] = empty_string"
  by (simp add: js_def)

section \<open>Unicode scalar values of a string\<close>

definition high_surrogate :: "16 word \<Rightarrow> bool" where
  "high_surrogate u \<longleftrightarrow> 0xD800 \<le> unat u \<and> unat u \<le> 0xDBFF"

definition low_surrogate :: "16 word \<Rightarrow> bool" where
  "low_surrogate u \<longleftrightarrow> 0xDC00 \<le> unat u \<and> unat u \<le> 0xDFFF"

fun scalar_values :: "16 word list \<Rightarrow> nat list" where
  "scalar_values [] = []"
| "scalar_values [u] =
     (if high_surrogate u \<or> low_surrogate u then [0xFFFD] else [unat u])"
| "scalar_values (u # v # us) =
     (if high_surrogate u then
        (if low_surrogate v
         then (0x10000 + (unat u - 0xD800) * 0x400 + (unat v - 0xDC00)) # scalar_values us
         else 0xFFFD # scalar_values (v # us))
      else if low_surrogate u then 0xFFFD # scalar_values (v # us)
      else unat u # scalar_values (v # us))"

definition utf16_of :: "nat \<Rightarrow> 16 word list" where
  "utf16_of c =
     (if c < 0x10000 then [word_of_nat c]
      else [word_of_nat (0xD800 + (c - 0x10000) div 0x400),
            word_of_nat (0xDC00 + (c - 0x10000) mod 0x400)])"

text \<open>No lone surrogates: the strings that UTF-8 represents without loss.\<close>

fun well_formed_units :: "16 word list \<Rightarrow> bool" where
  "well_formed_units [] = True"
| "well_formed_units [u] = (\<not> high_surrogate u \<and> \<not> low_surrogate u)"
| "well_formed_units (u # v # us) =
     (if high_surrogate u then low_surrogate v \<and> well_formed_units us
      else \<not> low_surrogate u \<and> well_formed_units (v # us))"

definition well_formed :: "jstring \<Rightarrow> bool" where
  "well_formed s = well_formed_units (units s)"

definition is_scalar :: "nat \<Rightarrow> bool" where
  "is_scalar c \<longleftrightarrow> c < 0xD800 \<or> 0xDFFF < c \<and> c < 0x110000"

lemma unat_16_bound: "unat (u :: 16 word) < 0x10000"
  using unsigned_less [of u] by simp

lemma scalar_values_scalar: "c \<in> set (scalar_values us) \<Longrightarrow> is_scalar c"
proof (induction us rule: scalar_values.induct)
  case (2 u)
  then show ?case
    using unat_16_bound [of u]
    by (auto simp: is_scalar_def high_surrogate_def low_surrogate_def split: if_splits)
next
  case (3 u v us)
  then show ?case
    using unat_16_bound [of u]
    by (auto simp: is_scalar_def high_surrogate_def low_surrogate_def split: if_splits)
qed simp

lemma utf16_of_unit: "utf16_of (unat u) = [u]"
  using unat_16_bound [of u] by (simp add: utf16_of_def)

lemma utf16_of_pair:
  assumes "high_surrogate u" "low_surrogate v"
  shows "utf16_of (0x10000 + (unat u - 0xD800) * 0x400 + (unat v - 0xDC00)) = [u, v]"
proof -
  define a b where "a = unat u - 0xD800" and "b = unat v - 0xDC00"
  have u: "unat u = 0xD800 + a" and v: "unat v = 0xDC00 + b" and "b < 0x400"
    using assms by (auto simp: high_surrogate_def low_surrogate_def a_def b_def)
  then have "(a * 0x400 + b) div 0x400 = a" "(a * 0x400 + b) mod 0x400 = b"
    by auto
  moreover have "word_of_nat (0xD800 + a) = u"
    unfolding u [symmetric] by simp
  moreover have "word_of_nat (0xDC00 + b) = v"
    unfolding v [symmetric] by simp
  ultimately show ?thesis
    by (simp add: utf16_of_def a_def [symmetric] b_def [symmetric] del: of_nat_add)
qed

lemma utf16_of_scalar_values:
  "well_formed_units us \<Longrightarrow> concat (map utf16_of (scalar_values us)) = us"
  by (induction us rule: well_formed_units.induct)
    (auto simp: utf16_of_unit utf16_of_pair)

section \<open>UTF-8\<close>

type_synonym byte = "8 word"

definition byte_of :: "nat \<Rightarrow> byte" where
  "byte_of n = word_of_nat n"

lemma unat_byte_of [simp]: "n < 256 \<Longrightarrow> unat (byte_of n) = n"
  by (simp add: byte_of_def unat_of_nat)

lemma byte_of_unat [simp]: "byte_of (unat b) = b"
  by (simp add: byte_of_def)

lemma unat_byte_bound [simp]: "unat (b :: byte) < 256"
  using unsigned_less [of b] by simp

definition utf8_of :: "nat \<Rightarrow> byte list" where
  "utf8_of c =
     (if c < 0x80 then [byte_of c]
      else if c < 0x800 then [byte_of (0xC0 + c div 64), byte_of (0x80 + c mod 64)]
      else if c < 0x10000 then
        [byte_of (0xE0 + c div 4096), byte_of (0x80 + c div 64 mod 64),
         byte_of (0x80 + c mod 64)]
      else
        [byte_of (0xF0 + c div 262144), byte_of (0x80 + c div 4096 mod 64),
         byte_of (0x80 + c div 64 mod 64), byte_of (0x80 + c mod 64)])"

definition utf8 :: "jstring \<Rightarrow> byte list" where
  "utf8 s = concat (map utf8_of (scalar_values (units s)))"

text \<open>
  The decoder of the Encoding Standard: \<open>need\<close> continuation bytes are outstanding, the next
  one must lie between \<open>lo\<close> and \<open>hi\<close>, and \<open>cp\<close> holds the bits read so far. A byte that
  does not continue the sequence yields U+FFFD and is read again as a lead byte.
\<close>

fun utf8_scan :: "nat \<Rightarrow> nat \<Rightarrow> nat \<Rightarrow> nat \<Rightarrow> byte list \<Rightarrow> nat list" where
  "utf8_scan 0 lo hi cp [] = []"
| "utf8_scan (Suc need) lo hi cp [] = [0xFFFD]"
| "utf8_scan 0 lo hi cp (b # bs) =
     (let x = unat b in
      if x < 0x80 then x # utf8_scan 0 0x80 0xBF 0 bs
      else if 0xC2 \<le> x \<and> x \<le> 0xDF then utf8_scan 1 0x80 0xBF (x - 0xC0) bs
      else if x = 0xE0 then utf8_scan 2 0xA0 0xBF (x - 0xE0) bs
      else if x = 0xED then utf8_scan 2 0x80 0x9F (x - 0xE0) bs
      else if 0xE1 \<le> x \<and> x \<le> 0xEF then utf8_scan 2 0x80 0xBF (x - 0xE0) bs
      else if x = 0xF0 then utf8_scan 3 0x90 0xBF (x - 0xF0) bs
      else if x = 0xF4 then utf8_scan 3 0x80 0x8F (x - 0xF0) bs
      else if 0xF1 \<le> x \<and> x \<le> 0xF3 then utf8_scan 3 0x80 0xBF (x - 0xF0) bs
      else 0xFFFD # utf8_scan 0 0x80 0xBF 0 bs)"
| "utf8_scan (Suc need) lo hi cp (b # bs) =
     (if lo \<le> unat b \<and> unat b \<le> hi then
        (if need = 0 then (cp * 64 + (unat b - 0x80)) # utf8_scan 0 0x80 0xBF 0 bs
         else utf8_scan need 0x80 0xBF (cp * 64 + (unat b - 0x80)) bs)
      else 0xFFFD # utf8_scan 0 0x80 0xBF 0 (b # bs))"

declare utf8_scan.simps(3,4) [simp del]

definition utf8_decode :: "byte list \<Rightarrow> jstring" where
  "utf8_decode bs = JString (concat (map utf16_of (utf8_scan 0 0x80 0xBF 0 bs)))"

text \<open>
  Each scalar value is decoded from its own bytes, whatever follows them: one lemma for each
  length of the encoding, on the values of the bytes.
\<close>

lemma scan_two:
  assumes "2 \<le> a" "a < 32" "b < 64"
  shows "utf8_scan 0 lo hi cp (byte_of (0xC0 + a) # byte_of (0x80 + b) # bs) =
    (a * 64 + b) # utf8_scan 0 0x80 0xBF 0 bs"
  using assms by (simp add: Let_def utf8_scan.simps(3,4))

lemma scan_three:
  assumes "a < 16" "b < 64" "c < 64" "a = 0 \<Longrightarrow> 32 \<le> b" "a = 13 \<Longrightarrow> b < 32"
  shows "utf8_scan 0 lo hi cp
      (byte_of (0xE0 + a) # byte_of (0x80 + b) # byte_of (0x80 + c) # bs) =
    ((a * 64 + b) * 64 + c) # utf8_scan 0 0x80 0xBF 0 bs"
proof -
  consider "a = 0" | "a = 13" | "a \<noteq> 0" "a \<noteq> 13" by blast
  then show ?thesis
    using assms by cases (simp_all add: Let_def utf8_scan.simps(3,4) numeral_2_eq_2)
qed

lemma scan_four:
  assumes "a < 5" "b < 64" "c < 64" "d < 64" "a = 0 \<Longrightarrow> 16 \<le> b" "a = 4 \<Longrightarrow> b < 16"
  shows "utf8_scan 0 lo hi cp
      (byte_of (0xF0 + a) # byte_of (0x80 + b) # byte_of (0x80 + c) # byte_of (0x80 + d) # bs) =
    (((a * 64 + b) * 64 + c) * 64 + d) # utf8_scan 0 0x80 0xBF 0 bs"
proof -
  consider "a = 0" | "a = 4" | "a \<noteq> 0" "a \<noteq> 4" by blast
  then show ?thesis
    using assms by cases (simp_all add: Let_def utf8_scan.simps(3,4) numeral_3_eq_3)
qed

lemma digits_64_2: "(c :: nat) = c div 64 * 64 + c mod 64"
  by simp

lemma digits_64_3: "(c :: nat) = (c div 4096 * 64 + c div 64 mod 64) * 64 + c mod 64"
proof -
  have "c div 4096 = c div 64 div 64" by (simp add: div_mult2_eq)
  then show ?thesis by (metis div_mult_mod_eq)
qed

lemma digits_64_4:
  "(c :: nat) = ((c div 262144 * 64 + c div 4096 mod 64) * 64 + c div 64 mod 64) * 64 + c mod 64"
proof -
  have "c div 262144 = c div 4096 div 64" "c div 4096 = c div 64 div 64"
    by (simp_all add: div_mult2_eq)
  then show ?thesis by (metis div_mult_mod_eq)
qed

lemma scan_utf8_of:
  assumes "is_scalar c"
  shows "utf8_scan 0 lo hi cp (utf8_of c @ bs) = c # utf8_scan 0 0x80 0xBF 0 bs"
proof -
  consider "c < 0x80" | "0x80 \<le> c" "c < 0x800" | "0x800 \<le> c" "c < 0x10000"
    | "0x10000 \<le> c" "c < 0x110000"
    using assms by (fastforce simp: is_scalar_def)
  then show ?thesis
  proof cases
    case 1
    then show ?thesis by (simp add: utf8_of_def Let_def utf8_scan.simps(3))
  next
    case 2
    then show ?thesis
      by (simp add: utf8_of_def scan_two del: of_nat_add)
  next
    case 3
    define q where "q = c div 64"
    have q: "c div 4096 = q div 64" "q = 64 * (q div 64) + q mod 64"
      by (simp add: q_def div_mult2_eq [symmetric]) simp
    have "32 \<le> q" "c < 55296 \<Longrightarrow> q < 864" "57344 \<le> c \<Longrightarrow> 896 \<le> q"
      using 3 by (simp_all add: q_def)
    then have "q div 64 = 0 \<Longrightarrow> 32 \<le> q mod 64" "q div 64 = 13 \<Longrightarrow> q mod 64 < 32"
      using q(2) assms mod_less_divisor [of 64 q] 
      by (simp_all add: is_scalar_def) linarith+
    then have "c div 4096 = 0 \<Longrightarrow> 32 \<le> c div 64 mod 64" "c div 4096 = 13 \<Longrightarrow> c div 64 mod 64 < 32"
      by (simp_all add: q(1) q_def)
    moreover have "c div 4096 < 16"
      using 3 by simp
    ultimately show ?thesis
      using 3 scan_three [of "c div 4096" "c div 64 mod 64" "c mod 64"] digits_64_3 [of c]
      by (simp add: utf8_of_def)
  next
    case 4
    define q where "q = c div 4096"
    have q: "c div 262144 = q div 64" "q = 64 * (q div 64) + q mod 64"
      by (simp add: q_def div_mult2_eq [symmetric]) simp
    have "16 \<le> q" "q < 272"
      using 4 by (simp_all add: q_def)
    then have "q div 64 = 0 \<Longrightarrow> 16 \<le> q mod 64" "q div 64 = 4 \<Longrightarrow> q mod 64 < 16"
      using q(2) by linarith+
    then have "c div 262144 = 0 \<Longrightarrow> 16 \<le> c div 4096 mod 64"
        "c div 262144 = 4 \<Longrightarrow> c div 4096 mod 64 < 16"
      by (simp_all add: q(1) q_def)
    moreover have "c div 262144 < 5"
      using 4 by simp
    ultimately show ?thesis
      using 4 scan_four [of "c div 262144" "c div 4096 mod 64" "c div 64 mod 64" "c mod 64"]
        digits_64_4 [of c]
      by (simp add: utf8_of_def)
  qed
qed

lemma scan_utf8_concat:
  "(\<And>c. c \<in> set cs \<Longrightarrow> is_scalar c) \<Longrightarrow>
   utf8_scan 0 0x80 0xBF 0 (concat (map utf8_of cs)) = cs"
proof (induction cs)
  case (Cons c cs)
  then have "is_scalar c" by simp
  with Cons show ?case
    by (simp add: scan_utf8_of)
qed simp

text \<open>
  Decoding an encoded string gives the string with every lone surrogate replaced; on a
  well-formed string nothing is lost.
\<close>

lemma utf8_decode_utf8:
  "utf8_decode (utf8 s) = JString (concat (map utf16_of (scalar_values (units s))))"
  by (simp add: utf8_decode_def utf8_def scan_utf8_concat scalar_values_scalar)

lemma utf8_roundtrip_wf [codec_simps]: "well_formed s \<Longrightarrow> utf8_decode (utf8 s) = s"
  by (simp add: utf8_decode_utf8 utf16_of_scalar_values well_formed_def)

lemma utf8_injective: "well_formed s \<Longrightarrow> well_formed t \<Longrightarrow> utf8 s = utf8 t \<Longrightarrow> s = t"
  by (metis utf8_roundtrip_wf)

lemma utf8_empty [simp]: "utf8 empty_string = []"
  by (simp add: utf8_def)

lemma utf8_decode_Nil [simp]: "utf8_decode [] = empty_string"
  by (simp add: utf8_decode_def)

lemma well_formed_empty [simp]: "well_formed empty_string"
  by (simp add: well_formed_def)

text \<open>Strings of ASCII characters are well formed and encode one byte for each character.\<close>

lemma well_formed_units_small: "\<forall>u\<in>set us. unat u < 0xD800 \<Longrightarrow> well_formed_units us"
  by (induction us rule: well_formed_units.induct)
    (auto simp: high_surrogate_def low_surrogate_def)

lemma unat_ascii_unit: "unat (word_of_nat (of_char c) :: 16 word) < 256"
  using nat_of_char_less_256 [of c]
  by (simp add: unat_of_nat del: nat_of_char_less_256)

lemma well_formed_js: "well_formed (js s)"
  by (auto simp: well_formed_def js_def intro!: well_formed_units_small less_trans [OF unat_ascii_unit])

lemma scalar_values_small:
  "\<forall>u\<in>set us. unat u < 0xD800 \<Longrightarrow> scalar_values us = map unat us"
  by (induction us rule: scalar_values.induct) (auto simp: high_surrogate_def low_surrogate_def)

lemma utf8_js: "utf8 (js s) = concat (map (\<lambda>c. utf8_of (of_char c)) s)"
proof -
  have "unat (word_of_nat (of_char c) :: 16 word) = of_char c" for c
    using nat_of_char_less_256 [of c] by (simp add: unat_of_nat del: nat_of_char_less_256)
  moreover have "scalar_values (units (js s)) = map unat (units (js s))"
    by (rule scalar_values_small) (auto simp: js_def intro: less_trans [OF unat_ascii_unit])
  ultimately show ?thesis
    by (simp add: utf8_def js_def comp_def)
qed

lemma length_utf8_js: "length (utf8 (js s)) \<le> 2 * length s"
proof (induction s)
  case (Cons c s)
  have "length (utf8_of (of_char c)) \<le> 2"
    using nat_of_char_less_256 [of c] by (simp add: utf8_of_def del: nat_of_char_less_256)
  with Cons show ?case by (simp add: utf8_js)
qed (simp add: utf8_js)

lemma js_eq_empty [simp]: "js s = empty_string \<longleftrightarrow> s = []"
  by (simp add: js_def)

section \<open>Decimal numerals\<close>

text \<open>\<open>n.toString()\<close>, and \<open>padStart(width, '0')\<close>.\<close>

fun decimal :: "nat \<Rightarrow> string" where
  "decimal n = (if n < 10 then [char_of (48 + n)] else decimal (n div 10) @ [char_of (48 + n mod 10)])"

declare decimal.simps [simp del]

definition pad_zero :: "nat \<Rightarrow> string \<Rightarrow> string" where
  "pad_zero width s = replicate (width - length s) (char_of (48 :: nat)) @ s"

definition digits_value :: "string \<Rightarrow> nat" where
  "digits_value s = foldl (\<lambda>a c. a * 10 + (of_char c - 48)) 0 s"

lemma digits_value_snoc: "digits_value (s @ [c]) = digits_value s * 10 + (of_char c - 48)"
  by (simp add: digits_value_def)

lemma of_char_digit: "n < 10 \<Longrightarrow> of_char (char_of (48 + n) :: char) = (48 + n :: nat)"
  by simp

lemma digits_value_decimal: "digits_value (decimal n) = n"
proof (induction n rule: decimal.induct)
  case (1 n)
  show ?case
  proof (cases "n < 10")
    case True
    then show ?thesis by (simp add: decimal.simps [of n] digits_value_def)
  next
    case False
    then show ?thesis
      using 1 by (simp add: decimal.simps [of n] digits_value_snoc)
  qed
qed

lemma digits_value_pad: "digits_value (pad_zero w s) = digits_value s"
proof -
  have zero: "(of_char (char_of (48 :: nat) :: char) :: nat) = 48" by simp
  have "foldl (\<lambda>a c. a * 10 + (of_char c - 48)) 0 (replicate k (char_of (48 :: nat)) @ s) =
      digits_value s" for k
    by (induction k) (simp_all only: zero digits_value_def replicate.simps foldl_Cons append_Cons append_Nil
        mult_0 diff_self_eq_0 add_0)
  then show ?thesis unfolding pad_zero_def by (subst digits_value_def)
qed

lemma decimal_inj: "pad_zero w (decimal m) = pad_zero w (decimal n) \<Longrightarrow> m = n"
  by (metis digits_value_decimal digits_value_pad)

lemma js_inject [simp]: "js s = js t \<longleftrightarrow> s = t"
proof
  assume "js s = js t"
  then have "map (\<lambda>c. unat (word_of_nat (of_char c) :: 16 word)) s =
      map (\<lambda>c. unat (word_of_nat (of_char c) :: 16 word)) t"
    unfolding js_def by (metis (no_types, lifting) jstring.inject map_map comp_def map_eq_conv)
  moreover have "unat (word_of_nat (of_char c) :: 16 word) = of_char c" for c
    using nat_of_char_less_256 [of c] by (simp add: unat_of_nat del: nat_of_char_less_256)
  ultimately have "map (of_char :: char \<Rightarrow> nat) s = map of_char t" by simp
  then show "s = t" by (rule map_injective) (rule inj_of_char)
qed simp

lemma js_append_inject [simp]: "js_append s t = js_append s t' \<longleftrightarrow> t = t'"
  by (cases t; cases t') (simp add: js_append_def)

end
