(* ===== verification/JS_Buffer.thy ===== *)
theory JS_Buffer
  imports JS_String
begin

text \<open>
  The Node Buffer as the program uses it. A buffer that is read is a length and the byte at
  each index (\<open>buffer\<close>), so that a buffer from \<open>allocUnsafe\<close> that a short file read
  fills in part has its real length, with the uninitialised memory of the environment behind
  the bytes read. A buffer that is written is the list of its bytes, and a serializer is the
  list of its writes (\<open>wop\<close>), run at a running offset as the source does. \<open>holds_at\<close> is
  the calculus by which every decoder of the program is proved to read what was written.
\<close>

section \<open>Big-endian numbers\<close>

fun be_bytes :: "nat \<Rightarrow> nat \<Rightarrow> byte list" where
  "be_bytes 0 n = []"
| "be_bytes (Suc k) n = be_bytes k (n div 256) @ [byte_of (n mod 256)]"

definition be_value :: "byte list \<Rightarrow> nat" where
  "be_value bs = foldl (\<lambda>a b. a * 256 + unat b) 0 bs"

lemma length_be_bytes [simp]: "length (be_bytes k n) = k"
  by (induction k arbitrary: n) (auto simp: be_bytes.simps)

lemma be_value_snoc [simp]: "be_value (bs @ [b]) = be_value bs * 256 + unat b"
  by (simp add: be_value_def)

lemma be_value_Nil [simp]: "be_value [] = 0"
  by (simp add: be_value_def)

lemma be_value_be_bytes: "n < 256 ^ k \<Longrightarrow> be_value (be_bytes k n) = n"
proof (induction k arbitrary: n)
  case (Suc k)
  then have "n div 256 < 256 ^ k"
    by (simp add: less_mult_imp_div_less)
  with Suc.IH show ?case by (simp add: be_bytes.simps)
qed (simp add: be_bytes.simps)

declare be_bytes.simps [simp del]

lemma be_value_bound: "be_value bs < 256 ^ length bs"
proof (induction bs rule: rev_induct)
  case (snoc b bs)
  have "be_value bs * 256 + unat b < (be_value bs + 1) * 256"
    by simp
  also have "\<dots> \<le> 256 ^ length bs * 256"
    using snoc by (simp add: Suc_leI)
  finally show ?case by simp
qed simp

lemma be_value_append: "be_value (xs @ ys) = be_value xs * 256 ^ length ys + be_value ys"
  by (induction ys rule: rev_induct) (simp_all flip: append_assoc add: algebra_simps)

lemma be_bytes_inj: "m < 256 ^ k \<Longrightarrow> n < 256 ^ k \<Longrightarrow> be_bytes k m = be_bytes k n \<Longrightarrow> m = n"
  by (metis be_value_be_bytes)

text \<open>
  \<open>Number(b)\<close> of a 64-bit BigInt: exact up to 2 to the 53, above that the nearest double,
  ties to the even significand.
\<close>

fun bit_length :: "nat \<Rightarrow> nat" where
  "bit_length n = (if n = 0 then 0 else Suc (bit_length (n div 2)))"

declare bit_length.simps [simp del]

definition js_number :: "nat \<Rightarrow> nat" where
  "js_number n =
     (if n \<le> 2 ^ 53 then n
      else let e = bit_length n - 53; q = n div 2 ^ e; r = n mod 2 ^ e; h = 2 ^ (e - 1)
           in (if r < h \<or> r = h \<and> even q then q else q + 1) * 2 ^ e)"

lemma js_number_exact [simp]: "n \<le> 2 ^ 53 \<Longrightarrow> js_number n = n"
  by (simp add: js_number_def)

section \<open>Writing\<close>

text \<open>One write of a serializer; each advances the offset by its size.\<close>

datatype wop =
    WU8 nat          \<comment> \<open>writeUInt8\<close>
  | WU16 nat         \<comment> \<open>writeUInt16BE\<close>
  | WU32 nat         \<comment> \<open>writeUInt32BE\<close>
  | WU64 nat         \<comment> \<open>writeBigUInt64BE\<close>
  | WBytes "byte list" \<comment> \<open>src.copy(buffer, offset)\<close>
  | WSkip nat        \<comment> \<open>the offset is advanced, the bytes stay as they are\<close>

fun wop_size :: "wop \<Rightarrow> nat" where
  "wop_size (WU8 n) = 1"
| "wop_size (WU16 n) = 2"
| "wop_size (WU32 n) = 4"
| "wop_size (WU64 n) = 8"
| "wop_size (WBytes bs) = length bs"
| "wop_size (WSkip k) = k"

text \<open>\<open>allocUnsafe\<close>: \<open>n\<close> bytes of whatever the memory holds.\<close>

definition alloc_unsafe :: "(nat \<Rightarrow> byte) \<Rightarrow> nat \<Rightarrow> byte list" where
  "alloc_unsafe mem n = map mem [0..<n]"

text \<open>A fixed-width write throws if the value or the position is out of range.\<close>

definition write_uint :: "nat \<Rightarrow> nat \<Rightarrow> nat \<Rightarrow> byte list \<Rightarrow> byte list res" where
  "write_uint k n off buf =
     (if 256 ^ k \<le> n \<or> length buf < off + k then Inl RangeError
      else Inr (take off buf @ be_bytes k n @ drop (off + k) buf))"

text \<open>\<open>copy\<close> never throws: what does not fit is dropped.\<close>

definition copy_into :: "byte list \<Rightarrow> nat \<Rightarrow> byte list \<Rightarrow> byte list" where
  "copy_into src off buf =
     take off buf @ take (length buf - off) src @ drop (off + length src) buf"

fun write_op :: "wop \<Rightarrow> nat \<Rightarrow> byte list \<Rightarrow> byte list res" where
  "write_op (WU8 n) off buf = write_uint 1 n off buf"
| "write_op (WU16 n) off buf = write_uint 2 n off buf"
| "write_op (WU32 n) off buf = write_uint 4 n off buf"
| "write_op (WU64 n) off buf = write_uint 8 n off buf"
| "write_op (WBytes bs) off buf = Inr (copy_into bs off buf)"
| "write_op (WSkip k) off buf = Inr buf"

fun run_writes :: "wop list \<Rightarrow> nat \<Rightarrow> byte list \<Rightarrow> byte list res" where
  "run_writes [] off buf = Inr buf"
| "run_writes (w # ws) off buf =
     bind_res (write_op w off buf) (run_writes ws (off + wop_size w))"

text \<open>
  What a complete sequence of writes produces: if every value is in range, the concatenation
  of the encoded fields (a skipped field keeps the bytes of the memory), a \<open>RangeError\<close>
  otherwise.
\<close>

fun wop_ok :: "wop \<Rightarrow> bool" where
  "wop_ok (WU8 n) = (n < 256)"
| "wop_ok (WU16 n) = (n < 65536)"
| "wop_ok (WU32 n) = (n < 4294967296)"
| "wop_ok (WU64 n) = (n < 18446744073709551616)"
| "wop_ok (WBytes bs) = True"
| "wop_ok (WSkip k) = True"

text \<open>The bytes of a write, given the bytes that were at its place.\<close>

fun wop_bytes :: "wop \<Rightarrow> byte list \<Rightarrow> byte list" where
  "wop_bytes (WU8 n) old = be_bytes 1 n"
| "wop_bytes (WU16 n) old = be_bytes 2 n"
| "wop_bytes (WU32 n) old = be_bytes 4 n"
| "wop_bytes (WU64 n) old = be_bytes 8 n"
| "wop_bytes (WBytes bs) old = bs"
| "wop_bytes (WSkip k) old = take k old"

fun wops_fill :: "wop list \<Rightarrow> byte list \<Rightarrow> byte list" where
  "wops_fill [] old = old"
| "wops_fill (w # ws) old = wop_bytes w old @ wops_fill ws (drop (wop_size w) old)"

definition wops_size :: "wop list \<Rightarrow> nat" where
  "wops_size ws = sum_list (map wop_size ws)"

definition wops_bytes :: "wop list \<Rightarrow> byte list" where
  "wops_bytes ws = concat (map (\<lambda>w. wop_bytes w []) ws)"

lemma wops_size_simps [simp]:
  "wops_size [] = 0" "wops_size (w # ws) = wop_size w + wops_size ws"
  "wops_size (ws @ vs) = wops_size ws + wops_size vs"
  by (simp_all add: wops_size_def)

lemma wops_bytes_simps [simp]:
  "wops_bytes [] = []" "wops_bytes (w # ws) = wop_bytes w [] @ wops_bytes ws"
  "wops_bytes (ws @ vs) = wops_bytes ws @ wops_bytes vs"
  by (simp_all add: wops_bytes_def)

lemma length_alloc_unsafe [simp]: "length (alloc_unsafe mem n) = n"
  by (simp add: alloc_unsafe_def)

lemma length_wop_bytes:
  "wop_size w \<le> length old \<Longrightarrow> length (wop_bytes w old) = wop_size w"
  by (cases w) auto

lemma write_op_ok:
  assumes "wop_ok w" "off + wop_size w \<le> length buf"
  shows "write_op w off buf =
    Inr (take off buf @ wop_bytes w (drop off buf) @ drop (off + wop_size w) buf)"
proof (cases w)
  case (WSkip k)
  have "take off buf @ take k (drop off buf) @ drop (off + k) buf = buf"
    by (metis append_take_drop_id drop_drop add.commute)
  then show ?thesis using WSkip by simp
qed (use assms in \<open>auto simp: write_uint_def copy_into_def\<close>)

lemma write_op_bad: "\<not> wop_ok w \<Longrightarrow> write_op w off buf = Inl RangeError"
  by (cases w) (auto simp: write_uint_def)

lemma run_writes_ok:
  assumes "\<forall>w\<in>set ws. wop_ok w" "off + wops_size ws \<le> length buf"
  shows "run_writes ws off buf = Inr (take off buf @ wops_fill ws (drop off buf))"
  using assms
proof (induction ws arbitrary: off buf)
  case (Cons w ws)
  let ?b = "wop_bytes w (drop off buf)"
  let ?buf = "take off buf @ ?b @ drop (off + wop_size w) buf"
  have w: "write_op w off buf = Inr ?buf"
    using Cons.prems by (intro write_op_ok) auto
  have len: "length ?b = wop_size w" "off \<le> length buf"
    using Cons.prems by (simp_all add: length_wop_bytes)
  then have "run_writes ws (off + wop_size w) ?buf =
      Inr (take (off + wop_size w) ?buf @ wops_fill ws (drop (off + wop_size w) ?buf))"
    using Cons.prems by (intro Cons.IH) auto
  moreover have "take (off + wop_size w) ?buf = take off buf @ ?b"
    "drop (off + wop_size w) ?buf = drop (wop_size w) (drop off buf)"
    using len by (simp_all add: add.commute)
  ultimately show ?case using w by simp
qed simp

lemma run_writes_bad:
  assumes "\<exists>w\<in>set ws. \<not> wop_ok w" "off + wops_size ws \<le> length buf"
  shows "run_writes ws off buf = Inl RangeError"
  using assms
proof (induction ws arbitrary: off buf)
  case (Cons w ws)
  show ?case
  proof (cases "wop_ok w")
    case True
    let ?buf = "take off buf @ wop_bytes w (drop off buf) @ drop (off + wop_size w) buf"
    have "write_op w off buf = Inr ?buf"
      using Cons.prems True by (intro write_op_ok) auto
    moreover have "run_writes ws (off + wop_size w) ?buf = Inl RangeError"
      using Cons.prems True by (intro Cons.IH) (auto simp: length_wop_bytes)
    ultimately show ?thesis by simp
  qed (simp add: write_op_bad)
qed simp

lemma wops_fill_bytes:
  assumes "\<forall>k. WSkip k \<notin> set ws" "wops_size ws = length old"
  shows "wops_fill ws old = wops_bytes ws"
  using assms
proof (induction ws arbitrary: old)
  case (Cons w ws)
  then have "wop_bytes w old = wop_bytes w []" by (cases w) auto
  moreover have "wops_fill ws (drop (wop_size w) old) = wops_bytes ws"
    using Cons.prems by (intro Cons.IH) auto
  ultimately show ?case by simp
qed simp

lemma length_wops_bytes: "\<forall>k. WSkip k \<notin> set ws \<Longrightarrow> length (wops_bytes ws) = wops_size ws"
proof (induction ws)
  case (Cons w ws)
  then have "length (wop_bytes w []) = wop_size w" by (cases w) auto
  with Cons show ?case by simp
qed simp

text \<open>A serializer allocates exactly the bytes it writes; its result ignores the memory.\<close>

definition serialize_writes :: "(nat \<Rightarrow> byte) \<Rightarrow> nat \<Rightarrow> wop list \<Rightarrow> byte list res" where
  "serialize_writes mem n ws = run_writes ws 0 (alloc_unsafe mem n)"

lemma serialize_writes_eq [codec_simps]:
  assumes "n = wops_size ws" "\<forall>k. WSkip k \<notin> set ws"
  shows "serialize_writes mem n ws =
    (if \<forall>w\<in>set ws. wop_ok w then Inr (wops_bytes ws) else Inl RangeError)"
  using assms run_writes_ok [of ws 0 "alloc_unsafe mem n"] run_writes_bad [of ws 0 "alloc_unsafe mem n"]
  by (auto simp: serialize_writes_def wops_fill_bytes)

section \<open>Reading\<close>

datatype buffer = Buffer (blen: nat) (bget: "nat \<Rightarrow> byte")

definition of_bytes :: "byte list \<Rightarrow> buffer" where
  "of_bytes bs = Buffer (length bs) (\<lambda>i. bs ! i)"

text \<open>The bytes from \<open>i\<close> to \<open>j\<close>, cut off at the end as \<open>slice\<close> and \<open>toString\<close> do.\<close>

definition bytes_between :: "buffer \<Rightarrow> nat \<Rightarrow> nat \<Rightarrow> byte list" where
  "bytes_between b i j = map (bget b) [i..<min j (blen b)]"

definition subarray :: "buffer \<Rightarrow> nat \<Rightarrow> nat \<Rightarrow> buffer" where
  "subarray b i j = of_bytes (bytes_between b i j)"

definition read_uint :: "nat \<Rightarrow> buffer \<Rightarrow> nat \<Rightarrow> nat res" where
  "read_uint k b off =
     (if blen b < off + k then Inl RangeError else Inr (be_value (bytes_between b off (off + k))))"

abbreviation readUInt8 :: "buffer \<Rightarrow> nat \<Rightarrow> nat res" where
  "readUInt8 \<equiv> read_uint 1"

abbreviation readUInt16BE :: "buffer \<Rightarrow> nat \<Rightarrow> nat res" where
  "readUInt16BE \<equiv> read_uint 2"

abbreviation readUInt32BE :: "buffer \<Rightarrow> nat \<Rightarrow> nat res" where
  "readUInt32BE \<equiv> read_uint 4"

text \<open>\<open>Number(buffer.readBigUInt64BE(off))\<close>.\<close>

definition readU64 :: "buffer \<Rightarrow> nat \<Rightarrow> nat res" where
  "readU64 b off = bind_res (read_uint 8 b off) (\<lambda>n. Inr (js_number n))"

definition to_string :: "buffer \<Rightarrow> nat \<Rightarrow> nat \<Rightarrow> jstring" where
  "to_string b i j = utf8_decode (bytes_between b i j)"

text \<open>
  A positioned read of \<open>n\<close> bytes of a file into a fresh \<open>allocUnsafe(n)\<close> buffer: bytes
  past the end of the file are the uninitialised memory of the buffer.
\<close>

definition read_at :: "(nat \<Rightarrow> byte) \<Rightarrow> byte list \<Rightarrow> nat \<Rightarrow> nat \<Rightarrow> buffer" where
  "read_at mem file pos n =
     Buffer n (\<lambda>i. if pos + i < length file then file ! (pos + i) else mem i)"

subsection \<open>The content of a buffer at an offset\<close>

definition holds_at :: "buffer \<Rightarrow> nat \<Rightarrow> byte list \<Rightarrow> bool" where
  "holds_at b off bs \<longleftrightarrow> off + length bs \<le> blen b \<and> (\<forall>i < length bs. bget b (off + i) = bs ! i)"

lemma holds_at_Nil [simp]: "holds_at b off [] \<longleftrightarrow> off \<le> blen b"
  by (simp add: holds_at_def)

lemma holds_at_append [codec_simps]:
  "holds_at b off (xs @ ys) \<longleftrightarrow> holds_at b off xs \<and> holds_at b (off + length xs) ys"
proof
  assume h: "holds_at b off (xs @ ys)"
  have "bget b (off + i) = xs ! i" if "i < length xs" for i
    using h that by (auto simp: holds_at_def nth_append dest!: spec [of _ i])
  moreover have "bget b (off + length xs + i) = ys ! i" if "i < length ys" for i
    using h that by (auto simp: holds_at_def nth_append add.assoc dest!: spec [of _ "length xs + i"])
  ultimately show "holds_at b off xs \<and> holds_at b (off + length xs) ys"
    using h by (auto simp: holds_at_def)
next
  assume h: "holds_at b off xs \<and> holds_at b (off + length xs) ys"
  have "bget b (off + i) = (xs @ ys) ! i" if "i < length xs + length ys" for i
  proof (cases "i < length xs")
    case False
    then obtain j where "i = length xs + j" using le_Suc_ex not_less by blast
    then show ?thesis using h that by (simp add: holds_at_def nth_append add.assoc [symmetric])
  qed (use h in \<open>simp add: holds_at_def nth_append\<close>)
  then show "holds_at b off (xs @ ys)" using h by (simp add: holds_at_def)
qed

lemma bytes_between_holds:
  assumes "holds_at b off bs" "j = off + length bs"
  shows "bytes_between b off j = bs"
  using assms by (intro nth_equalityI) (auto simp: bytes_between_def holds_at_def)

lemma holds_at_blen: "holds_at b off bs \<Longrightarrow> off + length bs \<le> blen b"
  by (simp add: holds_at_def)

lemma holds_at_of_bytes: "holds_at (of_bytes bs) 0 bs"
  by (simp add: holds_at_def of_bytes_def)

lemma holds_at_prefix: "holds_at (of_bytes (xs @ ys)) 0 xs"
  using holds_at_of_bytes [of "xs @ ys"] by (simp add: holds_at_append)

lemma holds_at_of_bytes_mid: "holds_at (of_bytes (xs @ ys @ zs)) (length xs) ys"
  using holds_at_of_bytes [of "xs @ ys @ zs"] by (simp add: holds_at_append)

lemma holds_at_read_at:
  assumes "n = length ys" "pos = length xs"
  shows "holds_at (read_at mem (xs @ ys @ zs) pos n) 0 ys"
  using assms by (auto simp: holds_at_def read_at_def nth_append)

lemma holds_at_read_at_long:
  assumes "length ys \<le> n" "pos = length xs"
  shows "holds_at (read_at mem (xs @ ys @ zs) pos n) 0 ys"
  using assms by (auto simp: holds_at_def read_at_def nth_append)

lemma blen_of_bytes [simp]: "blen (of_bytes bs) = length bs"
  by (simp add: of_bytes_def)

lemma blen_read_at [simp]: "blen (read_at mem file pos n) = n"
  by (simp add: read_at_def)

lemma bytes_between_of_bytes: "bytes_between (of_bytes bs) i j = take (j - i) (drop i bs)"
  by (intro nth_equalityI) (auto simp: bytes_between_def of_bytes_def min_def split: if_splits)

lemma read_uint_holds:
  assumes "holds_at b off bs" "length bs = k"
  shows "read_uint k b off = Inr (be_value bs)"
  using assms bytes_between_holds [OF assms(1)] holds_at_blen [OF assms(1)]
  by (simp add: read_uint_def)

lemma read_uint_be [codec_simps]:
  assumes "holds_at b off (be_bytes k n)" "n < 256 ^ k"
  shows "read_uint k b off = Inr n"
  using assms by (simp add: read_uint_holds be_value_be_bytes)

lemma readU64_be [codec_simps]:
  assumes "holds_at b off (be_bytes 8 n)" "n \<le> 2 ^ 53"
  shows "readU64 b off = Inr n"
  using assms by (simp add: readU64_def read_uint_be)

lemma to_string_holds [codec_simps]:
  assumes "holds_at b off (utf8 s)" "well_formed s" "j = off + length (utf8 s)"
  shows "to_string b off j = s"
  using assms by (simp add: to_string_def bytes_between_holds utf8_roundtrip_wf)

lemma read_uint_short: "blen b < off + k \<Longrightarrow> read_uint k b off = Inl RangeError"
  by (simp add: read_uint_def)

end
