(* ===== verification/Log_Codec.thy ===== *)
theory Log_Codec
  imports JS_Buffer
begin

unbundle bit_operations_syntax

text \<open>
  The record format of the write-ahead log (src/src/storage/wal/LogEntry.ts and the
  serialisation methods of src/src/storage/wal/WAL.ts): length, CRC-32, sequence number,
  timestamp, operation code and payload; reading a log file back, which stops at the first
  record that is incomplete, does not parse or fails its checksum.
\<close>

section \<open>Log entries\<close>

datatype log_op = PUT | DELETE | BATCH_PUT

text \<open>\<open>Omit<LogEntry, 'sequenceId' | 'timestamp'>\<close>, the argument of \<open>append\<close>.\<close>

record log_body =
  le_op :: log_op
  le_key :: "jstring option"
  le_value :: "jstring option"
  le_keys :: "jstring list option"
  le_values :: "jstring list option"

record log_entry = log_body +
  le_seq :: nat
  le_time :: nat

definition put_body :: "jstring \<Rightarrow> jstring \<Rightarrow> log_body" where
  "put_body k v = \<lparr>le_op = PUT, le_key = Some k, le_value = Some v,
     le_keys = None, le_values = None\<rparr>"

definition delete_body :: "jstring \<Rightarrow> log_body" where
  "delete_body k = \<lparr>le_op = DELETE, le_key = Some k, le_value = None,
     le_keys = None, le_values = None\<rparr>"

definition batch_body :: "jstring list \<Rightarrow> jstring list \<Rightarrow> log_body" where
  "batch_body ks vs = \<lparr>le_op = BATCH_PUT, le_key = None, le_value = None,
     le_keys = Some ks, le_values = Some vs\<rparr>"

text \<open>\<open>{...entry, sequenceId, timestamp}\<close>.\<close>

definition stamp :: "log_body \<Rightarrow> nat \<Rightarrow> nat \<Rightarrow> log_entry" where
  "stamp b s t = log_body.extend b \<lparr>le_seq = s, le_time = t\<rparr>"

definition operationToCode :: "log_op \<Rightarrow> nat" where
  "operationToCode op = (case op of PUT \<Rightarrow> 1 | DELETE \<Rightarrow> 2 | BATCH_PUT \<Rightarrow> 3)"

definition codeToOperation :: "nat \<Rightarrow> log_op res" where
  "codeToOperation c =
     (if c = 1 then Inr PUT else if c = 2 then Inr DELETE else if c = 3 then Inr BATCH_PUT
      else Inl (UnknownCode c))"

lemma code_roundtrip [simp]: "codeToOperation (operationToCode op) = Inr op"
  by (cases op) (simp_all add: operationToCode_def codeToOperation_def)

lemma operationToCode_bound [simp]: "operationToCode op < 256"
  by (cases op) (simp_all add: operationToCode_def)

section \<open>The checksum\<close>

text \<open>CRC-32, one bit at a time, on the 32-bit integers of the bitwise operators.\<close>

definition crc_bit :: "32 word \<Rightarrow> 32 word" where
  "crc_bit crc = (drop_bit 1 crc) XOR (0xEDB88320 AND (- (crc AND 1)))"

definition crc_byte :: "32 word \<Rightarrow> byte \<Rightarrow> 32 word" where
  "crc_byte crc b = (crc_bit ^^ 8) (crc XOR ucast b)"

definition calculateChecksum :: "byte list \<Rightarrow> nat" where
  "calculateChecksum bs = unat (NOT (foldl crc_byte 0xFFFFFFFF bs))"

lemma calculateChecksum_bound [simp]: "calculateChecksum bs < 4294967296"
  using unsigned_less [where 'a = nat and w = "NOT (foldl crc_byte 0xFFFFFFFF bs)"]
  by (simp add: calculateChecksum_def)

text \<open>
  Each step is injective in the register and in the byte, so a change of one byte always
  changes the checksum.
\<close>

lemma xor_right_cancel: "(a :: 32 word) XOR c = b XOR c \<Longrightarrow> a = b"
proof -
  assume "a XOR c = b XOR c"
  then have "(a XOR c) XOR c = (b XOR c) XOR c" by (rule arg_cong)
  then show "a = b" by (simp only: xor.assoc xor_self_eq xor.right_neutral)
qed

lemma crc_bit_cases:
  "crc_bit c = (if odd c then drop_bit 1 c XOR 0xEDB88320 else drop_bit 1 c)"
  by (auto simp: crc_bit_def and_one_eq odd_iff_mod_2_eq_one)

lemma crc_bit_top: "bit (crc_bit c) 31 \<longleftrightarrow> odd c"
proof -
  have "bit (0xEDB88320 :: 32 word) 31" by simp
  moreover have "\<not> bit (drop_bit 1 c) 31"
    using bit_imp_le_length [of c 32] by (auto simp: bit_drop_bit_eq)
  ultimately show ?thesis by (simp add: crc_bit_cases bit_xor_iff)
qed

lemma crc_bit_inj: "crc_bit c = crc_bit d \<Longrightarrow> c = d"
proof -
  assume eq: "crc_bit c = crc_bit d"
  then have par: "odd c = odd d" using crc_bit_top by metis
  have "drop_bit 1 c = drop_bit 1 d"
  proof (cases "odd c")
    case True
    then have "drop_bit 1 c XOR 0xEDB88320 = drop_bit 1 d XOR 0xEDB88320"
      using eq par by (simp add: crc_bit_cases)
    then show ?thesis by (rule xor_right_cancel)
  qed (use eq par in \<open>simp add: crc_bit_cases\<close>)
  show "c = d"
  proof (rule bit_word_eqI)
    fix n
    show "bit c n = bit d n"
    proof (cases n)
      case 0
      then show ?thesis using par by (simp add: bit_0)
    next
      case (Suc m)
      then show ?thesis using \<open>drop_bit 1 c = drop_bit 1 d\<close>
        by (metis bit_drop_bit_eq comp_apply plus_1_eq_Suc)
    qed
  qed
qed

lemma crc_bits_inj: "(crc_bit ^^ n) c = (crc_bit ^^ n) d \<Longrightarrow> c = d"
  by (induction n) (auto dest: crc_bit_inj)

lemma crc_byte_inj_crc: "crc_byte c b = crc_byte d b \<Longrightarrow> c = d"
  unfolding crc_byte_def by (drule crc_bits_inj) (rule xor_right_cancel)

lemma crc_byte_inj_byte: "crc_byte c a = crc_byte c b \<Longrightarrow> a = b"
proof -
  assume "crc_byte c a = crc_byte c b"
  then have "c XOR ucast a = c XOR ucast b"
    unfolding crc_byte_def by (rule crc_bits_inj)
  then have "(ucast a :: 32 word) XOR c = ucast b XOR c"
    by (simp only: xor.commute)
  then have "(ucast a :: 32 word) = ucast b"
    by (rule xor_right_cancel)
  then have "unat (ucast a :: 32 word) = unat (ucast b :: 32 word)" by simp
  moreover have "take_bit 32 (unat x) = unat x" for x :: byte
    by (intro take_bit_nat_eq_self) (rule less_trans [OF unat_byte_bound], simp)
  ultimately have "unat a = unat b" by (simp add: unsigned_ucast_eq)
  then show "a = b" by (rule unsigned_word_eqI)
qed

lemma crc_fold_inj: "foldl crc_byte c bs = foldl crc_byte d bs \<Longrightarrow> c = d"
  by (induction bs arbitrary: c d) (auto dest: crc_byte_inj_crc)

lemma checksum_single_byte:
  assumes "a \<noteq> b"
  shows "calculateChecksum (xs @ a # ys) \<noteq> calculateChecksum (xs @ b # ys)"
proof
  assume "calculateChecksum (xs @ a # ys) = calculateChecksum (xs @ b # ys)"
  then have "foldl crc_byte 0xFFFFFFFF (xs @ a # ys) = foldl crc_byte 0xFFFFFFFF (xs @ b # ys)"
    unfolding calculateChecksum_def by (metis bit.double_compl unsigned_word_eqI)
  then have "crc_byte (foldl crc_byte 0xFFFFFFFF xs) a = crc_byte (foldl crc_byte 0xFFFFFFFF xs) b"
    by (auto dest: crc_fold_inj)
  then show False using assms by (auto dest: crc_byte_inj_byte)
qed

section \<open>Serialisation\<close>

text \<open>\<open>!s\<close> for an optional string: absent or empty.\<close>

definition falsy :: "jstring option \<Rightarrow> bool" where
  "falsy s \<longleftrightarrow> s = None \<or> s = Some empty_string"

definition put_writes :: "jstring \<Rightarrow> jstring \<Rightarrow> wop list" where
  "put_writes k v =
     [WU16 (length (utf8 k)), WBytes (utf8 k), WU32 (length (utf8 v)), WBytes (utf8 v)]"

definition pairs_writes :: "jstring list \<Rightarrow> jstring list \<Rightarrow> wop list" where
  "pairs_writes ks vs = concat (map2 put_writes ks vs)"

definition serializePayload :: "(nat \<Rightarrow> byte) \<Rightarrow> 'a log_body_scheme \<Rightarrow> byte list res" where
  "serializePayload mem e =
     (case le_op e of
        PUT \<Rightarrow>
          if falsy (le_key e) \<or> falsy (le_value e) then Inl PutRequiresKeyAndValue
          else
            let k = the (le_key e); v = the (le_value e) in
            serialize_writes mem (2 + length (utf8 k) + 4 + length (utf8 v)) (put_writes k v)
      | DELETE \<Rightarrow>
          if falsy (le_key e) then Inl DeleteRequiresKey
          else
            let k = the (le_key e) in
            serialize_writes mem (2 + length (utf8 k)) [WU16 (length (utf8 k)), WBytes (utf8 k)]
      | BATCH_PUT \<Rightarrow>
          (case (le_keys e, le_values e) of
             (Some ks, Some vs) \<Rightarrow>
               if length ks \<noteq> length vs then Inl BatchPutRequiresEqualLength
               else
                 serialize_writes mem
                   (4 + sum_list (map2 (\<lambda>k v. 2 + length (utf8 k) + 4 + length (utf8 v)) ks vs))
                   (WU32 (length ks) # pairs_writes ks vs)
           | _ \<Rightarrow> Inl BatchPutRequiresEqualLength))"

definition serializeEntry :: "(nat \<Rightarrow> byte) \<Rightarrow> 'a log_entry_scheme \<Rightarrow> byte list res" where
  "serializeEntry mem e =
     bind_res (serializePayload mem e) (\<lambda>payload.
     let entrySize = 4 + 8 + 8 + 1 + length payload in
     bind_res
       (run_writes
          [WU32 entrySize, WSkip 4, WU64 (le_seq e), WU64 (le_time e),
           WU8 (operationToCode (le_op e)), WBytes payload]
          0 (alloc_unsafe mem (4 + entrySize))) (\<lambda>buffer.
     write_uint 4 (calculateChecksum (drop 8 buffer)) 4 buffer))"

section \<open>Deserialisation\<close>

fun read_pairs :: "nat \<Rightarrow> buffer \<Rightarrow> nat \<Rightarrow> (jstring list \<times> jstring list) res" where
  "read_pairs 0 b off = Inr ([], [])"
| "read_pairs (Suc n) b off =
     bind_res (readUInt16BE b off) (\<lambda>keyLen.
     let key = to_string b (off + 2) (off + 2 + keyLen); off = off + 2 + keyLen in
     bind_res (readUInt32BE b off) (\<lambda>valueLen.
     let value = to_string b (off + 4) (off + 4 + valueLen); off = off + 4 + valueLen in
     bind_res (read_pairs n b off) (\<lambda>(ks, vs). Inr (key # ks, value # vs))))"

definition deserializePayload :: "log_op \<Rightarrow> buffer \<Rightarrow> log_body res" where
  "deserializePayload op b =
     (case op of
        PUT \<Rightarrow>
          bind_res (readUInt16BE b 0) (\<lambda>keyLen.
          let key = to_string b 2 (2 + keyLen) in
          bind_res (readUInt32BE b (2 + keyLen)) (\<lambda>valueLen.
          Inr (put_body key (to_string b (2 + keyLen + 4) (2 + keyLen + 4 + valueLen)))))
      | DELETE \<Rightarrow>
          bind_res (readUInt16BE b 0) (\<lambda>keyLen.
          Inr (delete_body (to_string b 2 (2 + keyLen))))
      | BATCH_PUT \<Rightarrow>
          bind_res (readUInt32BE b 0) (\<lambda>count.
          bind_res (read_pairs count b 4) (\<lambda>(ks, vs). Inr (batch_body ks vs))))"

text \<open>The record without its length field; the first four bytes are the checksum.\<close>

definition deserializeEntry :: "buffer \<Rightarrow> log_entry res" where
  "deserializeEntry b =
     bind_res (readU64 b 4) (\<lambda>sequenceId.
     bind_res (readU64 b 12) (\<lambda>timestamp.
     bind_res (readUInt8 b 20) (\<lambda>opCode.
     bind_res (codeToOperation opCode) (\<lambda>operation.
     bind_res (deserializePayload operation (subarray b 21 (blen b))) (\<lambda>body.
     Inr (stamp body sequenceId timestamp))))))"

definition validateChecksum :: "buffer \<Rightarrow> bool res" where
  "validateChecksum b =
     bind_res (readUInt32BE b 0) (\<lambda>stored.
     Inr (stored = calculateChecksum (bytes_between b 4 (blen b))))"

text \<open>
  \<open>readLogFile\<close>: the loop over the file, from an offset. The results of
  \<open>deserializeEntry\<close> and \<open>validateChecksum\<close> are in one \<open>try\<close>; any failure ends the loop
  with the entries read so far.
\<close>

function readLog_from :: "byte list \<Rightarrow> nat \<Rightarrow> log_entry list" where
  "readLog_from file off =
     (if off < length file then
        if length file - off < 4 then []
        else
          let len = be_value (take 4 (drop off file)) in
          if length file < off + 4 + len then []
          else
            let b = of_bytes (take len (drop (off + 4) file)) in
            case bind_res (deserializeEntry b) (\<lambda>e.
                 bind_res (validateChecksum b) (\<lambda>valid. Inr (e, valid))) of
              Inl err \<Rightarrow> []
            | Inr (e, valid) \<Rightarrow>
                if valid then e # readLog_from file (off + 4 + len) else []
      else [])"
  by pat_completeness auto
termination
  by (relation "measure (\<lambda>(file, off). length file - off)") auto

declare readLog_from.simps [simp del]

definition readLogFile :: "byte list \<Rightarrow> log_entry list" where
  "readLogFile file = readLog_from file 0"

section \<open>What is written\<close>

text \<open>Bodies that serialise: what \<open>serializePayload\<close> accepts, with every length in range.\<close>

definition string_ok :: "nat \<Rightarrow> jstring \<Rightarrow> bool" where
  "string_ok bound s \<longleftrightarrow> well_formed s \<and> length (utf8 s) < bound"

abbreviation key_ok :: "jstring \<Rightarrow> bool" where
  "key_ok \<equiv> string_ok 65536"

abbreviation value_ok :: "jstring \<Rightarrow> bool" where
  "value_ok \<equiv> string_ok 4294967296"

definition body_ok :: "log_body \<Rightarrow> bool" where
  "body_ok b \<longleftrightarrow>
     (\<exists>k v. b = put_body k v \<and> k \<noteq> empty_string \<and> v \<noteq> empty_string \<and> key_ok k \<and> value_ok v) \<or>
     (\<exists>k. b = delete_body k \<and> k \<noteq> empty_string \<and> key_ok k) \<or>
     (\<exists>ks vs. b = batch_body ks vs \<and> length ks = length vs \<and> length ks < 4294967296 \<and>
        (\<forall>k\<in>set ks. key_ok k) \<and> (\<forall>v\<in>set vs. value_ok v))"

definition payload_writes :: "'a log_body_scheme \<Rightarrow> wop list" where
  "payload_writes e =
     (case le_op e of
        PUT \<Rightarrow> put_writes (the (le_key e)) (the (le_value e))
      | DELETE \<Rightarrow> [WU16 (length (utf8 (the (le_key e)))), WBytes (utf8 (the (le_key e)))]
      | BATCH_PUT \<Rightarrow>
          WU32 (length (the (le_keys e))) # pairs_writes (the (le_keys e)) (the (le_values e)))"

definition payload_bytes :: "'a log_body_scheme \<Rightarrow> byte list" where
  "payload_bytes e = wops_bytes (payload_writes e)"

text \<open>The bytes of a record after its checksum field, and the whole record.\<close>

definition entry_data :: "'a log_entry_scheme \<Rightarrow> byte list" where
  "entry_data e = be_bytes 8 (le_seq e) @ be_bytes 8 (le_time e) @
     be_bytes 1 (operationToCode (le_op e)) @ payload_bytes e"

definition entry_bytes :: "'a log_entry_scheme \<Rightarrow> byte list" where
  "entry_bytes e = be_bytes 4 (4 + length (entry_data e)) @
     be_bytes 4 (calculateChecksum (entry_data e)) @ entry_data e"

definition entry_ok :: "log_entry \<Rightarrow> bool" where
  "entry_ok e \<longleftrightarrow> (\<exists>b. body_ok b \<and> e = stamp b (le_seq e) (le_time e)) \<and>
     le_seq e \<le> 2 ^ 53 \<and> le_time e \<le> 2 ^ 53 \<and> length (entry_data e) + 4 < 4294967296"

lemma stamp_simps [simp]:
  "le_op (stamp b s t) = le_op b" "le_key (stamp b s t) = le_key b"
  "le_value (stamp b s t) = le_value b" "le_keys (stamp b s t) = le_keys b"
  "le_values (stamp b s t) = le_values b" "le_seq (stamp b s t) = s" "le_time (stamp b s t) = t"
  by (simp_all add: stamp_def log_body.defs)

lemma body_simps [simp]:
  "le_op (put_body k v) = PUT" "le_key (put_body k v) = Some k" "le_value (put_body k v) = Some v"
  "le_op (delete_body k) = DELETE" "le_key (delete_body k) = Some k"
  "le_op (batch_body ks vs) = BATCH_PUT" "le_keys (batch_body ks vs) = Some ks"
  "le_values (batch_body ks vs) = Some vs"
  by (simp_all add: put_body_def delete_body_def batch_body_def)

lemma stamp_inject [simp]: "stamp b s t = stamp b' s' t' \<longleftrightarrow> b = b' \<and> s = s' \<and> t = t'"
  by (cases b; cases b') (auto simp: stamp_def log_body.defs)

lemma pairs_writes_simps [simp]:
  "pairs_writes [] vs = []"
  "pairs_writes (k # ks) (v # vs) = put_writes k v @ pairs_writes ks vs"
  by (simp_all add: pairs_writes_def)

lemma put_writes_facts [simp]:
  "wops_size (put_writes k v) = 2 + length (utf8 k) + 4 + length (utf8 v)"
  "WSkip n \<notin> set (put_writes k v)"
  "(\<forall>w\<in>set (put_writes k v). wop_ok w) \<longleftrightarrow>
     length (utf8 k) < 65536 \<and> length (utf8 v) < 4294967296"
  by (auto simp: put_writes_def)

lemma pairs_writes_facts:
  assumes "length ks = length vs"
  shows "wops_size (pairs_writes ks vs) =
      sum_list (map2 (\<lambda>k v. 2 + length (utf8 k) + 4 + length (utf8 v)) ks vs)"
    and "WSkip n \<notin> set (pairs_writes ks vs)"
    and "\<forall>k\<in>set ks. key_ok k \<Longrightarrow> \<forall>v\<in>set vs. value_ok v \<Longrightarrow> \<forall>w\<in>set (pairs_writes ks vs). wop_ok w"
  using assms
  by (induction ks vs rule: list_induct2)
    (simp_all add: string_ok_def ball_Un del: put_writes_facts(1), simp_all)

lemma length_put_bytes [simp]:
  "length (wops_bytes (put_writes k v)) = 2 + length (utf8 k) + 4 + length (utf8 v)"
  by (simp add: put_writes_def)

lemma serializePayload_ok:
  "body_ok b \<Longrightarrow> serializePayload mem (stamp b s t) = Inr (payload_bytes (stamp b s t))"
  unfolding body_ok_def
proof (elim disjE exE conjE)
  fix k v
  assume "b = put_body k v" "k \<noteq> empty_string" "v \<noteq> empty_string" "key_ok k" "value_ok v"
  then show ?thesis
    by (simp add: serializePayload_def payload_bytes_def payload_writes_def falsy_def
        serialize_writes_eq string_ok_def)
next
  fix k
  assume "b = delete_body k" "k \<noteq> empty_string" "key_ok k"
  then show ?thesis
    by (simp add: serializePayload_def payload_bytes_def payload_writes_def falsy_def
        serialize_writes_eq string_ok_def)
next
  fix ks vs
  assume "b = batch_body ks vs" "length ks = length vs" "length ks < 4294967296"
    "\<forall>k\<in>set ks. key_ok k" "\<forall>v\<in>set vs. value_ok v"
  then show ?thesis
    using pairs_writes_facts [of ks vs]
    by (simp add: serializePayload_def payload_bytes_def payload_writes_def serialize_writes_eq)
qed

lemma length_entry_data: "length (entry_data e) = 17 + length (payload_bytes e)"
  by (simp add: entry_data_def)

text \<open>
  The second write of the checksum, over the four bytes that were skipped: the record is
  complete and holds no byte of the allocated memory.
\<close>

lemma serializeEntry_ok:
  assumes "entry_ok e"
  shows "serializeEntry mem e = Inr (entry_bytes e)"
proof -
  obtain b where b: "body_ok b" "e = stamp b (le_seq e) (le_time e)"
    using assms by (auto simp: entry_ok_def)
  then have payload: "serializePayload mem e = Inr (payload_bytes e)"
    by (metis serializePayload_ok)
  define n where "n = 4 + length (entry_data e)"
  define old where "old = alloc_unsafe mem (4 + n)"
  define ws where "ws = [WU32 n, WSkip 4, WU64 (le_seq e), WU64 (le_time e),
      WU8 (operationToCode (le_op e)), WBytes (payload_bytes e)]"
  have bounds: "le_seq e < 18446744073709551616" "le_time e < 18446744073709551616"
    "n < 4294967296"
    using assms by (auto simp: entry_ok_def n_def)
  have len: "wops_size ws = length old" "4 + n = length old"
    by (simp_all add: ws_def old_def n_def length_entry_data)
  have "run_writes ws 0 old = Inr (wops_fill ws old)"
    using run_writes_ok [of ws 0 old] bounds len by (simp add: ws_def)
  also have "wops_fill ws old = be_bytes 4 n @ take 4 (drop 4 old) @ entry_data e"
    using len by (simp add: ws_def entry_data_def n_def length_entry_data)
  finally have "run_writes ws 0 old = Inr (be_bytes 4 n @ take 4 (drop 4 old) @ entry_data e)" .
  moreover have "length (take 4 (drop 4 old)) = 4"
    using len(2) by (simp add: n_def)
  moreover have "serializeEntry mem e = bind_res (run_writes ws 0 old)
      (\<lambda>buffer. write_uint 4 (calculateChecksum (drop 8 buffer)) 4 buffer)"
    by (simp add: serializeEntry_def payload Let_def ws_def old_def n_def length_entry_data
        del: run_writes.simps)
  moreover have "\<not> 4294967296 \<le> calculateChecksum (entry_data e)"
    by (simp add: not_le)
  ultimately show ?thesis
    by (simp add: write_uint_def entry_bytes_def n_def)
qed

section \<open>What is read back\<close>

lemma read_pairs_holds:
  assumes "length ks = length vs" "\<forall>k\<in>set ks. key_ok k" "\<forall>v\<in>set vs. value_ok v"
    and "holds_at b off (wops_bytes (pairs_writes ks vs))"
  shows "read_pairs (length ks) b off = Inr (ks, vs)"
  using assms
proof (induction ks vs arbitrary: off rule: list_induct2)
  case (Cons k ks v vs)
  have h: "holds_at b off (be_bytes 2 (length (utf8 k)))" "holds_at b (off + 2) (utf8 k)"
    "holds_at b (off + 2 + length (utf8 k)) (be_bytes 4 (length (utf8 v)))"
    "holds_at b (off + 2 + length (utf8 k) + 4) (utf8 v)"
    "holds_at b (off + 2 + length (utf8 k) + 4 + length (utf8 v)) (wops_bytes (pairs_writes ks vs))"
    using Cons.prems by (simp_all add: holds_at_append put_writes_def add.assoc)
  have "read_pairs (length ks) b (off + 2 + length (utf8 k) + 4 + length (utf8 v)) = Inr (ks, vs)"
    using Cons.prems h(5) by (intro Cons.IH) auto
  then show ?case
    using Cons.prems h
    by (simp add: Let_def read_uint_be to_string_holds string_ok_def)
qed simp

text \<open>Reading a payload back does not need its strings to be non-empty.\<close>

definition body_fits :: "log_body \<Rightarrow> bool" where
  "body_fits b \<longleftrightarrow>
     (\<exists>k v. b = put_body k v \<and> key_ok k \<and> value_ok v) \<or> (\<exists>k. b = delete_body k \<and> key_ok k) \<or>
     (\<exists>ks vs. b = batch_body ks vs \<and> length ks = length vs \<and> length ks < 4294967296 \<and>
        (\<forall>k\<in>set ks. key_ok k) \<and> (\<forall>v\<in>set vs. value_ok v))"

lemma body_ok_fits: "body_ok b \<Longrightarrow> body_fits b"
  by (auto simp: body_ok_def body_fits_def)

lemma deserializePayload_fits:
  assumes "body_fits b" "holds_at buf 0 (payload_bytes b)"
  shows "deserializePayload (le_op b) buf = Inr b"
  using assms(1) unfolding body_fits_def
proof (elim disjE exE conjE)
  fix k v
  assume b: "b = put_body k v" "key_ok k" "value_ok v"
  have "holds_at buf 0 (be_bytes 2 (length (utf8 k)))" "holds_at buf 2 (utf8 k)"
    "holds_at buf (2 + length (utf8 k)) (be_bytes 4 (length (utf8 v)))"
    "holds_at buf (2 + length (utf8 k) + 4) (utf8 v)"
    using assms(2) unfolding b(1) payload_bytes_def payload_writes_def put_writes_def
    by (simp_all add: holds_at_append add.assoc)
  then show ?thesis
    using b by (simp add: deserializePayload_def read_uint_be to_string_holds string_ok_def)
next
  fix k
  assume b: "b = delete_body k" "key_ok k"
  have "holds_at buf 0 (be_bytes 2 (length (utf8 k)))" "holds_at buf 2 (utf8 k)"
    using assms(2) unfolding b(1) payload_bytes_def payload_writes_def
    by (simp_all add: holds_at_append add.assoc)
  then show ?thesis
    using b by (simp add: deserializePayload_def read_uint_be to_string_holds string_ok_def)
next
  fix ks vs
  assume b: "b = batch_body ks vs" "length ks = length vs" "length ks < 4294967296"
    "\<forall>k\<in>set ks. key_ok k" "\<forall>v\<in>set vs. value_ok v"
  then have "holds_at buf 0 (be_bytes 4 (length ks))"
    "holds_at buf 4 (wops_bytes (pairs_writes ks vs))"
    using assms(2) by (simp_all add: payload_bytes_def payload_writes_def holds_at_append)
  moreover from this have "read_pairs (length ks) buf 4 = Inr (ks, vs)"
    using b by (intro read_pairs_holds) auto
  ultimately show ?thesis
    using b(1,3) by (simp add: deserializePayload_def read_uint_be)
qed

lemma deserializePayload_holds:
  "body_ok b \<Longrightarrow> holds_at buf 0 (payload_bytes b) \<Longrightarrow> deserializePayload (le_op b) buf = Inr b"
  by (rule deserializePayload_fits [OF body_ok_fits])

lemma payload_bytes_stamp [simp]: "payload_bytes (stamp b s t) = payload_bytes b"
  by (simp add: payload_bytes_def payload_writes_def cong: log_op.case_cong)

text \<open>A record, without its length field, read from a buffer that holds exactly it.\<close>

lemma deserializeEntry_record:
  assumes "entry_ok e" "length crc = 4"
  shows "deserializeEntry (of_bytes (crc @ entry_data e)) = Inr e"
proof -
  obtain b where b: "body_ok b" "e = stamp b (le_seq e) (le_time e)"
    using assms by (auto simp: entry_ok_def)
  define buf where "buf = of_bytes (crc @ entry_data e)"
  have h: "holds_at buf 4 (be_bytes 8 (le_seq e))" "holds_at buf 12 (be_bytes 8 (le_time e))"
    "holds_at buf 20 (be_bytes 1 (operationToCode (le_op e)))"
    using holds_at_of_bytes [of "crc @ entry_data e"] assms(2)
    by (simp_all add: buf_def entry_data_def holds_at_append)
  have "readU64 buf 4 = Inr (le_seq e)" "readU64 buf 12 = Inr (le_time e)"
    using readU64_be [OF h(1)] readU64_be [OF h(2)] assms(1) by (auto simp: entry_ok_def)
  moreover have "readUInt8 buf 20 = Inr (operationToCode (le_op e))"
    using read_uint_be [OF h(3)] by simp
  moreover have "subarray buf 21 (blen buf) = of_bytes (payload_bytes e)"
    using assms(2) by (simp add: buf_def subarray_def bytes_between_of_bytes entry_data_def)
  moreover have "deserializePayload (le_op b) (of_bytes (payload_bytes b)) = Inr b"
    using b(1) by (intro deserializePayload_holds holds_at_of_bytes)
  moreover have "le_op e = le_op b" "payload_bytes e = payload_bytes b"
    by (subst b(2), simp)+
  ultimately have "deserializeEntry buf = Inr (stamp b (le_seq e) (le_time e))"
    by (simp add: deserializeEntry_def)
  then show ?thesis by (simp only: buf_def b(2) [symmetric])
qed

lemma validateChecksum_record:
  assumes "length crc = 4"
  shows "validateChecksum (of_bytes (crc @ data)) = Inr (be_value crc = calculateChecksum data)"
proof -
  have "holds_at (of_bytes (crc @ data)) 0 crc"
    using holds_at_of_bytes [of "crc @ data"] by (simp add: holds_at_append)
  then have "readUInt32BE (of_bytes (crc @ data)) 0 = Inr (be_value crc)"
    using assms by (rule read_uint_holds)
  then show ?thesis
    using assms by (simp add: validateChecksum_def bytes_between_of_bytes)
qed

lemma length_entry_bytes: "length (entry_bytes e) = 8 + length (entry_data e)"
  by (simp add: entry_bytes_def)

text \<open>One turn of the loop at an offset where a record with a valid length field begins.\<close>

lemma readLog_step:
  assumes "length rec < 4294967296"
  shows "readLog_from (pre @ be_bytes 4 (length rec) @ rec @ rest) (length pre) =
    (case bind_res (deserializeEntry (of_bytes rec)) (\<lambda>e.
          bind_res (validateChecksum (of_bytes rec)) (\<lambda>valid. Inr (e, valid))) of
       Inl err \<Rightarrow> []
     | Inr (e, valid) \<Rightarrow>
         if valid then e # readLog_from (pre @ be_bytes 4 (length rec) @ rec @ rest)
           (length pre + 4 + length rec) else [])"
  using assms
  by (subst readLog_from.simps) (simp add: be_value_be_bytes add.assoc [symmetric] Let_def)

lemma readLog_record:
  assumes "entry_ok e"
  shows "readLog_from (pre @ entry_bytes e @ rest) (length pre) =
    e # readLog_from (pre @ entry_bytes e @ rest) (length pre + length (entry_bytes e))"
proof -
  let ?crc = "be_bytes 4 (calculateChecksum (entry_data e))"
  have len: "length (?crc @ entry_data e) < 4294967296"
    using assms by (simp add: entry_ok_def)
  show ?thesis
    using readLog_step [OF len, of pre rest] assms
    by (simp add: entry_bytes_def deserializeEntry_record validateChecksum_record be_value_be_bytes
        add.assoc)
qed

lemma readLog_records:
  assumes "\<forall>e\<in>set es. entry_ok e"
  shows "readLog_from (pre @ concat (map entry_bytes es) @ rest) (length pre) =
    es @ readLog_from (pre @ concat (map entry_bytes es) @ rest)
           (length pre + length (concat (map entry_bytes es)))"
  using assms
proof (induction es arbitrary: pre)
  case (Cons e es)
  have "readLog_from (pre @ entry_bytes e @ concat (map entry_bytes es) @ rest) (length pre) =
      e # readLog_from ((pre @ entry_bytes e) @ concat (map entry_bytes es) @ rest)
            (length (pre @ entry_bytes e))"
    using Cons.prems readLog_record [of e pre "concat (map entry_bytes es) @ rest"] by simp
  then show ?case
    using Cons.IH [of "pre @ entry_bytes e"] Cons.prems by (simp add: add.assoc)
qed simp

lemma readLogFile_records:
  assumes "\<forall>e\<in>set es. entry_ok e"
  shows "readLogFile (concat (map entry_bytes es) @ rest) =
    es @ readLog_from (concat (map entry_bytes es) @ rest) (length (concat (map entry_bytes es)))"
  using readLog_records [OF assms, of "[]" rest] by (simp add: readLogFile_def)

lemma readLog_end: "length file \<le> off \<Longrightarrow> readLog_from file off = []"
  by (subst readLog_from.simps) simp

text \<open>A record cut short at any point (a torn write) ends the replay.\<close>

lemma readLog_torn:
  assumes "entry_ok e" "n < length (entry_bytes e)"
  shows "readLog_from (pre @ take n (entry_bytes e)) (length pre) = []"
proof -
  let ?rec = "be_bytes 4 (calculateChecksum (entry_data e)) @ entry_data e"
  have bytes: "entry_bytes e = be_bytes 4 (length ?rec) @ ?rec"
    by (simp add: entry_bytes_def)
  have len: "length ?rec < 4294967296"
    using assms(1) by (simp add: entry_ok_def)
  consider "n = 0" | "0 < n" "n < 4" | "4 \<le> n" by linarith
  then show ?thesis
  proof cases
    case 3
    then have "take n (entry_bytes e) = be_bytes 4 (length ?rec) @ take (n - 4) ?rec"
      unfolding bytes by simp
    moreover have "length (take (n - 4) ?rec) < length ?rec"
      using assms(2) 3 by (simp add: bytes)
    ultimately show ?thesis
      using len by (subst readLog_from.simps) (simp add: be_value_be_bytes Let_def del: length_take)
  qed (use assms in \<open>subst readLog_from.simps, simp\<close>)+
qed

lemma readLog_invalid:
  assumes "length rec < 4294967296" "validateChecksum (of_bytes rec) = Inr False"
  shows "readLog_from (pre @ be_bytes 4 (length rec) @ rec @ rest) (length pre) = []"
  unfolding readLog_step [OF assms(1)]
  using assms(2) by (cases "deserializeEntry (of_bytes rec)") simp_all

text \<open>A record with one byte changed after its length field ends the replay.\<close>

lemma readLog_corrupt:
  assumes "entry_ok e" "entry_bytes e = xs @ a # ys" "4 \<le> length xs" "a \<noteq> a'"
  shows "readLog_from (pre @ xs @ a' # ys @ rest) (length pre) = []"
proof -
  let ?crc = "be_bytes 4 (calculateChecksum (entry_data e))"
  have bytes: "entry_bytes e = be_bytes 4 (length (?crc @ entry_data e)) @ ?crc @ entry_data e"
    by (simp add: entry_bytes_def)
  define hd where "hd = be_bytes 4 (length (?crc @ entry_data e))"
  define zs where "zs = drop 4 xs"
  have "hd @ ?crc @ entry_data e = xs @ a # ys"
    using assms(2) by (simp only: bytes hd_def)
  then have "hd = take (length hd) (xs @ a # ys) \<and>
      ?crc @ entry_data e = drop (length hd) (xs @ a # ys)"
    by (rule iffD1 [OF append_eq_conv_conj])
  moreover have "length hd = 4" by (simp add: hd_def)
  ultimately have "hd = take 4 (xs @ a # ys)" "?crc @ entry_data e = drop 4 (xs @ a # ys)"
    by metis+
  then have hd: "hd = take 4 xs" and rec: "?crc @ entry_data e = zs @ a # ys"
    using assms(3) by (simp_all add: zs_def)
  have xs: "xs = hd @ zs"
    by (simp add: hd zs_def)
  have len: "length (zs @ a' # ys) = length (?crc @ entry_data e)"
    using arg_cong [OF rec, of length] by simp
  have bad: "validateChecksum (of_bytes (zs @ a' # ys)) = Inr False"
  proof (cases "length zs < 4")
    case True
    then obtain vs where vs: "?crc = zs @ vs" "a # ys = vs @ entry_data e"
      using append_eq_split [OF rec] by auto
    moreover have "length ?crc = 4" by simp
    ultimately have "length vs = 4 - length zs" by (metis add_diff_cancel_left' length_append)
    then obtain us where us: "?crc = zs @ a # us" "ys = us @ entry_data e"
      using True vs by (cases vs) auto
    have l4: "length (zs @ a' # us) = 4"
      using arg_cong [OF us(1), of length] by simp
    have "be_value (zs @ a' # us) \<noteq> calculateChecksum (entry_data e)"
    proof
      assume "be_value (zs @ a' # us) = calculateChecksum (entry_data e)"
      then have "be_value (zs @ a' # us) = be_value (zs @ a # us)"
        using us(1) be_value_be_bytes [of "calculateChecksum (entry_data e)" 4] by simp
      then have "unat a' = unat a"
        by (simp add: be_value_append [of zs] be_value_append [of "[_]" us, simplified])
          (simp add: be_value_def)
      then have "a' = a" by (rule unsigned_word_eqI)
      then show False using assms(4) by simp
    qed
    then show ?thesis
      using validateChecksum_record [OF l4, of "entry_data e"] us(2) by simp
  next
    case False
    then obtain us where us: "zs = ?crc @ us" "entry_data e = us @ a # ys"
      using append_eq_split [OF rec [symmetric]] by auto
    then show ?thesis
      using checksum_single_byte [OF assms(4), of us ys]
        validateChecksum_record [of ?crc "us @ a' # ys"]
      by (simp add: be_value_be_bytes)
  qed
  have small: "length (zs @ a' # ys) < 4294967296"
    using assms(1) len by (simp add: entry_ok_def)
  have whole: "pre @ xs @ a' # ys @ rest =
      pre @ be_bytes 4 (length (zs @ a' # ys)) @ (zs @ a' # ys) @ rest"
    by (simp only: xs hd_def len append.assoc append_Cons)
  show ?thesis
    unfolding whole by (rule readLog_invalid [OF small bad])
qed

section \<open>Log files as the serialiser wrote them\<close>

text \<open>A file of complete records, each serialised with memory of its own.\<close>

definition serialized :: "log_entry list \<Rightarrow> byte list list \<Rightarrow> bool" where
  "serialized es bss \<longleftrightarrow> list_all2 (\<lambda>e bs. \<exists>mem. serializeEntry mem e = Inr bs) es bss"

lemma serialized_bytes:
  assumes "\<forall>e\<in>set es. entry_ok e" "serialized es bss"
  shows "bss = map entry_bytes es"
  using assms(2,1) unfolding serialized_def
  by (induction rule: list_all2_induct) (auto simp: serializeEntry_ok)

lemma readLogFile_torn:
  assumes "\<forall>e\<in>set es. entry_ok e" "entry_ok e" "n < length (entry_bytes e)"
  shows "readLogFile (concat (map entry_bytes es) @ take n (entry_bytes e)) = es"
  using readLogFile_records [OF assms(1)] readLog_torn [OF assms(2,3)] by simp

lemma readLogFile_all:
  assumes "\<forall>e\<in>set es. entry_ok e"
  shows "readLogFile (concat (map entry_bytes es)) = es"
  using readLogFile_records [OF assms, of "[]"] by (simp add: readLog_end)

lemma readLogFile_corrupt:
  assumes "\<forall>e\<in>set es. entry_ok e" "entry_ok e" "entry_bytes e = xs @ a # ys"
    "4 \<le> length xs" "a \<noteq> a'"
  shows "readLogFile (concat (map entry_bytes es) @ xs @ a' # ys @ rest) = es"
  using readLogFile_records [OF assms(1)] readLog_corrupt [OF assms(2-5)] by simp

text \<open>Entries over short literal strings always serialise.\<close>

lemma string_ok_js: "2 * length s < b \<Longrightarrow> string_ok b (js s)"
  using length_utf8_js [of s] by (simp add: string_ok_def well_formed_js)

lemma put_entry_ok:
  assumes "s \<noteq> []" "v \<noteq> []" "2 * length s < 65536" "2 * length v < 65536"
    "q \<le> 2 ^ 53" "t \<le> 2 ^ 53"
  shows "entry_ok (stamp (put_body (js s) (js v)) q t)"
proof -
  have "body_ok (put_body (js s) (js v))"
    unfolding body_ok_def using assms by (intro disjI1 exI conjI) (auto intro!: string_ok_js)
  moreover have "length (payload_bytes (put_body (js s) (js v))) + 21 < 4294967296"
    using length_utf8_js [of s] length_utf8_js [of v] assms
    by (simp add: payload_bytes_def payload_writes_def put_writes_def)
  ultimately show ?thesis
    using assms by (auto simp: entry_ok_def length_entry_data)
qed

end
