(* ===== verification/Min_Heap.thy ===== *)
theory Min_Heap
  imports JS_String "HOL-Library.Multiset"
begin

text \<open>
  The binary heap of src/src/common/MinHeap.ts: an array \<open>heap\<close> and a comparator; a node
  \<open>i\<close> has its parent at \<open>(i - 1) div 2\<close>. The contract of a priority queue, which the merge
  iterator relies on, is the locale \<open>priority_queue\<close>; the heap interprets it for every
  comparator that is a total order (\<open>comparator\<close>).
\<close>

section \<open>The operations\<close>

text \<open>\<open>compare(a, b) < 0\<close> iff \<open>a\<close> comes first.\<close>

type_synonym 'a compare = "'a \<Rightarrow> 'a \<Rightarrow> int"

text \<open>The \<open>while (index > 0)\<close> loop: swap with the parent until the parent is not greater.\<close>

function bubbleUp :: "'a compare \<Rightarrow> 'a list \<Rightarrow> nat \<Rightarrow> 'a list" where
  "bubbleUp cmp heap index =
     (if 0 < index then
        let parentIndex = (index - 1) div 2; parent = heap ! parentIndex; current = heap ! index in
        if 0 \<le> cmp current parent then heap
        else bubbleUp cmp (heap[parentIndex := current, index := parent]) parentIndex
      else heap)"
  by pat_completeness auto
termination
  by (relation "measure (\<lambda>(cmp, heap, index). index)") auto

text \<open>The child to swap with: the smallest of the node and its children that exist.\<close>

definition smallest_child :: "'a compare \<Rightarrow> 'a list \<Rightarrow> nat \<Rightarrow> nat" where
  "smallest_child cmp heap index =
     (let leftChild = 2 * index + 1; rightChild = 2 * index + 2; n = length heap;
          s1 = (if leftChild < n \<and> cmp (heap ! leftChild) (heap ! index) < 0
                then leftChild else index)
      in if rightChild < n \<and> cmp (heap ! rightChild) (heap ! s1) < 0 then rightChild else s1)"

lemma smallest_child_cases:
  "smallest_child cmp heap i = i \<or>
   smallest_child cmp heap i = 2 * i + 1 \<and> 2 * i + 1 < length heap \<or>
   smallest_child cmp heap i = 2 * i + 2 \<and> 2 * i + 2 < length heap"
  by (auto simp: smallest_child_def Let_def)

function bubbleDown :: "'a compare \<Rightarrow> 'a list \<Rightarrow> nat \<Rightarrow> 'a list" where
  "bubbleDown cmp heap index =
     (let smallest = smallest_child cmp heap index in
      if smallest = index then heap
      else bubbleDown cmp (heap[index := heap ! smallest, smallest := heap ! index]) smallest)"
  by pat_completeness auto
termination
proof (relation "measure (\<lambda>(cmp, heap, index). length heap - index)", goal_cases)
  case (2 cmp heap index x)
  then show ?case using smallest_child_cases [of cmp heap index] by auto
qed simp

declare bubbleUp.simps [simp del] bubbleDown.simps [simp del]

definition heap_insert :: "'a compare \<Rightarrow> 'a list \<Rightarrow> 'a \<Rightarrow> 'a list" where
  "heap_insert cmp heap item = bubbleUp cmp (heap @ [item]) (length heap)"

text \<open>\<open>undefined\<close> for the empty heap; otherwise the root, and the last leaf sifted down.\<close>

definition extractMin :: "'a compare \<Rightarrow> 'a list \<Rightarrow> 'a option \<times> 'a list" where
  "extractMin cmp heap =
     (if heap = [] then (None, heap)
      else if length heap = 1 then (Some (last heap), butlast heap)
      else (Some (heap ! 0), bubbleDown cmp ((butlast heap)[0 := last heap]) 0))"

definition heap_peek :: "'a list \<Rightarrow> 'a option" where
  "heap_peek heap = (if heap = [] then None else Some (heap ! 0))"

definition heap_isEmpty :: "'a list \<Rightarrow> bool" where
  "heap_isEmpty heap \<longleftrightarrow> length heap = 0"

definition heap_size :: "'a list \<Rightarrow> nat" where
  "heap_size heap = length heap"

definition heap_clear :: "'a list \<Rightarrow> 'a list" where
  "heap_clear heap = []"

text \<open>The heap property: no element comes before its parent.\<close>

definition heap_ordered :: "'a compare \<Rightarrow> 'a list \<Rightarrow> bool" where
  "heap_ordered cmp h \<longleftrightarrow>
     (\<forall>i. 0 < i \<longrightarrow> i < length h \<longrightarrow> cmp (h ! ((i - 1) div 2)) (h ! i) \<le> 0)"

section \<open>Facts that need nothing of the comparator\<close>

lemma bubbleUp_mset: "i < length h \<Longrightarrow> mset (bubbleUp cmp h i) = mset h"
proof (induction cmp h i rule: bubbleUp.induct)
  case (1 cmp h i)
  show ?case
  proof (cases "0 < i \<and> cmp (h ! i) (h ! ((i - 1) div 2)) < 0")
    case True
    then have "mset (bubbleUp cmp h i) =
        mset (bubbleUp cmp (h[(i - 1) div 2 := h ! i, i := h ! ((i - 1) div 2)]) ((i - 1) div 2))"
      by (simp add: bubbleUp.simps [of cmp h i] Let_def)
    also have "\<dots> = mset (h[(i - 1) div 2 := h ! i, i := h ! ((i - 1) div 2)])"
      using "1.IH" [OF _ refl refl refl] True "1.prems" by (simp add: not_le)
    also have "\<dots> = mset h"
      using 1 by (intro mset_swap) auto
    finally show ?thesis .
  next
    case False
    then have "bubbleUp cmp h i = h"
      by (subst bubbleUp.simps) (auto simp: Let_def not_less)
    then show ?thesis by simp
  qed
qed

lemma bubbleDown_mset: "i < length h \<Longrightarrow> mset (bubbleDown cmp h i) = mset h"
proof (induction cmp h i rule: bubbleDown.induct)
  case (1 cmp h i)
  let ?s = "smallest_child cmp h i"
  show ?case
  proof (cases "?s = i")
    case False
    then have s: "?s < length h" using smallest_child_cases [of cmp h i] 1 by auto
    have "mset (bubbleDown cmp h i) = mset (bubbleDown cmp (h[i := h ! ?s, ?s := h ! i]) ?s)"
      using False by (simp add: bubbleDown.simps [of cmp h i] Let_def)
    also have "\<dots> = mset (h[i := h ! ?s, ?s := h ! i])"
      using 1 False s by auto
    also have "\<dots> = mset h"
      using 1 s by (intro mset_swap) auto
    finally show ?thesis .
  qed (simp add: bubbleDown.simps [of cmp h i])
qed

lemma length_bubbleUp [simp]: "i < length h \<Longrightarrow> length (bubbleUp cmp h i) = length h"
  by (metis bubbleUp_mset size_mset)

lemma length_bubbleDown [simp]: "i < length h \<Longrightarrow> length (bubbleDown cmp h i) = length h"
  by (metis bubbleDown_mset size_mset)

lemma heap_insert_mset: "mset (heap_insert cmp h x) = add_mset x (mset h)"
  by (simp add: heap_insert_def bubbleUp_mset)

lemma length_heap_insert [simp]: "length (heap_insert cmp h x) = Suc (length h)"
  by (simp add: heap_insert_def)

lemma extractMin_Some:
  assumes "h \<noteq> []"
  shows "fst (extractMin cmp h) = Some (h ! 0)"
    and "mset (snd (extractMin cmp h)) = mset h - {#h ! 0#}"
proof -
  obtain x xs where h: "h = x # xs" using assms by (cases h) auto
  show "fst (extractMin cmp h) = Some (h ! 0)"
    by (simp add: extractMin_def h)
  show "mset (snd (extractMin cmp h)) = mset h - {#h ! 0#}"
  proof (cases xs rule: rev_cases)
    case (snoc ys y)
    then show ?thesis by (simp add: extractMin_def h bubbleDown_mset)
  qed (simp add: extractMin_def h)
qed

lemma length_extractMin [simp]: "length (snd (extractMin cmp h)) = length h - 1"
proof (cases "h = []")
  case False
  then have "size (mset (snd (extractMin cmp h))) = size (mset h - {#h ! 0#})"
    by (simp add: extractMin_Some)
  also have "\<dots> = length h - 1"
    using False by (simp add: size_Diff_singleton)
  finally show ?thesis by simp
qed (simp add: extractMin_def)

lemma heap_peek_extractMin: "heap_peek h = fst (extractMin cmp h)"
  by (cases "h = []") (simp_all add: heap_peek_def extractMin_Some, simp add: extractMin_def)

section \<open>What the comparator must satisfy\<close>

text \<open>Only the sign counts: \<open>cmp a b \<le> 0\<close> is a total preorder and \<open>cmp b a\<close> its mirror.\<close>

locale comparator =
  fixes cmp :: "'a compare"
  assumes cmp_swap: "0 < cmp a b \<longleftrightarrow> cmp b a < 0"
    and cmp_trans: "cmp a b \<le> 0 \<Longrightarrow> cmp b c \<le> 0 \<Longrightarrow> cmp a c \<le> 0"
begin

lemma cmp_refl: "cmp a a \<le> 0"
  using cmp_swap [of a a] by linarith

lemma cmp_total: "\<not> cmp a b < 0 \<Longrightarrow> cmp b a \<le> 0"
  using cmp_swap [of b a] by linarith

text \<open>
  While an element bubbles up, only it may come before its parent, and its parent comes
  before its children.
\<close>

lemma bubbleUp_ordered:
  assumes "i < length h"
    and "\<forall>j. 0 < j \<longrightarrow> j < length h \<longrightarrow> j \<noteq> i \<longrightarrow> cmp (h ! ((j - 1) div 2)) (h ! j) \<le> 0"
    and "\<forall>j. 0 < j \<longrightarrow> j < length h \<longrightarrow> (j - 1) div 2 = i \<longrightarrow> 0 < i \<longrightarrow>
           cmp (h ! ((i - 1) div 2)) (h ! j) \<le> 0"
  shows "heap_ordered cmp (bubbleUp cmp h i)"
  using assms
proof (induction i arbitrary: h rule: less_induct)
  case (less i h)
  define p where "p = (i - 1) div 2"
  show ?case
  proof (cases "0 < i \<and> cmp (h ! i) (h ! p) < 0")
    case True
    define g where "g = h[p := h ! i, i := h ! p]"
    have p: "p < i" "p < length h" using True less.prems(1) by (auto simp: p_def)
    have len: "length g = length h" by (simp add: g_def)
    have nth: "g ! j = (if j = i then h ! p else if j = p then h ! i else h ! j)" if "j < length h" for j
      using that p less.prems(1) by (simp add: g_def nth_list_update)
    have gp: "g ! ((j - 1) div 2) = (if (j - 1) div 2 = i then h ! p else
        if (j - 1) div 2 = p then h ! i else h ! ((j - 1) div 2))" if "j < length h" for j
      using nth [of "(j - 1) div 2"] that by linarith
    have "heap_ordered cmp (bubbleUp cmp g p)"
    proof (rule less.IH)
      show "p < i" "p < length g" using p len by auto
      show "\<forall>j. 0 < j \<longrightarrow> j < length g \<longrightarrow> j \<noteq> p \<longrightarrow> cmp (g ! ((j - 1) div 2)) (g ! j) \<le> 0"
      proof (intro allI impI)
        fix j assume j: "0 < j" "j < length g" "j \<noteq> p"
        show "cmp (g ! ((j - 1) div 2)) (g ! j) \<le> 0"
        proof (cases "j = i")
          case True
          then show ?thesis
            using \<open>0 < i \<and> cmp (h ! i) (h ! p) < 0\<close> p less.prems(1) nth [of i] gp [of i]
            by (auto simp: p_def)
        next
          case False
          consider "(j - 1) div 2 = i" | "(j - 1) div 2 = p" "p \<noteq> i" |
            "(j - 1) div 2 \<noteq> i" "(j - 1) div 2 \<noteq> p" using p by auto
          then show ?thesis
          proof cases
            case 1
            then show ?thesis
              using less.prems(3) j False True len nth [of j] gp [of j] by (simp add: p_def)
          next
            case 2
            have "cmp (h ! i) (h ! p) \<le> 0" "cmp (h ! p) (h ! j) \<le> 0"
              using True less.prems(2) j False 2 len by (auto dest!: spec [of _ j])
            then show ?thesis
              using cmp_trans [of "h ! i" "h ! p" "h ! j"] j False 2 len nth [of j] gp [of j] by simp
          next
            case 3
            then show ?thesis
              using less.prems(2) j False len nth [of j] gp [of j] by simp
          qed
        qed
      qed
      show "\<forall>j. 0 < j \<longrightarrow> j < length g \<longrightarrow> (j - 1) div 2 = p \<longrightarrow> 0 < p \<longrightarrow>
          cmp (g ! ((p - 1) div 2)) (g ! j) \<le> 0"
      proof (intro allI impI)
        fix j assume j: "0 < j" "j < length g" "(j - 1) div 2 = p" "0 < p"
        have pp: "(p - 1) div 2 < p" using j by linarith
        then have "g ! ((p - 1) div 2) = h ! ((p - 1) div 2)"
          using gp [of p] p by auto
        moreover have up: "cmp (h ! ((p - 1) div 2)) (h ! p) \<le> 0"
          using less.prems(2) p j by auto
        moreover have "cmp (h ! p) (h ! j) \<le> 0" if "j \<noteq> i"
          using less.prems(2) j len that by (auto dest!: spec [of _ j])
        moreover have "j \<noteq> p" using j(1,3) by linarith
        ultimately show "cmp (g ! ((p - 1) div 2)) (g ! j) \<le> 0"
          using nth [of j] j len cmp_trans [of _ "h ! p" "h ! j"] by auto
      qed
    qed
    then show ?thesis
      using True by (simp add: bubbleUp.simps [of cmp h i] Let_def g_def p_def)
  next
    case False
    then have "bubbleUp cmp h i = h"
      by (auto simp: bubbleUp.simps [of cmp h i] Let_def p_def)
    moreover have "cmp (h ! p) (h ! i) \<le> 0" if "0 < i"
      using False that cmp_total by auto
    ultimately show ?thesis
      using less.prems(2) by (auto simp: heap_ordered_def p_def)
  qed
qed

text \<open>The child chosen is not after its sibling and not after the node.\<close>

lemma smallest_child_least:
  assumes "i < length h" "0 < j" "j < length h" "(j - 1) div 2 = i"
  shows "cmp (h ! smallest_child cmp h i) (h ! j) \<le> 0"
proof -
  define l where "l = 2 * i + 1"
  define s1 where "s1 = (if l < length h \<and> cmp (h ! l) (h ! i) < 0 then l else i)"
  define s where "s = smallest_child cmp h i"
  have s: "s = (if l + 1 < length h \<and> cmp (h ! (l + 1)) (h ! s1) < 0 then l + 1 else s1)"
    by (simp add: s_def smallest_child_def Let_def l_def s1_def)
  have j: "j = l \<or> j = l + 1" using assms(2,4) by (auto simp: l_def)
  have 1: "cmp (h ! s1) (h ! l) \<le> 0" if "l < length h"
    using that cmp_refl cmp_total by (auto simp: s1_def)
  have 2: "cmp (h ! s) (h ! s1) \<le> 0"
    using cmp_refl by (auto simp: s less_imp_le)
  have 3: "cmp (h ! s) (h ! (l + 1)) \<le> 0" if "l + 1 < length h"
    using that cmp_refl cmp_total by (auto simp: s)
  show ?thesis
    using j 1 2 3 assms(3) cmp_trans [OF 2] by (auto simp: s_def)
qed

lemma smallest_child_less:
  assumes "smallest_child cmp h i \<noteq> i"
  shows "cmp (h ! smallest_child cmp h i) (h ! i) \<le> 0"
  using assms cmp_trans [OF less_imp_le less_imp_le]
  by (auto simp: smallest_child_def Let_def split: if_splits)

lemma bubbleDown_ordered:
  assumes "i < length h"
    and "\<forall>j. 0 < j \<longrightarrow> j < length h \<longrightarrow> (j - 1) div 2 \<noteq> i \<longrightarrow> cmp (h ! ((j - 1) div 2)) (h ! j) \<le> 0"
    and "\<forall>j. 0 < j \<longrightarrow> j < length h \<longrightarrow> (j - 1) div 2 = i \<longrightarrow> 0 < i \<longrightarrow>
           cmp (h ! ((i - 1) div 2)) (h ! j) \<le> 0"
  shows "heap_ordered cmp (bubbleDown cmp h i)"
  using assms
proof (induction "length h - i" arbitrary: h i rule: less_induct)
  case (less h i)
  define s where "s = smallest_child cmp h i"
  show ?case
  proof (cases "s = i")
    case False
    define g where "g = h[i := h ! s, s := h ! i]"
    have s: "s < length h" "i < s" "(s - 1) div 2 = i"
      using smallest_child_cases [of cmp h i] False by (auto simp: s_def)
    have len: "length g = length h" by (simp add: g_def)
    have nth: "g ! j = (if j = s then h ! i else if j = i then h ! s else h ! j)" if "j < length h" for j
      using that s less.prems(1) by (simp add: g_def nth_list_update)
    have gp: "g ! ((j - 1) div 2) = (if (j - 1) div 2 = s then h ! i else
        if (j - 1) div 2 = i then h ! s else h ! ((j - 1) div 2))" if "j < length h" for j
      using nth [of "(j - 1) div 2"] that by linarith
    have "heap_ordered cmp (bubbleDown cmp g s)"
    proof (rule less.hyps)
      show "length g - s < length h - i" "s < length g" using s len by auto
      show "\<forall>j. 0 < j \<longrightarrow> j < length g \<longrightarrow> (j - 1) div 2 \<noteq> s \<longrightarrow>
          cmp (g ! ((j - 1) div 2)) (g ! j) \<le> 0"
      proof (intro allI impI)
        fix j assume j: "0 < j" "j < length g" "(j - 1) div 2 \<noteq> s"
        consider "(j - 1) div 2 = i" "j = s" | "(j - 1) div 2 = i" "j \<noteq> s" |
          "(j - 1) div 2 \<noteq> i" "j = i" | "(j - 1) div 2 \<noteq> i" "j \<noteq> i" by blast
        then show "cmp (g ! ((j - 1) div 2)) (g ! j) \<le> 0"
        proof cases
          case 1
          then show ?thesis
            using smallest_child_less [of h i] False j len nth [of j] gp [of j] by (simp add: s_def)
        next
          case 2
          have "j \<noteq> i" using 2 j(1) by linarith
          then show ?thesis
            using smallest_child_least [of i h j] 2 j len less.prems(1) nth [of j] gp [of j]
            by (simp add: s_def)
        next
          case 3
          then show ?thesis
            using less.prems(3) [rule_format, of s] j s len nth [of j] gp [of j] by simp
        next
          case 4
          have "j \<noteq> s" using 4 s by auto
          then show ?thesis
            using less.prems(2) 4 j len nth [of j] gp [of j] by simp
        qed
      qed
      show "\<forall>j. 0 < j \<longrightarrow> j < length g \<longrightarrow> (j - 1) div 2 = s \<longrightarrow> 0 < s \<longrightarrow>
          cmp (g ! ((s - 1) div 2)) (g ! j) \<le> 0"
      proof (intro allI impI)
        fix j assume j: "0 < j" "j < length g" "(j - 1) div 2 = s"
        then have "j \<noteq> s" "j \<noteq> i" using s by linarith+
        moreover have "cmp (h ! s) (h ! j) \<le> 0"
          using less.prems(2) j s len by auto
        moreover have "g ! ((s - 1) div 2) = h ! s"
          using gp [of s] s by auto
        ultimately show "cmp (g ! ((s - 1) div 2)) (g ! j) \<le> 0"
          using nth [of j] j len by simp
      qed
    qed
    then show ?thesis
      using False by (simp add: bubbleDown.simps [of cmp h i] Let_def g_def s_def)
  next
    case True
    have "cmp (h ! i) (h ! j) \<le> 0" if "0 < j" "j < length h" "(j - 1) div 2 = i" for j
      using smallest_child_least [OF less.prems(1) that] True by (simp add: s_def)
    then show ?thesis
      using less.prems(2) True
      by (auto simp: heap_ordered_def bubbleDown.simps [of cmp h i] s_def)
  qed
qed

lemma heap_insert_ordered:
  assumes "heap_ordered cmp h"
  shows "heap_ordered cmp (heap_insert cmp h x)"
  unfolding heap_insert_def
proof (rule bubbleUp_ordered)
  show "\<forall>j. 0 < j \<longrightarrow> j < length (h @ [x]) \<longrightarrow> j \<noteq> length h \<longrightarrow>
      cmp ((h @ [x]) ! ((j - 1) div 2)) ((h @ [x]) ! j) \<le> 0"
    using assms by (auto simp: heap_ordered_def nth_append)
qed auto

lemma extractMin_ordered:
  assumes "heap_ordered cmp h"
  shows "heap_ordered cmp (snd (extractMin cmp h))"
proof (cases "length h \<le> 1")
  case True
  then have "length (snd (extractMin cmp h)) = 0" by simp
  then show ?thesis by (simp add: heap_ordered_def)
next
  case False
  let ?g = "(butlast h)[0 := last h]"
  have "heap_ordered cmp (bubbleDown cmp ?g 0)"
  proof (rule bubbleDown_ordered)
    show "\<forall>j. 0 < j \<longrightarrow> j < length ?g \<longrightarrow> (j - 1) div 2 \<noteq> 0 \<longrightarrow>
        cmp (?g ! ((j - 1) div 2)) (?g ! j) \<le> 0"
    proof (intro allI impI)
      fix j assume j: "0 < j" "j < length ?g" "(j - 1) div 2 \<noteq> 0"
      then have "?g ! j = h ! j" "?g ! ((j - 1) div 2) = h ! ((j - 1) div 2)"
        by (auto simp: nth_butlast)
      then show "cmp (?g ! ((j - 1) div 2)) (?g ! j) \<le> 0"
        using assms j by (auto simp: heap_ordered_def)
    qed
  qed (use False in auto)
  then show ?thesis using False by (auto simp: extractMin_def)
qed

text \<open>The root comes before every element.\<close>

lemma heap_root_least:
  assumes "heap_ordered cmp h" "i < length h"
  shows "cmp (h ! 0) (h ! i) \<le> 0"
  using assms(2)
proof (induction i rule: less_induct)
  case (less i)
  show ?case
  proof (cases "i = 0")
    case False
    then have "cmp (h ! 0) (h ! ((i - 1) div 2)) \<le> 0"
      using less by (intro less.IH) auto
    moreover have "cmp (h ! ((i - 1) div 2)) (h ! i) \<le> 0"
      using assms(1) False less.prems by (auto simp: heap_ordered_def)
    ultimately show ?thesis by (rule cmp_trans)
  qed (simp add: cmp_refl)
qed

end

section \<open>The contract of a priority queue\<close>

locale priority_queue = comparator cmp for cmp :: "'a compare" +
  fixes insert :: "'q \<Rightarrow> 'a \<Rightarrow> 'q"
    and extract_min :: "'q \<Rightarrow> 'a option \<times> 'q"
    and peek :: "'q \<Rightarrow> 'a option"
    and is_empty :: "'q \<Rightarrow> bool"
    and contents :: "'q \<Rightarrow> 'a multiset"
    and invar :: "'q \<Rightarrow> bool"
  assumes contents_insert: "contents (insert q x) = add_mset x (contents q)"
    and invar_insert: "invar q \<Longrightarrow> invar (insert q x)"
    and extract_least: "invar q \<Longrightarrow> contents q \<noteq> {#} \<Longrightarrow>
      \<exists>x. fst (extract_min q) = Some x \<and> x \<in># contents q \<and> (\<forall>y\<in>#contents q. cmp x y \<le> 0) \<and>
          contents (snd (extract_min q)) = contents q - {#x#}"
    and invar_extract: "invar q \<Longrightarrow> invar (snd (extract_min q))"
    and peek_extract: "peek q = fst (extract_min q)"
    and is_empty_contents: "is_empty q \<longleftrightarrow> contents q = {#}"
begin

text \<open>The minimum is unique when the comparator never ties two elements of the queue.\<close>

lemma extract_unique:
  assumes "invar q" "x \<in># contents q"
    and "\<forall>y\<in>#contents q. y \<noteq> x \<longrightarrow> cmp x y < 0"
  shows "fst (extract_min q) = Some x" "contents (snd (extract_min q)) = contents q - {#x#}"
proof -
  from assms(2) have "contents q \<noteq> {#}" by auto
  then obtain z where z: "fst (extract_min q) = Some z" "z \<in># contents q"
    "\<forall>y\<in>#contents q. cmp z y \<le> 0" "contents (snd (extract_min q)) = contents q - {#z#}"
    using extract_least assms(1) by blast
  have "z = x"
  proof (rule ccontr)
    assume "z \<noteq> x"
    then have "0 < cmp z x" using assms(3) z(2) cmp_swap by blast
    then show False using z(3) assms(2) by fastforce
  qed
  with z show "fst (extract_min q) = Some x" "contents (snd (extract_min q)) = contents q - {#x#}"
    by simp_all
qed

end

text \<open>The binary heap is a priority queue for every comparator that is a total preorder.\<close>

sublocale comparator \<subseteq> bin_heap: priority_queue cmp "heap_insert cmp" "extractMin cmp" heap_peek
  heap_isEmpty mset "heap_ordered cmp"
proof unfold_locales
  fix q :: "'a list" and x
  show "mset (heap_insert cmp q x) = add_mset x (mset q)"
    by (rule heap_insert_mset)
  show "heap_ordered cmp q \<Longrightarrow> heap_ordered cmp (heap_insert cmp q x)"
    by (rule heap_insert_ordered)
  show "heap_ordered cmp q \<Longrightarrow> heap_ordered cmp (snd (extractMin cmp q))"
    by (rule extractMin_ordered)
  show "heap_peek q = fst (extractMin cmp q)"
    by (rule heap_peek_extractMin)
  show "heap_isEmpty q \<longleftrightarrow> mset q = {#}"
    by (simp add: heap_isEmpty_def)
  assume "heap_ordered cmp q" "mset q \<noteq> {#}"
  then have "q \<noteq> []" "\<forall>y\<in>#mset q. cmp (q ! 0) y \<le> 0"
    using heap_root_least by (auto simp: in_set_conv_nth)
  then show "\<exists>x. fst (extractMin cmp q) = Some x \<and> x \<in># mset q \<and>
      (\<forall>y\<in>#mset q. cmp x y \<le> 0) \<and> mset (snd (extractMin cmp q)) = mset q - {#x#}"
    using extractMin_Some [of q cmp] by auto
qed

text \<open>
  A heap built by insertions gives out a least element, which is what \<open>peek\<close> shows; the rest
  stay, and stay a heap.
\<close>

lemma heap_extract_least:
  assumes "comparator cmp" "xs \<noteq> []"
  shows "\<exists>x h. extractMin cmp (foldl (heap_insert cmp) [] xs) = (Some x, h) \<and>
    heap_peek (foldl (heap_insert cmp) [] xs) = Some x \<and> x \<in> set xs \<and> (\<forall>y\<in>set xs. cmp x y \<le> 0) \<and>
    mset h = mset xs - {#x#} \<and> heap_ordered cmp h"
proof -
  note c = comparator.heap_insert_ordered [OF assms(1)]
  let ?h = "foldl (heap_insert cmp) [] xs"
  have h: "heap_ordered cmp ?h \<and> mset ?h = mset xs"
  proof (induction xs rule: rev_induct)
    case Nil
    show ?case by (simp add: heap_ordered_def)
  next
    case (snoc x xs)
    then show ?case by (simp add: heap_insert_mset c)
  qed
  then have ne: "?h \<noteq> []" using assms(2) by (metis mset_zero_iff)
  have "\<forall>y\<in>set xs. cmp (?h ! 0) y \<le> 0"
    using h comparator.heap_root_least [OF assms(1), of ?h] by (metis in_set_conv_nth mset_eq_setD)
  moreover have "?h ! 0 \<in> set xs"
    using h ne by (metis length_greater_0_conv mset_eq_setD nth_mem)
  ultimately show ?thesis
    using extractMin_Some [OF ne, of cmp] comparator.extractMin_ordered [OF assms(1), of ?h] h
      heap_peek_extractMin [of ?h cmp]
    by (intro exI [of _ "?h ! 0"] exI [of _ "snd (extractMin cmp ?h)"]) (simp add: prod_eq_iff)
qed

end
