(* ===== verification/Merge_Iterator.thy ===== *)
theory Merge_Iterator
  imports Min_Heap KV_Prelude
begin

text \<open>
  The k-way merge of src/src/storage/iterator/MergeIterator.ts. A source is the list of the
  entries it has still to deliver; the heap holds the next entry of every source, tagged with
  the position of the source, and a smaller position is a newer source.
\<close>

section \<open>Entries and state\<close>

record merge_entry =
  me_key :: jstring
  me_value :: jstring
  me_time :: nat
  me_deleted :: bool

record heap_entry = merge_entry +
  he_src :: nat

text \<open>\<open>{...entry, sourceIndex}\<close>.\<close>

definition with_source :: "merge_entry \<Rightarrow> nat \<Rightarrow> heap_entry" where
  "with_source e i = merge_entry.extend e \<lparr>he_src = i\<rparr>"

record merge_state =
  ms_sources :: "merge_entry list list"
  ms_heap :: "heap_entry list"
  ms_initialized :: bool

definition compareHeapEntries :: "heap_entry compare" where
  "compareHeapEntries a b =
     (if me_key a < me_key b then -1
      else if me_key b < me_key a then 1
      else int (he_src a) - int (he_src b))"

definition new_merge :: "merge_entry list list \<Rightarrow> merge_state" where
  "new_merge srcs = \<lparr>ms_sources = srcs, ms_heap = [], ms_initialized = False\<rparr>"

section \<open>Sources\<close>

text \<open>
  \<open>IMergeSource\<close>: \<open>take_next\<close> delivers the first of the entries that are left, or null. The
  merge below works on what is left of each source.
\<close>

locale merge_source =
  fixes take_next :: "'s \<Rightarrow> merge_entry option \<times> 's"
    and left_over :: "'s \<Rightarrow> merge_entry list"
  assumes take_next_entry: "fst (take_next s) = (case left_over s of [] \<Rightarrow> None | e # es \<Rightarrow> Some e)"
    and take_next_rest: "left_over (snd (take_next s)) = tl (left_over s)"
begin

text \<open>What \<open>n\<close> calls deliver.\<close>

primrec take_many :: "nat \<Rightarrow> 's \<Rightarrow> merge_entry list \<times> 's" where
  "take_many 0 s = ([], s)"
| "take_many (Suc n) s =
     (case take_next s of
        (None, s) \<Rightarrow> take_many n s
      | (Some e, s) \<Rightarrow> (case take_many n s of (es, s) \<Rightarrow> (e # es, s)))"

lemma take_many_left:
  "fst (take_many n s) = take n (left_over s) \<and> left_over (snd (take_many n s)) = drop n (left_over s)"
proof (induction n arbitrary: s)
  case (Suc n)
  obtain r s' where next_s: "take_next s = (r, s')" by fastforce
  then show ?case
    using take_next_entry [of s] take_next_rest [of s] Suc.IH [of s'] by (cases "left_over s") (auto split: prod.split)
qed simp

end

record array_source =
  as_entries :: "merge_entry list"
  as_index :: nat

text \<open>\<open>SourceWrapper\<close> and \<open>AsyncSourceWrapper\<close>; of an iterator it only matters what it has still to give.\<close>

definition wrap_array :: "merge_entry list \<Rightarrow> array_source" where
  "wrap_array es = \<lparr>as_entries = es, as_index = 0\<rparr>"

definition array_next :: "array_source \<Rightarrow> merge_entry option \<times> array_source" where
  "array_next s =
     (if length (as_entries s) \<le> as_index s then (None, s)
      else (Some (as_entries s ! as_index s), s\<lparr>as_index := as_index s + 1\<rparr>))"

record async_source =
  ao_iterator :: "merge_entry list"
  ao_exhausted :: bool

definition wrap_async :: "merge_entry list \<Rightarrow> async_source" where
  "wrap_async es = \<lparr>ao_iterator = es, ao_exhausted = False\<rparr>"

definition async_next :: "async_source \<Rightarrow> merge_entry option \<times> async_source" where
  "async_next s =
     (if ao_exhausted s then (None, s)
      else
        (case ao_iterator s of
           [] \<Rightarrow> (None, s\<lparr>ao_exhausted := True\<rparr>)
         | e # es \<Rightarrow> (Some e, s\<lparr>ao_iterator := es\<rparr>)))"

definition array_left :: "array_source \<Rightarrow> merge_entry list" where
  "array_left s = drop (as_index s) (as_entries s)"

definition async_left :: "async_source \<Rightarrow> merge_entry list" where
  "async_left s = (if ao_exhausted s then [] else ao_iterator s)"

interpretation array_src: merge_source array_next array_left
proof
  fix s
  show "fst (array_next s) = (case array_left s of [] \<Rightarrow> None | e # es \<Rightarrow> Some e)"
    by (auto simp: array_next_def array_left_def Cons_nth_drop_Suc [symmetric])
  show "array_left (snd (array_next s)) = tl (array_left s)"
    by (simp add: array_next_def array_left_def tl_drop drop_Suc)
qed

interpretation async_src: merge_source async_next async_left
  by unfold_locales (auto simp: async_next_def async_left_def split: list.split)

lemma wrapped_left [simp]: "array_left (wrap_array es) = es" "async_left (wrap_async es) = es"
  by (simp_all add: array_left_def wrap_array_def async_left_def wrap_async_def)

definition fromAsyncSources :: "merge_entry list list \<Rightarrow> merge_state" where
  "fromAsyncSources sources = new_merge (map (async_left \<circ> wrap_async) sources)"

definition fromMixedSources :: "merge_entry list list \<Rightarrow> merge_entry list list \<Rightarrow> merge_state" where
  "fromMixedSources syncSources asyncSources =
     new_merge (map (array_left \<circ> wrap_array) syncSources @ map (async_left \<circ> wrap_async) asyncSources)"

lemma from_sources:
  "fromAsyncSources sources = new_merge sources" "fromMixedSources xs ys = new_merge (xs @ ys)"
  by (simp_all add: fromAsyncSources_def fromMixedSources_def o_def)

section \<open>Operations\<close>

definition advanceSource :: "nat \<Rightarrow> merge_state \<Rightarrow> merge_state" where
  "advanceSource i st =
     (if i < length (ms_sources st) then
        (case ms_sources st ! i of
           [] \<Rightarrow> st
         | e # es \<Rightarrow>
             st\<lparr>ms_sources := (ms_sources st)[i := es],
                ms_heap := heap_insert compareHeapEntries (ms_heap st) (with_source e i)\<rparr>)
      else st)"

definition initializeHeap :: "merge_state \<Rightarrow> merge_state" where
  "initializeHeap st =
     (if ms_initialized st then st
      else (fold advanceSource [0..<length (ms_sources st)] st)\<lparr>ms_initialized := True\<rparr>)"

text \<open>The number of steps left: an entry is moved into the heap and then taken out of it.\<close>

definition pending_steps :: "merge_state \<Rightarrow> nat" where
  "pending_steps st = length (ms_heap st) + 2 * length (concat (ms_sources st))"

lemma length_concat_tail:
  "i < length xss \<Longrightarrow> xss ! i = x # xs \<Longrightarrow>
   Suc (length (concat (xss[i := xs]))) = length (concat xss)"
  by (induction xss arbitrary: i) (auto split: nat.splits)

lemma pending_advance: "pending_steps (advanceSource i st) \<le> pending_steps st"
proof (cases "i < length (ms_sources st) \<and> ms_sources st ! i \<noteq> []")
  case True
  then obtain e es where e: "ms_sources st ! i = e # es" by (cases "ms_sources st ! i") auto
  have "Suc (length (concat ((ms_sources st)[i := es]))) = length (concat (ms_sources st))"
    by (rule length_concat_tail) (use True e in auto)
  then show ?thesis
    using True e by (simp add: advanceSource_def pending_steps_def)
qed (auto simp: advanceSource_def)

lemma pending_extract:
  "extractMin cmp (ms_heap st) = (Some x, h) \<Longrightarrow>
   pending_steps (st\<lparr>ms_heap := h\<rparr>) < pending_steps st"
  using length_extractMin [of cmp "ms_heap st"]
  by (cases "ms_heap st = []") (auto simp: pending_steps_def extractMin_def)

lemmas pending_extract_sym = pending_extract [OF sym]

text \<open>The inner loop: entries of older sources with the key just taken are dropped.\<close>

function drop_duplicates :: "jstring \<Rightarrow> merge_state \<Rightarrow> merge_state" where
  "drop_duplicates currentKey st =
     (case heap_peek (ms_heap st) of
        None \<Rightarrow> st
      | Some next_entry \<Rightarrow>
          if me_key next_entry = currentKey then
            (case extractMin compareHeapEntries (ms_heap st) of
               (None, h) \<Rightarrow> st
             | (Some duplicate, h) \<Rightarrow>
                 drop_duplicates currentKey
                   (advanceSource (he_src duplicate) (st\<lparr>ms_heap := h\<rparr>)))
          else st)"
  by pat_completeness auto
termination
  by (relation "measure (pending_steps \<circ> snd)")
    (auto intro: le_less_trans [OF pending_advance] pending_extract_sym)

declare drop_duplicates.simps [simp del]

lemma pending_drop: "pending_steps (drop_duplicates k st) \<le> pending_steps st"
proof (induction k st rule: drop_duplicates.induct)
  case (1 k st)
  show ?case
  proof (cases "\<exists>e0 d h. heap_peek (ms_heap st) = Some e0 \<and> me_key e0 = k \<and>
      extractMin compareHeapEntries (ms_heap st) = (Some d, h)")
    case True
    then obtain e0 d h where d: "heap_peek (ms_heap st) = Some e0" "me_key e0 = k"
      "extractMin compareHeapEntries (ms_heap st) = (Some d, h)" by blast
    have "pending_steps (advanceSource (he_src d) (st\<lparr>ms_heap := h\<rparr>)) < pending_steps st"
      using le_less_trans [OF pending_advance pending_extract [OF d(3)]] .
    then show ?thesis
      using 1 [OF d(1,2) d(3) [symmetric] refl] d by (subst drop_duplicates.simps) simp
  next
    case False
    then have "drop_duplicates k st = st"
      by (subst drop_duplicates.simps) (auto split: option.splits prod.splits)
    then show ?thesis by simp
  qed
qed

text \<open>
  \<open>iterate\<close>: the pairs yielded, in order. \<open>includeTombstones\<close> is the option of the
  configuration (false by default).
\<close>

function merge_loop :: "bool \<Rightarrow> merge_state \<Rightarrow> (jstring \<times> jstring) list" where
  "merge_loop includeTombstones st =
     (case extractMin compareHeapEntries (ms_heap st) of
        (None, h) \<Rightarrow> []
      | (Some winner, h) \<Rightarrow>
          let st1 = drop_duplicates (me_key winner) (st\<lparr>ms_heap := h\<rparr>);
              st2 = advanceSource (he_src winner) st1
          in if me_deleted winner \<and> \<not> includeTombstones
             then merge_loop includeTombstones st2
             else (me_key winner, me_value winner) # merge_loop includeTombstones st2)"
  by pat_completeness auto
termination
proof -
  have less: "pending_steps (advanceSource i (drop_duplicates k (st\<lparr>ms_heap := h\<rparr>))) < pending_steps st"
    if "(Some w, h) = extractMin compareHeapEntries (ms_heap st)" for i k st h w
    using pending_advance pending_drop pending_extract_sym [OF that] by (meson le_less_trans)
  show ?thesis
    by (relation "measure (pending_steps \<circ> snd)") (auto intro: less)
qed

declare merge_loop.simps [simp del]

definition iterate :: "bool \<Rightarrow> merge_state \<Rightarrow> (jstring \<times> jstring) list" where
  "iterate includeTombstones st = merge_loop includeTombstones (initializeHeap st)"

section \<open>What the merge delivers\<close>

text \<open>
  The specification: every key of some source once, in ascending order, with the entry of
  the first source that has it.
\<close>

definition entry_of :: "merge_entry list \<Rightarrow> jstring \<rightharpoonup> merge_entry" where
  "entry_of es k = find (\<lambda>e. me_key e = k) es"

definition all_keys :: "merge_entry list list \<Rightarrow> jstring set" where
  "all_keys srcs = (\<Union>es\<in>set srcs. me_key ` set es)"

definition newest :: "merge_entry list list \<Rightarrow> jstring \<rightharpoonup> merge_entry" where
  "newest srcs = first_hit (map entry_of srcs)"

definition merged :: "merge_entry list list \<Rightarrow> merge_entry list" where
  "merged srcs = map (\<lambda>k. the (newest srcs k)) (sorted_list_of_set (all_keys srcs))"

definition yielded :: "bool \<Rightarrow> merge_entry list \<Rightarrow> (jstring \<times> jstring) list" where
  "yielded includeTombstones es =
     map (\<lambda>e. (me_key e, me_value e)) (filter (\<lambda>e. includeTombstones \<or> \<not> me_deleted e) es)"

lemma finite_all_keys [simp]: "finite (all_keys srcs)"
  by (simp add: all_keys_def)

lemma entry_of_simps [simp]:
  "entry_of [] k = None"
  "entry_of (e # es) k = (if me_key e = k then Some e else entry_of es k)"
  by (simp_all add: entry_of_def)

lemma entry_of_Some: "entry_of es k = Some e \<Longrightarrow> e \<in> set es \<and> me_key e = k"
  by (auto simp: entry_of_def find_Some_iff)

lemma newest_Some: "newest srcs k = Some e \<Longrightarrow> me_key e = k \<and> (\<exists>es\<in>set srcs. e \<in> set es)"
  by (induction srcs) (auto simp: newest_def dest: entry_of_Some split: option.splits)

lemma newest_None: "newest srcs k = None \<longleftrightarrow> k \<notin> all_keys srcs"
  by (auto simp: newest_def first_hit_None entry_of_def find_None_iff all_keys_def)

section \<open>The invariant of the merge\<close>

text \<open>
  \<open>p\<close> holds what each source has not yet lost to the output, the entry in the heap included;
  the sources in \<open>W\<close> have had their entry taken out of the heap and are not yet advanced.
\<close>

definition head_of :: "merge_entry list list \<Rightarrow> nat \<Rightarrow> heap_entry" where
  "head_of p i = with_source (hd (p ! i)) i"

definition live :: "merge_entry list list \<Rightarrow> nat set \<Rightarrow> nat set" where
  "live p W = {i. i < length p \<and> p ! i \<noteq> [] \<and> i \<notin> W}"

definition merge_inv :: "merge_state \<Rightarrow> merge_entry list list \<Rightarrow> nat set \<Rightarrow> bool" where
  "merge_inv st p W \<longleftrightarrow> heap_ordered compareHeapEntries (ms_heap st) \<and>
     mset (ms_heap st) = image_mset (head_of p) (mset_set (live p W)) \<and>
     ms_sources st = map tl p"

lemma with_source_simps [simp]:
  "me_key (with_source e i) = me_key e" "me_value (with_source e i) = me_value e"
  "me_deleted (with_source e i) = me_deleted e" "he_src (with_source e i) = i"
  by (simp_all add: with_source_def merge_entry.defs)

lemma head_of_simps [simp]:
  "me_key (head_of p i) = me_key (hd (p ! i))" "me_value (head_of p i) = me_value (hd (p ! i))"
  "me_deleted (head_of p i) = me_deleted (hd (p ! i))" "he_src (head_of p i) = i"
  by (simp_all add: head_of_def)

lemma finite_live [simp]: "finite (live p W)"
  by (simp add: live_def)

interpretation merge_heap: comparator compareHeapEntries
proof
  fix a b c :: heap_entry
  show "0 < compareHeapEntries a b \<longleftrightarrow> compareHeapEntries b a < 0"
    by (auto simp: compareHeapEntries_def)
  show "compareHeapEntries a b \<le> 0 \<Longrightarrow> compareHeapEntries b c \<le> 0 \<Longrightarrow>
      compareHeapEntries a c \<le> 0"
    by (auto simp: compareHeapEntries_def split: if_splits)
qed

text \<open>Taking the minimum out of the heap: the least key, from the newest source that has it.\<close>

lemma merge_extract:
  assumes "merge_inv st p W" "live p W \<noteq> {}"
  obtains i h where "i \<in> live p W" "extractMin compareHeapEntries (ms_heap st) = (Some (head_of p i), h)"
    "heap_peek (ms_heap st) = Some (head_of p i)"
    "merge_inv (st\<lparr>ms_heap := h\<rparr>) p (insert i W)"
    "\<forall>j\<in>live p W. me_key (hd (p ! i)) \<le> me_key (hd (p ! j)) \<and>
       (me_key (hd (p ! i)) = me_key (hd (p ! j)) \<longrightarrow> i \<le> j)"
proof -
  let ?h = "ms_heap st"
  have heap: "heap_ordered compareHeapEntries ?h" "mset ?h = image_mset (head_of p) (mset_set (live p W))"
    using assms(1) by (auto simp: merge_inv_def)
  then have ne: "mset ?h \<noteq> {#}" using assms(2) by (simp add: mset_set_empty_iff)
  then obtain x where x: "fst (extractMin compareHeapEntries ?h) = Some x" "x \<in># mset ?h"
    "\<forall>y\<in>#mset ?h. compareHeapEntries x y \<le> 0"
    "mset (snd (extractMin compareHeapEntries ?h)) = mset ?h - {#x#}"
    using merge_heap.bin_heap.extract_least [OF heap(1)] by blast
  then obtain i where i: "i \<in> live p W" "x = head_of p i"
    using heap(2) by auto
  obtain h where h: "extractMin compareHeapEntries ?h = (Some (head_of p i), h)"
    using x(1) i by (cases "extractMin compareHeapEntries ?h") auto
  have "live p W = insert i (live p (insert i W))" "i \<notin> live p (insert i W)"
    using i(1) by (auto simp: live_def)
  then have "mset h = image_mset (head_of p) (mset_set (live p (insert i W)))"
    using x(4) h heap(2) i(2) by simp
  moreover have "heap_ordered compareHeapEntries h"
    using merge_heap.bin_heap.invar_extract [OF heap(1)] h by simp
  ultimately have inv: "merge_inv (st\<lparr>ms_heap := h\<rparr>) p (insert i W)"
    using assms(1) by (simp add: merge_inv_def)
  have least: "compareHeapEntries (head_of p i) (head_of p j) \<le> 0" if "j \<in> live p W" for j
    using x(3) that heap(2) i(2) by simp
  show thesis
  proof (rule that [OF i(1) h _ inv])
    show "heap_peek ?h = Some (head_of p i)"
      using h heap_peek_extractMin [of ?h compareHeapEntries] by simp
    show "\<forall>j\<in>live p W. me_key (hd (p ! i)) \<le> me_key (hd (p ! j)) \<and>
        (me_key (hd (p ! i)) = me_key (hd (p ! j)) \<longrightarrow> i \<le> j)"
      using least by (fastforce simp: compareHeapEntries_def split: if_splits)
  qed
qed

lemma merge_extract_None:
  assumes "merge_inv st p W" "live p W = {}"
  shows "ms_heap st = []"
  using assms by (simp add: merge_inv_def)

lemma merge_advance:
  assumes "merge_inv st p W" "i \<in> W" "i < length p" "p ! i \<noteq> []"
  shows "merge_inv (advanceSource i st) (p[i := tl (p ! i)]) (W - {i})"
proof -
  have src: "i < length (ms_sources st)" "ms_sources st ! i = tl (p ! i)"
    using assms by (auto simp: merge_inv_def)
  have same: "head_of (p[i := tl (p ! i)]) j = head_of p j" if "j \<noteq> i" for j
    using that by (simp add: head_of_def)
  show ?thesis
  proof (cases "tl (p ! i)")
    case Nil
    then have live: "live (p[i := tl (p ! i)]) (W - {i}) = live p W"
      using assms by (auto simp: live_def nth_list_update)
    have "image_mset (head_of (p[i := tl (p ! i)])) (mset_set (live p W)) =
        image_mset (head_of p) (mset_set (live p W))"
      using assms(2) by (intro image_mset_cong same) (auto simp: live_def)
    moreover have "map tl (p[i := tl (p ! i)]) = map tl p"
      using Nil by (simp add: map_update list_update_same_conv assms(3))
    ultimately show ?thesis
      using assms(1) src Nil live by (simp add: merge_inv_def advanceSource_def)
  next
    case (Cons e es)
    let ?p = "p[i := tl (p ! i)]"
    have live: "live ?p (W - {i}) = insert i (live p W)" "i \<notin> live p W"
      using assms Cons by (auto simp: live_def nth_list_update)
    have "image_mset (head_of ?p) (mset_set (live p W)) =
        image_mset (head_of p) (mset_set (live p W))"
      using assms(2) by (intro image_mset_cong same) (auto simp: live_def)
    moreover have "head_of ?p i = with_source e i"
      using assms(3) Cons by (simp add: head_of_def)
    moreover have "map tl ?p = (map tl p)[i := es]"
      using Cons by (simp add: map_update)
    moreover have "mset (ms_heap st) = image_mset (head_of p) (mset_set (live p W))"
      "heap_ordered compareHeapEntries (ms_heap st)" "ms_sources st = map tl p"
      using assms(1) by (auto simp: merge_inv_def)
    ultimately show ?thesis
      using src Cons live
      by (simp add: merge_inv_def advanceSource_def heap_insert_mset merge_heap.bin_heap.invar_insert)
  qed
qed

section \<open>The loops\<close>

definition drop_key :: "jstring \<Rightarrow> nat \<Rightarrow> merge_entry list list \<Rightarrow> merge_entry list list" where
  "drop_key k w p =
     map (\<lambda>i. if i = w then p ! i else dropWhile (\<lambda>e. me_key e = k) (p ! i)) [0..<length p]"

lemma length_drop_key [simp]: "length (drop_key k w p) = length p"
  by (simp add: drop_key_def)

lemma nth_drop_key:
  "i < length p \<Longrightarrow>
   drop_key k w p ! i = (if i = w then p ! i else dropWhile (\<lambda>e. me_key e = k) (p ! i))"
  by (simp add: drop_key_def)

lemma drop_key_same:
  assumes "\<And>i. i \<in> live p {w} \<Longrightarrow> me_key (hd (p ! i)) \<noteq> k"
  shows "drop_key k w p = p"
proof (rule nth_equalityI)
  fix i assume i: "i < length (drop_key k w p)"
  show "drop_key k w p ! i = p ! i"
  proof (cases "p ! i")
    case (Cons e es)
    then show ?thesis using assms [of i] i by (auto simp: nth_drop_key live_def)
  qed (use i in \<open>auto simp: nth_drop_key\<close>)
qed simp

lemma drop_key_tail:
  assumes "i \<in> live p {w}" "me_key (hd (p ! i)) = k"
  shows "drop_key k w (p[i := tl (p ! i)]) = drop_key k w p"
proof (rule nth_equalityI)
  fix j assume j: "j < length (drop_key k w (p[i := tl (p ! i)]))"
  show "drop_key k w (p[i := tl (p ! i)]) ! j = drop_key k w p ! j"
    using assms j by (cases "p ! i") (auto simp: nth_drop_key live_def nth_list_update)
qed simp

lemma ordered_tl: "ordered_by f es \<Longrightarrow> ordered_by f (tl es)"
  by (cases es) auto

lemma ordered_update_tl:
  assumes "\<forall>es\<in>set p. ordered_by f es" "i < length p"
  shows "\<forall>es\<in>set (p[i := tl (p ! i)]). ordered_by f es"
proof
  fix es assume "es \<in> set (p[i := tl (p ! i)])"
  then have "es = tl (p ! i) \<or> es \<in> set p"
    using set_update_subset_insert [of p i "tl (p ! i)"] by blast
  then show "ordered_by f es"
    using assms by (auto intro: ordered_tl)
qed

lemma hd_tl_ordered:
  assumes "ordered_by f es" "tl es \<noteq> []"
  shows "f (hd es) < f (hd (tl es))"
  using assms by (cases es) auto

lemma drop_duplicates_inv:
  assumes "merge_inv st p {w}" "\<forall>es\<in>set p. ordered_by me_key es"
    and "\<And>i. i \<in> live p {w} \<Longrightarrow> k \<le> me_key (hd (p ! i))"
  shows "merge_inv (drop_duplicates k st) (drop_key k w p) {w}"
  using assms
proof (induction k st arbitrary: p rule: drop_duplicates.induct)
  case (1 k st p)
  show ?case
  proof (cases "live p {w} = {}")
    case True
    then show ?thesis
      using merge_extract_None [OF "1.prems"(1)] drop_key_same [of p w k] "1.prems"(1)
      by (simp add: drop_duplicates.simps [of k st] heap_peek_def)
  next
    case False
    obtain i h where i: "i \<in> live p {w}"
      "extractMin compareHeapEntries (ms_heap st) = (Some (head_of p i), h)"
      "heap_peek (ms_heap st) = Some (head_of p i)"
      "merge_inv (st\<lparr>ms_heap := h\<rparr>) p (insert i {w})"
      "\<forall>j\<in>live p {w}. me_key (hd (p ! i)) \<le> me_key (hd (p ! j)) \<and>
         (me_key (hd (p ! i)) = me_key (hd (p ! j)) \<longrightarrow> i \<le> j)"
      by (rule merge_extract [OF "1.prems"(1) False])
    show ?thesis
    proof (cases "me_key (hd (p ! i)) = k")
      case True
      let ?p = "p[i := tl (p ! i)]" and ?st = "advanceSource i (st\<lparr>ms_heap := h\<rparr>)"
      have "i \<noteq> w" and lt: "i < length p" using i(1) by (auto simp: live_def)
      have "merge_inv ?st ?p (insert i {w} - {i})"
        by (rule merge_advance [OF i(4)]) (use i(1) in \<open>auto simp: live_def\<close>)
      then have inv: "merge_inv ?st ?p {w}"
        using \<open>i \<noteq> w\<close> by (simp add: insert_Diff_if)
      have ge: "k \<le> me_key (hd (?p ! j))" if "j \<in> live ?p {w}" for j
      proof (cases "j = i")
        case True
        then have "tl (p ! i) \<noteq> []" "p ! i \<in> set p"
          using that i(1) by (auto simp: live_def)
        then show ?thesis
          using True i(1) hd_tl_ordered [of me_key "p ! i"] "1.prems"(2) \<open>me_key (hd (p ! i)) = k\<close>
          by (auto simp: live_def)
      qed (use that "1.prems"(3) in \<open>auto simp: live_def\<close>)
      have "merge_inv (drop_duplicates k ?st) (drop_key k w ?p) {w}"
        using "1.IH" [OF i(3) _ i(2) [symmetric] refl, simplified, OF True inv
            ordered_update_tl [OF "1.prems"(2) lt] ge] by simp
      then show ?thesis
        using True i drop_key_tail [OF i(1) True]
        by (simp add: drop_duplicates.simps [of k st])
    next
      case False
      then have "me_key (hd (p ! j)) \<noteq> k" if "j \<in> live p {w}" for j
        using "1.prems"(3) [OF i(1)] bspec [OF i(5) that] by auto
      then have "drop_key k w p = p" by (rule drop_key_same)
      then show ?thesis
        using False i(3) "1.prems"(1) by (simp add: drop_duplicates.simps [of k st])
    qed
  qed
qed

text \<open>One turn of the outer loop removes the least key from every source.\<close>

lemma dropWhile_key:
  assumes "ordered_by f es" "\<forall>e\<in>set es. k \<le> f e"
  shows "dropWhile (\<lambda>e. f e = k) es = filter (\<lambda>e. f e \<noteq> k) es"
proof (cases es)
  case (Cons a as)
  have "filter (\<lambda>e. f e \<noteq> k) as = as"
    using assms Cons by (auto intro!: filter_True)
  moreover have "dropWhile (\<lambda>e. f e = k) as = as"
    using assms Cons by (cases as) auto
  ultimately show ?thesis
    using Cons by simp
qed simp

lemma key_ge_live:
  assumes "\<forall>es\<in>set p. ordered_by me_key es" "\<forall>j\<in>live p {}. k \<le> me_key (hd (p ! j))"
    "es \<in> set p" "e \<in> set es"
  shows "k \<le> me_key e"
proof -
  obtain j where "j < length p" "es = p ! j" using assms(3) by (auto simp: in_set_conv_nth)
  then have "k \<le> me_key (hd es)" using assms(2,4) by (auto simp: live_def)
  also have "\<dots> \<le> me_key e" using assms by (intro ordered_by_hd_last) auto
  finally show ?thesis .
qed

lemma dropWhile_all_keys:
  assumes "\<forall>es\<in>set p. ordered_by me_key es" "\<forall>es\<in>set p. \<forall>e\<in>set es. k \<le> me_key e"
  shows "map (dropWhile (\<lambda>e. me_key e = k)) p = map (filter (\<lambda>e. me_key e \<noteq> k)) p"
  using assms by (auto intro: dropWhile_key)

lemma newest_filter:
  "k' \<noteq> k \<Longrightarrow> newest (map (filter (\<lambda>e. me_key e \<noteq> k)) p) k' = newest p k'"
proof (induction p)
  case (Cons es p)
  have "entry_of (filter (\<lambda>e. me_key e \<noteq> k) es) k' = entry_of es k'"
    using Cons.prems by (induction es) auto
  with Cons show ?case by (simp add: newest_def split: option.split)
qed simp

lemma all_keys_filter: "all_keys (map (filter (\<lambda>e. me_key e \<noteq> k)) p) = all_keys p - {k}"
  by (auto simp: all_keys_def)

lemma newest_index:
  assumes "i < length p" "p ! i = e # es"
    and "\<And>j. j < i \<Longrightarrow> \<forall>x\<in>set (p ! j). me_key x \<noteq> me_key e"
  shows "newest p (me_key e) = Some e"
  using assms
proof (induction p arbitrary: i)
  case (Cons xs p)
  show ?case
  proof (cases i)
    case 0
    then show ?thesis using Cons.prems by (simp add: newest_def)
  next
    case (Suc m)
    have "entry_of xs (me_key e) = None"
      using Cons.prems(3) [of 0] Suc by (simp add: entry_of_def find_None_iff)
    moreover have "newest p (me_key e) = Some e"
    proof (rule Cons.IH)
      show "\<And>j. j < m \<Longrightarrow> \<forall>x\<in>set (p ! j). me_key x \<noteq> me_key e"
        using Cons.prems(3) [of "Suc _"] Suc by simp
    qed (use Cons.prems Suc in auto)
    ultimately show ?thesis by (simp add: newest_def)
  qed
qed simp

lemma merged_step:
  assumes ord: "\<forall>es\<in>set p. ordered_by me_key es" and i: "i \<in> live p {}"
    and least: "\<forall>j\<in>live p {}. me_key (hd (p ! i)) \<le> me_key (hd (p ! j)) \<and>
       (me_key (hd (p ! i)) = me_key (hd (p ! j)) \<longrightarrow> i \<le> j)"
  defines "k \<equiv> me_key (hd (p ! i))"
  shows "merged p = hd (p ! i) # merged (map (dropWhile (\<lambda>e. me_key e = k)) p)"
    and "(drop_key k i p)[i := tl (p ! i)] = map (dropWhile (\<lambda>e. me_key e = k)) p"
proof -
  obtain e es where e: "p ! i = e # es" "i < length p"
    using i by (cases "p ! i") (auto simp: live_def)
  then have k: "k = me_key e" by (simp add: k_def)
  have ge: "\<forall>es\<in>set p. \<forall>e\<in>set es. k \<le> me_key e"
    using key_ge_live [OF ord, of k] least by (auto simp: k_def)
  have "e # es \<in> set p" using nth_mem [OF e(2)] e(1) by simp
  then have mem: "k \<in> all_keys p"
    by (force simp: all_keys_def k)
  then have min: "Min (all_keys p) = k"
    using ge by (intro Min_eqI) (auto simp: all_keys_def)
  have "all_keys p \<noteq> {}"
    using mem by auto
  then have keys: "sorted_list_of_set (all_keys p) = k # sorted_list_of_set (all_keys p - {k})"
    using sorted_list_of_set_nonempty [of "all_keys p"] min by simp
  have new: "newest p k = Some e"
    unfolding k
  proof (rule newest_index [OF e(2,1)])
    fix j assume j: "j < i"
    show "\<forall>x\<in>set (p ! j). me_key x \<noteq> me_key e"
    proof
      fix x assume x: "x \<in> set (p ! j)"
      have "j \<in> live p {}" using x j e(2) by (auto simp: live_def)
      then have "k \<le> me_key (hd (p ! j))" "k \<noteq> me_key (hd (p ! j))"
        using least j by (auto simp: k_def)
      moreover have "me_key (hd (p ! j)) \<le> me_key x"
        using x ord j e(2) by (intro ordered_by_hd_last) auto
      ultimately show "me_key x \<noteq> me_key e" unfolding k [symmetric] by auto
    qed
  qed
  have "newest (map (filter (\<lambda>e. me_key e \<noteq> k)) p) x = newest p x"
    if "x \<in> set (sorted_list_of_set (all_keys p - {k}))" for x
    using that by (intro newest_filter) simp
  then show "merged p = hd (p ! i) # merged (map (dropWhile (\<lambda>e. me_key e = k)) p)"
    unfolding merged_def dropWhile_all_keys [OF ord ge] all_keys_filter keys
    by (simp add: new e)
  show "(drop_key k i p)[i := tl (p ! i)] = map (dropWhile (\<lambda>e. me_key e = k)) p"
  proof (rule nth_equalityI)
    fix j assume "j < length ((drop_key k i p)[i := tl (p ! i)])"
    then have j: "j < length p" by simp
    have "dropWhile (\<lambda>x. me_key x = k) es = es"
      using bspec [OF ord nth_mem [OF e(2)]] e(1) by (cases es) (auto simp: k)
    then show "(drop_key k i p)[i := tl (p ! i)] ! j = map (dropWhile (\<lambda>e. me_key e = k)) p ! j"
      using j e by (auto simp: nth_drop_key nth_list_update k)
  qed simp
qed

lemma merge_loop_correct:
  assumes "merge_inv st p {}" "\<forall>es\<in>set p. ordered_by me_key es"
  shows "merge_loop b st = yielded b (merged p)"
  using assms
proof (induction "length (concat p)" arbitrary: p st rule: less_induct)
  case less
  show ?case
  proof (cases "live p {} = {}")
    case True
    then have "all_keys p = {}" by (auto simp: live_def all_keys_def in_set_conv_nth)
    then show ?thesis
      using merge_extract_None [OF less.prems(1) True]
      by (simp add: merge_loop.simps [of b st] extractMin_def yielded_def merged_def)
  next
    case False
    obtain i h where i: "i \<in> live p {}"
      "extractMin compareHeapEntries (ms_heap st) = (Some (head_of p i), h)"
      "heap_peek (ms_heap st) = Some (head_of p i)"
      "merge_inv (st\<lparr>ms_heap := h\<rparr>) p (insert i {})"
      "\<forall>j\<in>live p {}. me_key (hd (p ! i)) \<le> me_key (hd (p ! j)) \<and>
         (me_key (hd (p ! i)) = me_key (hd (p ! j)) \<longrightarrow> i \<le> j)"
      by (rule merge_extract [OF less.prems(1) False])
    define k where "k = me_key (hd (p ! i))"
    let ?q = "map (dropWhile (\<lambda>e. me_key e = k)) p"
    let ?st1 = "drop_duplicates k (st\<lparr>ms_heap := h\<rparr>)"
    let ?st2 = "advanceSource i ?st1"
    note step = merged_step [OF less.prems(2) i(1,5), folded k_def]
    have lt: "i < length p" "p ! i \<noteq> []" using i(1) by (auto simp: live_def)
    have "merge_inv ?st1 (drop_key k i p) {i}"
      using i less.prems(2) by (intro drop_duplicates_inv) (auto simp: k_def live_def)
    then have "merge_inv ?st2 ((drop_key k i p)[i := tl (drop_key k i p ! i)]) ({i} - {i})"
      using lt by (intro merge_advance) (auto simp: nth_drop_key)
    then have inv: "merge_inv ?st2 ?q {}"
      using step(2) lt by (simp add: nth_drop_key)
    have "\<forall>es\<in>set ?q. ordered_by me_key es"
      using less.prems(2) by (auto simp: dropWhile_eq_drop ordered_by_drop)
    moreover have "length (concat ?q) < length (concat p)"
    proof -
      have "length (dropWhile (\<lambda>e. me_key e = k) (p ! i)) < length (p ! i)"
        using lt(2) length_dropWhile_le [of _ "tl (p ! i)"] by (cases "p ! i") (auto simp: k_def less_Suc_eq_le)
      then show ?thesis
        unfolding length_concat using lt(1)
        by (auto simp: comp_def sum_list_sum_nth intro!: sum_strict_mono_ex1 length_dropWhile_le)
    qed
    ultimately have "merge_loop b ?st2 = yielded b (merged ?q)"
      using inv by (intro less.hyps)
    then show ?thesis
      using i(2) step(1)
      by (cases b) (simp_all add: merge_loop.simps [of _ st] k_def yielded_def Let_def)
  qed
qed

section \<open>Initialisation and the whole iteration\<close>

lemma advance_all:
  assumes "n \<le> length srcs"
  shows "merge_inv (fold advanceSource [0..<n] (new_merge srcs))
     (take n srcs @ map (Cons e) (drop n srcs)) {n..<length srcs}"
  using assms
proof (induction n)
  case 0
  have "live (map (Cons e) srcs) {0..<length srcs} = {}" by (auto simp: live_def)
  then show ?case
    by (simp add: merge_inv_def new_merge_def heap_ordered_def comp_def)
next
  case (Suc n)
  let ?p = "take n srcs @ map (Cons e) (drop n srcs)"
  let ?st = "fold advanceSource [0..<n] (new_merge srcs)"
  have nth: "?p ! n = e # srcs ! n" using Suc.prems by (simp add: nth_append)
  have "merge_inv (advanceSource n ?st) (?p[n := tl (?p ! n)]) ({n..<length srcs} - {n})"
    using Suc nth by (intro merge_advance) auto
  moreover have "{n..<length srcs} - {n} = {Suc n..<length srcs}"
    using Suc.prems by auto
  moreover have "?p[n := tl (?p ! n)] = take (Suc n) srcs @ map (Cons e) (drop (Suc n) srcs)"
    using Suc.prems nth
    by (simp add: list_update_append take_Suc_conv_app_nth Cons_nth_drop_Suc [symmetric])
  ultimately show ?case by simp
qed

theorem iterate_merged:
  assumes "\<forall>es\<in>set srcs. ordered_by me_key es"
  shows "iterate b (new_merge srcs) = yielded b (merged srcs)"
proof -
  have "merge_inv (fold advanceSource [0..<length srcs] (new_merge srcs)) srcs {}"
    using advance_all [of "length srcs" srcs] by simp
  then have "merge_inv (initializeHeap (new_merge srcs)) srcs {}"
    by (simp add: initializeHeap_def new_merge_def merge_inv_def)
  then show ?thesis
    unfolding iterate_def using assms by (rule merge_loop_correct)
qed

text \<open>The yielded pairs are sorted, and hold exactly the keys whose newest entry is live.\<close>

lemma merged_keys: "map me_key (merged srcs) = sorted_list_of_set (all_keys srcs)"
proof -
  have "me_key (the (newest srcs k)) = k" if "k \<in> all_keys srcs" for k
    using that newest_None [of srcs k] newest_Some [of srcs k] by (cases "newest srcs k") auto
  then show ?thesis by (auto simp: merged_def intro!: map_idI)
qed

lemma ordered_merged: "ordered_by me_key (merged srcs)"
  using strict_sorted_list_of_set [of "all_keys srcs"]
  by (simp add: ordered_by_def sorted_wrt_map [symmetric] merged_keys)

lemma ordered_yielded: "ordered_by fst (yielded b (merged srcs))"
  by (simp add: yielded_def comp_def ordered_by_filter ordered_merged)

lemma set_merged: "e \<in> set (merged srcs) \<longleftrightarrow> newest srcs (me_key e) = Some e"
proof
  assume "e \<in> set (merged srcs)"
  then obtain k where k: "k \<in> all_keys srcs" "e = the (newest srcs k)"
    by (auto simp: merged_def)
  then obtain e' where "newest srcs k = Some e'" using newest_None by fastforce
  then show "newest srcs (me_key e) = Some e" using k newest_Some by fastforce
next
  assume new: "newest srcs (me_key e) = Some e"
  then have "me_key e \<in> all_keys srcs" by (metis newest_None option.distinct(1))
  then show "e \<in> set (merged srcs)"
    using new by (auto simp: merged_def intro!: image_eqI [of _ _ "me_key e"])
qed

lemma yielded_lookup:
  "map_of (yielded False (merged srcs)) k =
     (case newest srcs k of
        Some e \<Rightarrow> if me_deleted e then None else Some (me_value e)
      | None \<Rightarrow> None)"
proof (rule option.exhaust [of "map_of (yielded False (merged srcs)) k"])
  have iff: "map_of (yielded False (merged srcs)) k = Some v \<longleftrightarrow>
      (\<exists>e. newest srcs k = Some e \<and> \<not> me_deleted e \<and> me_value e = v)" for v
    unfolding map_of_ordered [OF ordered_yielded]
    by (auto simp: yielded_def set_merged dest: newest_Some)
  show ?thesis if "map_of (yielded False (merged srcs)) k = None"
    using that iff by (auto split: option.splits)
  show ?thesis if "map_of (yielded False (merged srcs)) k = Some v" for v
    using that iff [of v] by auto
qed

end
