(* ===== verification/Sorted_Map.thy ===== *)
theory Sorted_Map
  imports JS_String KV_Prelude
begin

text \<open>
  The red-black tree of src/src/storage/memtable/SortedMap.ts. A node is a tree value; a
  position in the tree, with its chain of parent pointers, is a subtree and the path of
  frames from it up to the root. \<open>node === parent.left\<close> is then the direction of the first
  frame. The contract of an ordered map, which the memtable relies on, is the locale
  \<open>ordered_map\<close>.
\<close>

section \<open>Nodes, paths and the map\<close>

datatype color = RED | BLACK

datatype 'v rbnode =
  Null
| RBNode (node_color: color) (node_left: "'v rbnode") (node_key: jstring) (node_value: 'v)
    (node_right: "'v rbnode")

datatype side = LeftSide | RightSide

text \<open>A parent whose child on one side is the position: its own data and its other child.\<close>

record 'v frame =
  fr_side :: side
  fr_color :: color
  fr_key :: jstring
  fr_value :: 'v
  fr_other :: "'v rbnode"

record 'v sorted_map =
  sm_root :: "'v rbnode"
  sm_count :: nat

definition new_map :: "'v sorted_map" where
  "new_map = \<lparr>sm_root = Null, sm_count = 0\<rparr>"

definition compareKeys :: "jstring \<Rightarrow> jstring \<Rightarrow> int" where
  "compareKeys a b = (if a < b then -1 else if b < a then 1 else 0)"

text \<open>\<open>node?.color\<close>: only a red node is told apart.\<close>

fun is_red :: "'v rbnode \<Rightarrow> bool" where
  "is_red Null = False"
| "is_red (RBNode c l k v r) = (c = RED)"

fun set_color :: "color \<Rightarrow> 'v rbnode \<Rightarrow> 'v rbnode" where
  "set_color c Null = Null"
| "set_color c (RBNode c' l k v r) = RBNode c l k v r"

definition attach :: "'v rbnode \<Rightarrow> 'v frame \<Rightarrow> 'v rbnode" where
  "attach t f =
     (case fr_side f of
        LeftSide \<Rightarrow> RBNode (fr_color f) t (fr_key f) (fr_value f) (fr_other f)
      | RightSide \<Rightarrow> RBNode (fr_color f) (fr_other f) (fr_key f) (fr_value f) t)"

text \<open>The whole tree, seen from its root.\<close>

abbreviation root_of :: "'v rbnode \<Rightarrow> 'v frame list \<Rightarrow> 'v rbnode" where
  "root_of t path \<equiv> foldl attach t path"

section \<open>Operations\<close>

fun findNode :: "jstring \<Rightarrow> 'v rbnode \<Rightarrow> 'v rbnode" where
  "findNode key Null = Null"
| "findNode key (RBNode c l k v r) =
     (let cmp = compareKeys key k in
      if cmp = 0 then RBNode c l k v r
      else if cmp < 0 then findNode key l else findNode key r)"

definition sm_get :: "'v sorted_map \<Rightarrow> jstring \<Rightarrow> 'v option" where
  "sm_get m key =
     (case findNode key (sm_root m) of Null \<Rightarrow> None | RBNode c l k v r \<Rightarrow> Some v)"

definition sm_has :: "'v sorted_map \<Rightarrow> jstring \<Rightarrow> bool" where
  "sm_has m key \<longleftrightarrow> findNode key (sm_root m) \<noteq> Null"

definition sm_clear :: "'v sorted_map \<Rightarrow> 'v sorted_map" where
  "sm_clear m = m\<lparr>sm_root := Null, sm_count := 0\<rparr>"

fun inOrderTraversal :: "'v rbnode \<Rightarrow> (jstring \<times> 'v) list" where
  "inOrderTraversal Null = []"
| "inOrderTraversal (RBNode c l k v r) =
     inOrderTraversal l @ [(k, v)] @ inOrderTraversal r"

text \<open>What the generator yields, and the iterator of the map.\<close>

fun inOrderGenerator :: "'v rbnode \<Rightarrow> (jstring \<times> 'v) list" where
  "inOrderGenerator Null = []"
| "inOrderGenerator (RBNode c l k v r) = inOrderGenerator l @ (k, v) # inOrderGenerator r"

definition sm_iterator :: "'v sorted_map \<Rightarrow> (jstring \<times> 'v) list" where
  "sm_iterator m = inOrderGenerator (sm_root m)"

definition sm_entries :: "'v sorted_map \<Rightarrow> (jstring \<times> 'v) list" where
  "sm_entries m = inOrderTraversal (sm_root m)"

fun rangeTraversal :: "'v rbnode \<Rightarrow> jstring \<Rightarrow> jstring \<Rightarrow> (jstring \<times> 'v) list" where
  "rangeTraversal Null startKey endKey = []"
| "rangeTraversal (RBNode c l k v r) startKey endKey =
     (let cmpStart = compareKeys k startKey; cmpEnd = compareKeys k endKey in
      (if 0 < cmpStart then rangeTraversal l startKey endKey else []) @
      (if 0 \<le> cmpStart \<and> cmpEnd \<le> 0 then [(k, v)] else []) @
      (if cmpEnd < 0 then rangeTraversal r startKey endKey else []))"

definition sm_range :: "'v sorted_map \<Rightarrow> jstring \<Rightarrow> jstring \<Rightarrow> (jstring \<times> 'v) list" where
  "sm_range m startKey endKey = rangeTraversal (sm_root m) startKey endKey"

text \<open>A rotation moves nodes with their colours; a missing child leaves the tree as it is.\<close>

fun rotateLeft :: "'v rbnode \<Rightarrow> 'v rbnode" where
  "rotateLeft (RBNode c l k v (RBNode c' l' k' v' r')) = RBNode c' (RBNode c l k v l') k' v' r'"
| "rotateLeft t = t"

fun rotateRight :: "'v rbnode \<Rightarrow> 'v rbnode" where
  "rotateRight (RBNode c (RBNode c' l' k' v' r') k v r) = RBNode c' l' k' v' (RBNode c r' k v r)"
| "rotateRight t = t"

text \<open>
  The loop of \<open>fixInsert\<close>; \<open>t\<close> is the current node. With a red uncle the loop goes on from
  the grandparent; otherwise the rotations leave a black parent above the current node, so
  that the loop condition fails and only the root remains to be coloured.
\<close>

fun fixInsert :: "'v rbnode \<Rightarrow> 'v frame list \<Rightarrow> 'v rbnode" where
  "fixInsert t [] = set_color BLACK t"
| "fixInsert t [p] = set_color BLACK (root_of t [p])"
| "fixInsert t (p # g # path) =
     (if fr_color p = RED then
        let uncle = fr_other g in
        if is_red uncle then
          fixInsert (attach (attach t (p\<lparr>fr_color := BLACK\<rparr>))
            (g\<lparr>fr_color := RED, fr_other := set_color BLACK uncle\<rparr>)) path
        else
          (case fr_side g of
             LeftSide \<Rightarrow>
               let parent = (if fr_side p = RightSide then rotateLeft (attach t p) else attach t p)
               in set_color BLACK (root_of (rotateRight
                    (attach (set_color BLACK parent) (g\<lparr>fr_color := RED\<rparr>))) path)
           | RightSide \<Rightarrow>
               let parent = (if fr_side p = LeftSide then rotateRight (attach t p) else attach t p)
               in set_color BLACK (root_of (rotateLeft
                    (attach (set_color BLACK parent) (g\<lparr>fr_color := RED\<rparr>))) path))
      else set_color BLACK (root_of t (p # g # path)))"

text \<open>The descent of \<open>set\<close>: to the node with the key, or to the empty place for it.\<close>

fun descend :: "jstring \<Rightarrow> 'v rbnode \<Rightarrow> 'v frame list \<Rightarrow> 'v rbnode \<times> 'v frame list" where
  "descend key Null path = (Null, path)"
| "descend key (RBNode c l k v r) path =
     (let cmp = compareKeys key k in
      if cmp = 0 then (RBNode c l k v r, path)
      else if cmp < 0 then
        descend key l (\<lparr>fr_side = LeftSide, fr_color = c, fr_key = k, fr_value = v, fr_other = r\<rparr> # path)
      else
        descend key r (\<lparr>fr_side = RightSide, fr_color = c, fr_key = k, fr_value = v, fr_other = l\<rparr> # path))"

definition sm_set :: "'v sorted_map \<Rightarrow> jstring \<Rightarrow> 'v \<Rightarrow> 'v sorted_map" where
  "sm_set m key value =
     (if sm_root m = Null then
        \<lparr>sm_root = RBNode BLACK Null key value Null, sm_count = sm_count m + 1\<rparr>
      else
        (case descend key (sm_root m) [] of
           (RBNode c l k v r, path) \<Rightarrow> m\<lparr>sm_root := root_of (RBNode c l k value r) path\<rparr>
         | (Null, path) \<Rightarrow>
             \<lparr>sm_root = fixInsert (RBNode RED Null key value Null) path,
              sm_count = sm_count m + 1\<rparr>))"

section \<open>Order\<close>

lemma compareKeys_simps [simp]:
  "compareKeys a b = 0 \<longleftrightarrow> a = b" "compareKeys a b < 0 \<longleftrightarrow> a < b" "0 < compareKeys a b \<longleftrightarrow> b < a"
  "0 \<le> compareKeys a b \<longleftrightarrow> b \<le> a" "compareKeys a b \<le> 0 \<longleftrightarrow> a \<le> b"
  by (auto simp: compareKeys_def)

text \<open>The pairs to the left and to the right of a position.\<close>

definition frame_left :: "'v frame \<Rightarrow> (jstring \<times> 'v) list" where
  "frame_left f = (case fr_side f of LeftSide \<Rightarrow> []
     | RightSide \<Rightarrow> inOrderTraversal (fr_other f) @ [(fr_key f, fr_value f)])"

definition frame_right :: "'v frame \<Rightarrow> (jstring \<times> 'v) list" where
  "frame_right f = (case fr_side f of LeftSide \<Rightarrow> (fr_key f, fr_value f) # inOrderTraversal (fr_other f)
     | RightSide \<Rightarrow> [])"

definition before :: "'v frame list \<Rightarrow> (jstring \<times> 'v) list" where
  "before path = concat (rev (map frame_left path))"

definition after :: "'v frame list \<Rightarrow> (jstring \<times> 'v) list" where
  "after path = concat (map frame_right path)"

lemma before_simps [simp]: "before [] = []" "before (f # path) = before path @ frame_left f"
  by (simp_all add: before_def)

lemma after_simps [simp]: "after [] = []" "after (f # path) = frame_right f @ after path"
  by (simp_all add: after_def)

lemma inorder_attach [simp]:
  "inOrderTraversal (attach t f) = frame_left f @ inOrderTraversal t @ frame_right f"
  by (simp add: attach_def frame_left_def frame_right_def split: side.splits)

lemma inorder_root_of:
  "inOrderTraversal (root_of t path) = before path @ inOrderTraversal t @ after path"
  by (induction path arbitrary: t) simp_all

lemma sm_iterator_entries: "sm_iterator m = sm_entries m"
proof -
  have "inOrderGenerator t = inOrderTraversal t" for t :: "'v rbnode" by (induction t) simp_all
  then show ?thesis by (simp add: sm_iterator_def sm_entries_def)
qed

lemma inorder_set_color [simp]: "inOrderTraversal (set_color c t) = inOrderTraversal t"
  by (cases t) simp_all

lemma inorder_rotateLeft [simp]: "inOrderTraversal (rotateLeft t) = inOrderTraversal t"
  by (cases t rule: rotateLeft.cases) simp_all

lemma inorder_rotateRight [simp]: "inOrderTraversal (rotateRight t) = inOrderTraversal t"
  by (cases t rule: rotateRight.cases) simp_all

lemma frame_update [simp]:
  "frame_left (f\<lparr>fr_color := c\<rparr>) = frame_left f" "frame_right (f\<lparr>fr_color := c\<rparr>) = frame_right f"
  "frame_left (f\<lparr>fr_color := c, fr_other := set_color c' (fr_other f)\<rparr>) = frame_left f"
  "frame_right (f\<lparr>fr_color := c, fr_other := set_color c' (fr_other f)\<rparr>) = frame_right f"
  by (simp_all add: frame_left_def frame_right_def split: side.splits)

lemma inorder_fixInsert:
  "inOrderTraversal (fixInsert t path) = before path @ inOrderTraversal t @ after path"
  by (induction t path rule: fixInsert.induct)
    (simp_all add: inorder_root_of Let_def split: side.split)

lemma descend_root:
  "descend key t path = (t', path') \<Longrightarrow> root_of t' path' = root_of t path"
  by (induction key t path rule: descend.induct) (auto simp: Let_def attach_def split: if_splits)

lemma descend_Node:
  "descend key t path = (RBNode c l k v r, path') \<Longrightarrow> k = key"
  by (induction key t path rule: descend.induct) (auto simp: Let_def split: if_splits)

text \<open>The position found divides the pairs into those before and those after the key.\<close>

lemma descend_order:
  assumes "descend key t path = (t', path')" "ordered_by fst (inOrderTraversal t)"
    and "\<forall>p\<in>set (before path). fst p < key" "\<forall>p\<in>set (after path). key < fst p"
  shows "(\<forall>p\<in>set (before path'). fst p < key) \<and> (\<forall>p\<in>set (after path'). key < fst p)"
  using assms
proof (induction key t path rule: descend.induct)
  case (2 key c l k v r path)
  have ord: "ordered_by fst (inOrderTraversal l)" "ordered_by fst (inOrderTraversal r)"
    "\<forall>p\<in>set (inOrderTraversal l). fst p < k" "\<forall>p\<in>set (inOrderTraversal r). k < fst p"
    using "2.prems"(2) by (auto simp: ordered_by_append)
  consider "key = k" | "key < k" | "k < key" by fastforce
  then show ?case
  proof cases
    case 1
    then show ?thesis using "2.prems" by simp
  next
    case 2
    let ?f = "\<lparr>fr_side = LeftSide, fr_color = c, fr_key = k, fr_value = v, fr_other = r\<rparr>"
    have "\<forall>p\<in>set (after (?f # path)). key < fst p" "\<forall>p\<in>set (before (?f # path)). fst p < key"
      using 2 ord(4) "2.prems"(3,4) by (auto simp: frame_left_def frame_right_def intro: less_trans)
    then show ?thesis
      using "2.IH"(1) [OF refl] "2.prems"(1) 2 less_imp_neq [OF 2] ord(1) by simp
  next
    case 3
    let ?f = "\<lparr>fr_side = RightSide, fr_color = c, fr_key = k, fr_value = v, fr_other = l\<rparr>"
    have "\<forall>p\<in>set (after (?f # path)). key < fst p" "\<forall>p\<in>set (before (?f # path)). fst p < key"
      using 3 ord(3) "2.prems"(3,4) by (auto simp: frame_left_def frame_right_def intro: less_trans)
    then show ?thesis
      using "2.IH"(2) [OF refl] "2.prems"(1) 3 less_imp_neq [OF 3] less_not_sym [OF 3] ord(2) by simp
  qed
qed simp

section \<open>The red-black invariants\<close>

text \<open>No red node has a red child; every way down passes the same number of black nodes.\<close>

fun black_height :: "'v rbnode \<Rightarrow> nat" where
  "black_height Null = 0"
| "black_height (RBNode c l k v r) = (if c = BLACK then 1 else 0) + black_height l"

fun rb_ok :: "'v rbnode \<Rightarrow> bool" where
  "rb_ok Null = True"
| "rb_ok (RBNode c l k v r) \<longleftrightarrow>
     rb_ok l \<and> rb_ok r \<and> black_height l = black_height r \<and>
     (c = RED \<longrightarrow> \<not> is_red l \<and> \<not> is_red r)"

text \<open>
  What the path must satisfy for a subtree of black height \<open>n\<close>: the other children are well
  formed and of the right height, and above a red frame there is a black one.
\<close>

fun path_ok :: "nat \<Rightarrow> 'v frame list \<Rightarrow> bool" where
  "path_ok n [] = True"
| "path_ok n (f # path) \<longleftrightarrow>
     rb_ok (fr_other f) \<and> black_height (fr_other f) = n \<and>
     (fr_color f = RED \<longrightarrow>
        \<not> is_red (fr_other f) \<and> path \<noteq> [] \<and> fr_color (hd path) = BLACK) \<and>
     path_ok (if fr_color f = BLACK then Suc n else n) path"

lemma color_cases: "c \<noteq> RED \<longleftrightarrow> c = BLACK" "c \<noteq> BLACK \<longleftrightarrow> c = RED"
  by (cases c; simp)+

lemma set_color_simps [simp]:
  "rb_ok t \<Longrightarrow> rb_ok (set_color BLACK t)" "\<not> is_red (set_color BLACK t)"
  "set_color c t = Null \<longleftrightarrow> t = Null"
  by (cases t; simp)+

lemma black_height_red: "is_red t \<Longrightarrow> black_height (set_color BLACK t) = Suc (black_height t)"
  by (cases t) auto

lemma attach_simps [simp]:
  "rb_ok (attach t f) \<longleftrightarrow> rb_ok t \<and> rb_ok (fr_other f) \<and> black_height t = black_height (fr_other f) \<and>
     (fr_color f = RED \<longrightarrow> \<not> is_red t \<and> \<not> is_red (fr_other f))"
  "is_red (attach t f) \<longleftrightarrow> fr_color f = RED"
  by (auto simp: attach_def split: side.splits)

lemma black_height_attach:
  "black_height t = black_height (fr_other f) \<Longrightarrow>
   black_height (attach t f) = (if fr_color f = BLACK then Suc (black_height t) else black_height t)"
  by (auto simp: attach_def split: side.splits)

lemma root_of_ok:
  assumes "rb_ok t" "path_ok (black_height t) path"
    and "path \<noteq> [] \<Longrightarrow> is_red t \<Longrightarrow> fr_color (hd path) = BLACK"
  shows "rb_ok (root_of t path)"
  using assms
proof (induction path arbitrary: t)
  case (Cons f path)
  have "rb_ok (root_of (attach t f) path)"
    using Cons.prems by (intro Cons.IH) (auto simp: black_height_attach color_cases)
  then show ?case by simp
qed simp

lemma root_of_black:
  assumes "path_ok n path" "path \<noteq> []"
  shows "\<not> is_red (root_of t path)"
  using assms
proof (induction path arbitrary: t n)
  case (Cons f path)
  show ?case
  proof (cases "path = []")
    case True
    then show ?thesis using Cons.prems by simp
  next
    case False
    then show ?thesis using Cons by fastforce
  qed
qed simp

text \<open>The uncle is black: one or two rotations make the subtree of the grandparent well formed.\<close>

lemma rotate_case_left:
  assumes "rb_ok t" "is_red t" "rb_ok (fr_other p)" "black_height (fr_other p) = black_height t"
    "\<not> is_red (fr_other p)" "fr_color p = RED"
    "rb_ok (fr_other g)" "black_height (fr_other g) = black_height t" "\<not> is_red (fr_other g)"
    "fr_side g = LeftSide"
  defines "s \<equiv> rotateRight (attach (set_color BLACK
      (if fr_side p = RightSide then rotateLeft (attach t p) else attach t p)) (g\<lparr>fr_color := RED\<rparr>))"
  shows "rb_ok s" "\<not> is_red s" "black_height s = Suc (black_height t)"
  using assms by (cases t; auto simp: s_def attach_def split: side.splits)+

lemma rotate_case_right:
  assumes "rb_ok t" "is_red t" "rb_ok (fr_other p)" "black_height (fr_other p) = black_height t"
    "\<not> is_red (fr_other p)" "fr_color p = RED"
    "rb_ok (fr_other g)" "black_height (fr_other g) = black_height t" "\<not> is_red (fr_other g)"
    "fr_side g = RightSide"
  defines "s \<equiv> rotateLeft (attach (set_color BLACK
      (if fr_side p = LeftSide then rotateRight (attach t p) else attach t p)) (g\<lparr>fr_color := RED\<rparr>))"
  shows "rb_ok s" "\<not> is_red s" "black_height s = Suc (black_height t)"
  using assms by (cases t; auto simp: s_def attach_def split: side.splits)+

lemma fixInsert_ok:
  assumes "rb_ok t" "is_red t" "path_ok (black_height t) path"
  shows "rb_ok (fixInsert t path)" "\<not> is_red (fixInsert t path)"
proof -
  have "rb_ok (fixInsert t path) \<and> \<not> is_red (fixInsert t path)"
    using assms
  proof (induction t path rule: fixInsert.induct)
    case (2 t p)
    then have "rb_ok (root_of t [p])" by (intro root_of_ok) (auto simp: color_cases)
    then show ?case by simp
  next
    case (3 t p g path)
    show ?case
    proof (cases "fr_color p = RED")
      case False
      then have "rb_ok (root_of t (p # g # path))"
        using "3.prems" by (intro root_of_ok) (auto simp: color_cases)
      then show ?thesis using False by simp
    next
      case red: True
      then have g: "fr_color g = BLACK" using "3.prems"(3) by auto
      show ?thesis
      proof (cases "is_red (fr_other g)")
        case True
        let ?t = "attach (attach t (p\<lparr>fr_color := BLACK\<rparr>))
            (g\<lparr>fr_color := RED, fr_other := set_color BLACK (fr_other g)\<rparr>)"
        have "black_height (attach t (p\<lparr>fr_color := BLACK\<rparr>)) = Suc (black_height t)"
          using "3.prems" by (subst black_height_attach) auto
        moreover have "black_height (set_color BLACK (fr_other g)) = Suc (black_height t)"
          using "3.prems"(3) True red by (subst black_height_red) auto
        ultimately have "rb_ok ?t" "black_height ?t = Suc (black_height t)"
          using "3.prems" red by (auto simp: black_height_attach)
        then have "rb_ok (fixInsert ?t path) \<and> \<not> is_red (fixInsert ?t path)"
          using "3.prems"(3) red g True by (intro "3.IH") auto
        then show ?thesis using red True by simp
      next
        case False
        have facts: "rb_ok (fr_other p)" "black_height (fr_other p) = black_height t"
          "\<not> is_red (fr_other p)" "rb_ok (fr_other g)" "black_height (fr_other g) = black_height t"
          "path_ok (Suc (black_height t)) path"
          using "3.prems"(3) red g by auto
        show ?thesis
        proof (cases "fr_side g")
          case LeftSide
          note r = rotate_case_left [OF "3.prems"(1,2) facts(1-3) red facts(4,5) False LeftSide]
          have "rb_ok (root_of (rotateRight (attach (set_color BLACK
              (if fr_side p = RightSide then rotateLeft (attach t p) else attach t p))
              (g\<lparr>fr_color := RED\<rparr>))) path)"
            using r facts(6) by (intro root_of_ok) auto
          then show ?thesis using red False LeftSide by (simp add: Let_def)
        next
          case RightSide
          note r = rotate_case_right [OF "3.prems"(1,2) facts(1-3) red facts(4,5) False RightSide]
          have "rb_ok (root_of (rotateLeft (attach (set_color BLACK
              (if fr_side p = LeftSide then rotateRight (attach t p) else attach t p))
              (g\<lparr>fr_color := RED\<rparr>))) path)"
            using r facts(6) by (intro root_of_ok) auto
          then show ?thesis using red False RightSide by (simp add: Let_def)
        qed
      qed
    qed
  qed simp
  then show "rb_ok (fixInsert t path)" "\<not> is_red (fixInsert t path)" by auto
qed

text \<open>A position of a well-formed tree with a black root.\<close>

definition pos_ok :: "'v rbnode \<Rightarrow> 'v frame list \<Rightarrow> bool" where
  "pos_ok t path \<longleftrightarrow> rb_ok t \<and> path_ok (black_height t) path \<and>
     (is_red t \<longrightarrow> path \<noteq> [] \<and> fr_color (hd path) = BLACK)"

lemma pos_ok_child:
  assumes "pos_ok (RBNode c l k v r) path"
  shows "pos_ok l (\<lparr>fr_side = LeftSide, fr_color = c, fr_key = k, fr_value = v, fr_other = r\<rparr> # path)"
    and "pos_ok r (\<lparr>fr_side = RightSide, fr_color = c, fr_key = k, fr_value = v, fr_other = l\<rparr> # path)"
  using assms by (cases c; auto simp: pos_ok_def)+

lemma descend_ok:
  "descend key t path = (t', path') \<Longrightarrow> pos_ok t path \<Longrightarrow> pos_ok t' path'"
proof (induction key t path rule: descend.induct)
  case (2 key c l k v r path)
  consider "key = k" | "key < k" "key \<noteq> k" | "\<not> key < k" "key \<noteq> k" by fastforce
  then show ?case
  proof cases
    case 2
    then show ?thesis using "2.IH"(1) [OF refl] "2.prems"(1) pos_ok_child(1) [OF "2.prems"(2)] by auto
  next
    case 3
    then show ?thesis using "2.IH"(2) [OF refl] "2.prems"(1) pos_ok_child(2) [OF "2.prems"(2)] by auto
  qed (use "2.prems" in auto)
qed simp

section \<open>The map operations\<close>

definition sm_invar :: "'v sorted_map \<Rightarrow> bool" where
  "sm_invar m \<longleftrightarrow> ordered_by fst (sm_entries m) \<and> rb_ok (sm_root m) \<and> \<not> is_red (sm_root m) \<and>
     sm_count m = length (sm_entries m)"

lemma new_map_simps [simp]: "sm_entries new_map = []" "sm_invar new_map"
  by (simp_all add: new_map_def sm_entries_def sm_invar_def)

lemma sm_clear_simps [simp]: "sm_clear m = new_map"
  by (cases m) (simp add: sm_clear_def new_map_def)

lemma findNode_map_of:
  "ordered_by fst (inOrderTraversal t) \<Longrightarrow>
   (case findNode key t of Null \<Rightarrow> None | RBNode c l k v r \<Rightarrow> Some v) =
   map_of (inOrderTraversal t) key"
proof (induction key t rule: findNode.induct)
  case (2 key c l k v r)
  have ord: "ordered_by fst (inOrderTraversal l)" "ordered_by fst (inOrderTraversal r)"
    "\<forall>p\<in>set (inOrderTraversal l). fst p < k" "\<forall>p\<in>set (inOrderTraversal r). k < fst p"
    using "2.prems" by (auto simp: ordered_by_append)
  consider "key = k" | "key < k" "key \<noteq> k" | "k < key" "\<not> key < k" "key \<noteq> k" by fastforce
  then show ?case
  proof cases
    case 1
    then have "map_of (inOrderTraversal l) key = None"
      using ord(3) by (auto simp: map_of_eq_None_iff)
    then show ?thesis using 1 by (simp add: map_add_def)
  next
    case 2
    then have "map_of (inOrderTraversal r) key = None"
      using ord(4) by (auto simp: map_of_eq_None_iff)
    then show ?thesis using 2 "2.IH"(1) [OF refl] ord(1) by (simp add: map_add_def split: option.splits)
  next
    case 3
    then have "map_of (inOrderTraversal l) key = None"
      using ord(3) by (auto simp: map_of_eq_None_iff)
    then show ?thesis
      using 3 "2.IH"(2) [OF refl] ord(2) by (simp add: map_add_def split: option.splits)
  qed
qed simp

lemma sm_get_map_of: "sm_invar m \<Longrightarrow> sm_get m key = map_of (sm_entries m) key"
  using findNode_map_of [of "sm_root m" key] by (simp add: sm_get_def sm_entries_def sm_invar_def)

lemma sm_has_get: "sm_has m key \<longleftrightarrow> sm_get m key \<noteq> None"
  by (simp add: sm_has_def sm_get_def split: rbnode.splits)

lemma rangeTraversal_filter:
  "ordered_by fst (inOrderTraversal t) \<Longrightarrow>
   rangeTraversal t a b = filter (\<lambda>p. a \<le> fst p \<and> fst p \<le> b) (inOrderTraversal t)"
proof (induction t a b rule: rangeTraversal.induct)
  case (2 c l k v r a b)
  have ord: "ordered_by fst (inOrderTraversal l)" "ordered_by fst (inOrderTraversal r)"
    "\<forall>p\<in>set (inOrderTraversal l). fst p < k" "\<forall>p\<in>set (inOrderTraversal r). k < fst p"
    using "2.prems" by (auto simp: ordered_by_append)
  have "filter (\<lambda>p. a \<le> fst p \<and> fst p \<le> b) (inOrderTraversal l) = []" if "\<not> a < k"
    using that ord(3) by (auto simp: filter_empty_conv)
  moreover have "filter (\<lambda>p. a \<le> fst p \<and> fst p \<le> b) (inOrderTraversal r) = []" if "\<not> k < b"
    using that ord(4) by (auto simp: filter_empty_conv)
  ultimately show ?case
    using "2.IH" ord(1,2) by (auto simp: Let_def)
qed simp

text \<open>\<open>set\<close> replaces the pair with the key, or inserts one at its place.\<close>

lemma sm_set_entries:
  assumes "sm_invar m"
  obtains xs ys where "sm_entries (sm_set m key v) = xs @ (key, v) # ys"
    "\<forall>p\<in>set xs. fst p < key" "\<forall>p\<in>set ys. key < fst p"
    "sm_entries m = xs @ ys \<and> sm_count (sm_set m key v) = sm_count m + 1 \<or>
     (\<exists>w. sm_entries m = xs @ (key, w) # ys \<and> sm_count (sm_set m key v) = sm_count m)"
proof (cases "sm_root m = Null")
  case True
  then show ?thesis using that [of "[]" "[]"] by (simp add: sm_set_def sm_entries_def)
next
  case False
  obtain t path where d: "descend key (sm_root m) [] = (t, path)" by fastforce
  have root: "root_of t path = sm_root m"
    using descend_root [OF d] by simp
  have ord: "ordered_by fst (inOrderTraversal (sm_root m))"
    using assms by (simp add: sm_invar_def sm_entries_def)
  have sides: "\<forall>p\<in>set (before path). fst p < key" "\<forall>p\<in>set (after path). key < fst p"
    using descend_order [OF d ord] by auto
  have old: "sm_entries m = before path @ inOrderTraversal t @ after path"
    unfolding sm_entries_def root [symmetric] by (simp add: inorder_root_of)
  show ?thesis
  proof (cases t)
    case Null
    then show ?thesis
      using that [of "before path" "after path"] d False sides old
      by (simp add: sm_set_def sm_entries_def inorder_fixInsert)
  next
    case (RBNode c l k w r)
    then have "k = key" using descend_Node [of key "sm_root m" "[]" c l k w r path] d by simp
    moreover have "ordered_by fst (inOrderTraversal t)"
      using ord unfolding root [symmetric] by (simp add: inorder_root_of ordered_by_append)
    ultimately have "\<forall>p\<in>set (inOrderTraversal l). fst p < key" "\<forall>p\<in>set (inOrderTraversal r). key < fst p"
      using RBNode by (auto simp: ordered_by_append)
    then show ?thesis
      using that [of "before path @ inOrderTraversal l" "inOrderTraversal r @ after path"]
        d False RBNode \<open>k = key\<close> sides old
      by (auto simp: sm_set_def sm_entries_def inorder_root_of)
  qed
qed

lemma sm_set_lookup:
  assumes "sm_invar m"
  shows "map_of (sm_entries (sm_set m key v)) = (map_of (sm_entries m))(key \<mapsto> v)"
proof -
  obtain xs ys where xy: "sm_entries (sm_set m key v) = xs @ (key, v) # ys"
    "\<forall>p\<in>set xs. fst p < key" "\<forall>p\<in>set ys. key < fst p"
    "sm_entries m = xs @ ys \<or> (\<exists>w. sm_entries m = xs @ (key, w) # ys)"
    using sm_set_entries [OF assms, of key v] by metis
  have "map_of xs key = None"
    using xy(2) by (auto simp: map_of_eq_None_iff)
  then have "map_of xs k = None" if "k = key" for k using that by simp
  then show ?thesis
    using xy(1,4) by (auto simp: map_add_def fun_eq_iff split: option.splits)
qed

lemma rb_ok_set:
  assumes "rb_ok (sm_root m)" "\<not> is_red (sm_root m)"
  shows "rb_ok (sm_root (sm_set m key v))" "\<not> is_red (sm_root (sm_set m key v))"
proof -
  obtain t path where d: "descend key (sm_root m) [] = (t, path)" by fastforce
  have pos: "pos_ok t path"
    using descend_ok [OF d] assms by (simp add: pos_ok_def)
  have "rb_ok (sm_root (sm_set m key v)) \<and> \<not> is_red (sm_root (sm_set m key v))"
  proof (cases t)
    case Null
    then show ?thesis
      using pos d fixInsert_ok [of "RBNode RED Null key v Null" path]
      by (simp add: sm_set_def pos_ok_def)
  next
    case (RBNode c l k w r)
    let ?t = "RBNode c l k v r"
    have "pos_ok ?t path" using pos RBNode by (cases c) (auto simp: pos_ok_def)
    then have "rb_ok ?t" "path_ok (black_height ?t) path"
      "is_red ?t \<Longrightarrow> path \<noteq> [] \<and> fr_color (hd path) = BLACK"
      unfolding pos_ok_def by blast+
    then have "rb_ok (root_of ?t path)" "\<not> is_red (root_of ?t path)"
      using root_of_ok [of ?t path] root_of_black [of "black_height ?t" path ?t]
      by (cases "path = []"; force)+
    then show ?thesis using d RBNode by (simp add: sm_set_def)
  qed
  then show "rb_ok (sm_root (sm_set m key v))" "\<not> is_red (sm_root (sm_set m key v))" by auto
qed

lemma sm_set_invar:
  assumes "sm_invar m"
  shows "sm_invar (sm_set m key v)"
proof -
  obtain xs ys where xy: "sm_entries (sm_set m key v) = xs @ (key, v) # ys"
    "\<forall>p\<in>set xs. fst p < key" "\<forall>p\<in>set ys. key < fst p"
    "sm_entries m = xs @ ys \<and> sm_count (sm_set m key v) = sm_count m + 1 \<or>
     (\<exists>w. sm_entries m = xs @ (key, w) # ys \<and> sm_count (sm_set m key v) = sm_count m)"
    by (rule sm_set_entries [OF assms])
  have "ordered_by fst (sm_entries (sm_set m key v))"
    using assms xy by (auto simp: sm_invar_def ordered_by_append intro: less_trans)
  moreover have "sm_count (sm_set m key v) = length (sm_entries (sm_set m key v))"
    using assms xy(1,4) by (auto simp: sm_invar_def)
  ultimately show ?thesis
    using rb_ok_set [of m key v] assms by (simp add: sm_invar_def)
qed

text \<open>The height is logarithmic: the longest way down is at most twice the shortest.\<close>

fun rb_height :: "'v rbnode \<Rightarrow> nat" where
  "rb_height Null = 0"
| "rb_height (RBNode c l k v r) = Suc (max (rb_height l) (rb_height r))"

lemma rb_height_black: "rb_ok t \<Longrightarrow> rb_height t \<le> 2 * black_height t + (if is_red t then 1 else 0)"
  by (induction t) (auto simp: color_cases split: if_splits)

lemma black_height_size: "rb_ok t \<Longrightarrow> 2 ^ black_height t \<le> length (inOrderTraversal t) + 1"
proof (induction t)
  case (RBNode c l k v r)
  then have "2 ^ black_height l \<le> length (inOrderTraversal l) + 1"
    "2 ^ black_height l \<le> length (inOrderTraversal r) + 1" by auto
  then show ?case by simp
qed simp

lemma sm_height:
  assumes "sm_invar m"
  shows "2 ^ (rb_height (sm_root m) div 2) \<le> sm_count m + 1"
proof -
  have "rb_height (sm_root m) div 2 \<le> black_height (sm_root m)"
    using rb_height_black [of "sm_root m"] assms by (auto simp: sm_invar_def)
  then have "(2::nat) ^ (rb_height (sm_root m) div 2) \<le> 2 ^ black_height (sm_root m)"
    by (rule power_increasing) simp
  also have "\<dots> \<le> length (sm_entries m) + 1"
    using black_height_size assms by (auto simp: sm_invar_def sm_entries_def)
  finally show ?thesis using assms by (simp add: sm_invar_def)
qed

text \<open>Any sequence of insertions into the empty map.\<close>

lemma sm_sets_invar: "sm_invar (fold (\<lambda>(k, v) m. sm_set m k v) kvs new_map)"
  by (induction kvs rule: rev_induct) (auto simp: sm_set_invar)

lemma sm_sets_map:
  "map_of (sm_entries (fold (\<lambda>(k, v) m. sm_set m k v) kvs new_map)) = map_of (rev kvs)"
  by (induction kvs rule: rev_induct) (auto simp: sm_set_lookup sm_sets_invar)

lemma sm_sets:
  fixes kvs
  defines "m \<equiv> fold (\<lambda>(k, v) m. sm_set m k v) kvs new_map"
  shows "sm_get m key = map_of (rev kvs) key" "sm_has m key = (key \<in> fst ` set kvs)"
    "map_of (sm_entries m) = map_of (rev kvs)" "ordered_by fst (sm_entries m)"
    "sm_range m a b = filter (\<lambda>p. a \<le> fst p \<and> fst p \<le> b) (sm_entries m)"
    "sm_count m = card (fst ` set kvs)"
proof -
  have inv: "sm_invar m" unfolding m_def by (rule sm_sets_invar)
  show map: "map_of (sm_entries m) = map_of (rev kvs)" unfolding m_def by (rule sm_sets_map)
  show get: "sm_get m key = map_of (rev kvs) key" by (simp add: sm_get_map_of inv map)
  show "sm_has m key = (key \<in> fst ` set kvs)"
    by (simp add: sm_has_get get map_of_eq_None_iff)
  show ord: "ordered_by fst (sm_entries m)" using inv by (simp add: sm_invar_def sm_entries_def)
  show "sm_range m a b = filter (\<lambda>p. a \<le> fst p \<and> fst p \<le> b) (sm_entries m)"
    using ord by (simp add: sm_range_def sm_entries_def rangeTraversal_filter)
  have "fst ` set (sm_entries m) = fst ` set kvs"
    using arg_cong [OF map, of dom] by (simp add: dom_map_of_conv_image_fst)
  moreover have "card (fst ` set (sm_entries m)) = length (sm_entries m)"
    using distinct_card [OF ordered_by_distinct [OF ord]] by simp
  ultimately show "sm_count m = card (fst ` set kvs)" using inv by (simp add: sm_invar_def)
qed

section \<open>The contract of an ordered map\<close>

locale ordered_map =
  fixes empty_map :: "'m"
    and set_key :: "'m \<Rightarrow> 'k::linorder \<Rightarrow> 'v \<Rightarrow> 'm"
    and get_key :: "'m \<Rightarrow> 'k \<Rightarrow> 'v option"
    and pairs :: "'m \<Rightarrow> ('k \<times> 'v) list"
    and pairs_in :: "'m \<Rightarrow> 'k \<Rightarrow> 'k \<Rightarrow> ('k \<times> 'v) list"
    and count :: "'m \<Rightarrow> nat"
    and invar :: "'m \<Rightarrow> bool"
  assumes invar_empty: "invar empty_map"
    and pairs_empty: "pairs empty_map = []"
    and invar_set: "invar m \<Longrightarrow> invar (set_key m k v)"
    and pairs_ordered: "invar m \<Longrightarrow> ordered_by fst (pairs m)"
    and pairs_set: "invar m \<Longrightarrow> map_of (pairs (set_key m k v)) = (map_of (pairs m))(k \<mapsto> v)"
    and get_pairs: "invar m \<Longrightarrow> get_key m k = map_of (pairs m) k"
    and range_pairs: "invar m \<Longrightarrow> pairs_in m a b = filter (\<lambda>p. a \<le> fst p \<and> fst p \<le> b) (pairs m)"
    and count_pairs: "invar m \<Longrightarrow> count m = length (pairs m)"
begin

lemma get_empty: "get_key empty_map k = None"
  by (simp add: get_pairs invar_empty pairs_empty)

lemma get_set: "invar m \<Longrightarrow> get_key (set_key m k v) k' = (if k' = k then Some v else get_key m k')"
  by (simp add: get_pairs invar_set pairs_set)

lemma get_iff_pairs: "invar m \<Longrightarrow> get_key m k = Some v \<longleftrightarrow> (k, v) \<in> set (pairs m)"
  by (simp add: get_pairs map_of_ordered pairs_ordered)

lemma keys_set: "invar m \<Longrightarrow> fst ` set (pairs (set_key m k v)) = insert k (fst ` set (pairs m))"
  using arg_cong [OF pairs_set, of m dom k v] by (simp add: dom_map_of_conv_image_fst)

text \<open>The pairs of a map are determined by its lookups.\<close>

lemma pairs_unique:
  assumes "invar m" "ordered_by fst xs" "\<And>k. get_key m k = map_of xs k"
  shows "pairs m = xs"
  using assms by (intro ordered_map_of_eq) (auto simp: pairs_ordered get_pairs)

lemma range_lookup:
  assumes "invar m"
  shows "map_of (pairs_in m a b) k = (if a \<le> k \<and> k \<le> b then get_key m k else None)"
proof -
  have ord: "ordered_by fst (pairs_in m a b)"
    by (simp add: range_pairs assms ordered_by_filter pairs_ordered)
  have "map_of (pairs_in m a b) k = Some v \<longleftrightarrow> a \<le> k \<and> k \<le> b \<and> get_key m k = Some v" for v
    by (simp only: map_of_ordered [OF ord] get_iff_pairs [OF assms])
      (auto simp: range_pairs assms)
  then show ?thesis
    by (metis option.exhaust)
qed

end

interpretation sorted_map: ordered_map new_map sm_set sm_get sm_entries sm_range sm_count sm_invar
proof
  fix m :: "'v sorted_map" and k v a b
  assume m: "sm_invar m"
  show "sm_invar (sm_set m k v)" "map_of (sm_entries (sm_set m k v)) = (map_of (sm_entries m))(k \<mapsto> v)"
    "sm_get m k = map_of (sm_entries m) k"
    by (rule sm_set_invar [OF m] sm_set_lookup [OF m] sm_get_map_of [OF m])+
  show "sm_range m a b = filter (\<lambda>p. a \<le> fst p \<and> fst p \<le> b) (sm_entries m)"
    using rangeTraversal_filter [of "sm_root m" a b] m
    by (simp add: sm_invar_def sm_range_def sm_entries_def)
  show "ordered_by fst (sm_entries m)" "sm_count m = length (sm_entries m)"
    using m by (simp_all add: sm_invar_def)
qed simp_all

end
