(* ===== verification/Sorted_Map_Delete.thy ===== *)
theory Sorted_Map_Delete
  imports Sorted_Map
begin

text \<open>
  Deletion in the red-black tree of src/src/storage/memtable/SortedMap.ts: a node with two
  children is replaced by the minimum of its right subtree; when a black node disappears,
  \<open>fixDelete\<close> moves up from its place until the black heights agree again.
\<close>

section \<open>Operations\<close>

text \<open>
  A red sibling: it becomes black, the parent red, and a rotation lifts the sibling above the
  parent. The position keeps its place below the parent, with a new sibling and a longer path.
\<close>

definition red_sibling :: "'v frame \<Rightarrow> 'v frame list \<Rightarrow> 'v frame \<times> 'v frame list" where
  "red_sibling f path =
     (case fr_other f of
        Null \<Rightarrow> (f, path)
      | RBNode sc sl sk sv sr \<Rightarrow>
          if sc = RED then
            (case fr_side f of
               LeftSide \<Rightarrow>
                 (f\<lparr>fr_color := RED, fr_other := sl\<rparr>,
                  \<lparr>fr_side = LeftSide, fr_color = BLACK, fr_key = sk, fr_value = sv, fr_other = sr\<rparr> # path)
             | RightSide \<Rightarrow>
                 (f\<lparr>fr_color := RED, fr_other := sr\<rparr>,
                  \<lparr>fr_side = RightSide, fr_color = BLACK, fr_key = sk, fr_value = sv, fr_other = sl\<rparr> # path))
          else (f, path))"

lemma red_sibling_cases:
  assumes "red_sibling f path = (f', path')"
  obtains "f' = f" "path' = path" "\<not> is_red (fr_other f)"
    | g where "fr_color f' = RED" "path' = g # path" "is_red (fr_other f)" "fr_color g = BLACK"
  using assms
  by (cases "fr_other f"; cases "fr_side f") (auto simp: red_sibling_def color_cases split: if_splits)

fun black_left :: "'v rbnode \<Rightarrow> 'v rbnode" where
  "black_left Null = Null"
| "black_left (RBNode c l k v r) = RBNode c (set_color BLACK l) k v r"

fun black_right :: "'v rbnode \<Rightarrow> 'v rbnode" where
  "black_right Null = Null"
| "black_right (RBNode c l k v r) = RBNode c l k v (set_color BLACK r)"

text \<open>The sibling has a red child: one or two rotations around the parent end the loop.\<close>

definition last_rotation :: "'v rbnode \<Rightarrow> 'v frame \<Rightarrow> 'v rbnode" where
  "last_rotation t f =
     (case fr_side f of
        LeftSide \<Rightarrow>
          let sibling = fr_other f;
              sibling = (if \<not> is_red (node_right sibling)
                then rotateRight (set_color RED (black_left sibling)) else sibling);
              sibling = black_right (set_color (fr_color f) sibling)
          in rotateLeft (attach t (f\<lparr>fr_color := BLACK, fr_other := sibling\<rparr>))
      | RightSide \<Rightarrow>
          let sibling = fr_other f;
              sibling = (if \<not> is_red (node_left sibling)
                then rotateLeft (set_color RED (black_right sibling)) else sibling);
              sibling = black_left (set_color (fr_color f) sibling)
          in rotateRight (attach t (f\<lparr>fr_color := BLACK, fr_other := sibling\<rparr>)))"

text \<open>
  The loop of \<open>fixDelete\<close>; \<open>t\<close> is the node (\<open>Null\<close> if it is null) at the end of the path.
  At the end of the loop the node is coloured black, which is the root after the rotations.
\<close>

function fixDelete :: "'v rbnode \<Rightarrow> 'v frame list \<Rightarrow> 'v rbnode" where
  "fixDelete t [] = set_color BLACK t"
| "fixDelete t (f # path) =
     (if is_red t then root_of (set_color BLACK t) (f # path)
      else
        let (f, path) = red_sibling f path in
        case fr_other f of
          Null \<Rightarrow> root_of (set_color BLACK t) (f # path)
        | RBNode sc sl sk sv sr \<Rightarrow>
            if \<not> is_red sl \<and> \<not> is_red sr
            then fixDelete (attach t (f\<lparr>fr_other := set_color RED (fr_other f)\<rparr>)) path
            else set_color BLACK (root_of (last_rotation t f) path))"
  by pat_completeness auto

termination
proof (relation "measure (\<lambda>(t, path). if is_red t then 0 else Suc (length path))", goal_cases)
  case (2 t f path p f' path' sc sl sk sv sr)
  then have "red_sibling f path = (f', path')" by simp
  then show ?case
    using 2(1) by (cases rule: red_sibling_cases) auto
qed simp

declare fixDelete.simps [simp del]

text \<open>The node with the least key of a subtree, with the path that leads to it.\<close>

fun minimum :: "'v rbnode \<Rightarrow> 'v frame list \<Rightarrow> 'v rbnode \<times> 'v frame list" where
  "minimum Null path = (Null, path)"
| "minimum (RBNode c l k v r) path =
     (if l = Null then (RBNode c l k v r, path)
      else minimum l (\<lparr>fr_side = LeftSide, fr_color = c, fr_key = k, fr_value = v, fr_other = r\<rparr> # path))"

text \<open>\<open>transplant\<close> puts a subtree in the place of a node: the path stays and the subtree changes.\<close>

definition after_transplant :: "color \<Rightarrow> 'v rbnode \<Rightarrow> 'v frame list \<Rightarrow> 'v rbnode" where
  "after_transplant originalColor fixupNode path =
     (if originalColor = BLACK then fixDelete fixupNode path else root_of fixupNode path)"

definition deleteNode :: "color \<Rightarrow> 'v rbnode \<Rightarrow> 'v rbnode \<Rightarrow> 'v frame list \<Rightarrow> 'v rbnode" where
  "deleteNode c l r path =
     (if l = Null then after_transplant c r path
      else if r = Null then after_transplant c l path
      else
        (case minimum r [] of
           (RBNode sc sl sk sv sr, inner) \<Rightarrow>
             after_transplant sc sr
               (inner @ \<lparr>fr_side = RightSide, fr_color = c, fr_key = sk, fr_value = sv, fr_other = l\<rparr> # path)
         | (Null, inner) \<Rightarrow> Null))"

definition sm_delete :: "'v sorted_map \<Rightarrow> jstring \<Rightarrow> 'v sorted_map \<times> bool" where
  "sm_delete m key =
     (case descend key (sm_root m) [] of
        (Null, path) \<Rightarrow> (m, False)
      | (RBNode c l k v r, path) \<Rightarrow>
          (\<lparr>sm_root = deleteNode c l r path, sm_count = sm_count m - 1\<rparr>, True))"

lemma findNode_descend: "fst (descend key t path) = findNode key t"
  by (induction key t path rule: descend.induct) (auto simp: Let_def)

text \<open>The step for a red sibling is the rotation of the code.\<close>

lemma red_sibling_rotation:
  assumes "fr_other f = RBNode RED sl sk sv sr"
  shows "fr_side f = LeftSide \<Longrightarrow> root_of t (fst (red_sibling f path) # snd (red_sibling f path)) =
      root_of (rotateLeft (attach t (f\<lparr>fr_color := RED, fr_other := set_color BLACK (fr_other f)\<rparr>))) path"
    and "fr_side f = RightSide \<Longrightarrow> root_of t (fst (red_sibling f path) # snd (red_sibling f path)) =
      root_of (rotateRight (attach t (f\<lparr>fr_color := RED, fr_other := set_color BLACK (fr_other f)\<rparr>))) path"
  using assms by (simp_all add: red_sibling_def attach_def)

section \<open>Order\<close>

lemma inorder_black [simp]:
  "inOrderTraversal (black_left t) = inOrderTraversal t" "inOrderTraversal (black_right t) = inOrderTraversal t"
  by (cases t; simp)+

lemma frame_other_update:
  "frame_left (f\<lparr>fr_color := c, fr_other := t\<rparr>) = frame_left (f\<lparr>fr_other := t\<rparr>)"
  "frame_right (f\<lparr>fr_color := c, fr_other := t\<rparr>) = frame_right (f\<lparr>fr_other := t\<rparr>)"
  by (simp_all add: frame_left_def frame_right_def split: side.split)

lemma frame_same_order:
  assumes "inOrderTraversal t = inOrderTraversal (fr_other f)"
  shows "frame_left (f\<lparr>fr_other := t\<rparr>) = frame_left f" "frame_right (f\<lparr>fr_other := t\<rparr>) = frame_right f"
  using assms by (simp_all add: frame_left_def frame_right_def split: side.split)

lemma inorder_last_rotation:
  "inOrderTraversal (last_rotation t f) = frame_left f @ inOrderTraversal t @ frame_right f"
proof -
  have 1: "inOrderTraversal (black_right (set_color c (if b then rotateRight (set_color RED (black_left s)) else s))) =
      inOrderTraversal s"
    and 2: "inOrderTraversal (black_left (set_color c (if b then rotateLeft (set_color RED (black_right s)) else s))) =
      inOrderTraversal s" for b c and s :: "'a rbnode" by simp_all
  show ?thesis
    by (simp add: last_rotation_def Let_def frame_other_update frame_same_order [OF 1] frame_same_order [OF 2]
        split: side.split del: if_split)
qed

lemma red_sibling_order:
  assumes "red_sibling f path = (f', path')"
  shows "before (f' # path') = before (f # path)" "after (f' # path') = after (f # path)"
  using assms
  by (cases "fr_other f"; cases "fr_side f";
      auto simp: red_sibling_def frame_left_def frame_right_def split: if_splits)+

lemma inorder_fixDelete:
  "inOrderTraversal (fixDelete t path) = before path @ inOrderTraversal t @ after path"
proof (induction t path rule: fixDelete.induct)
  case (1 t)
  show ?case by (simp add: fixDelete.simps)
next
  case (2 t f path)
  obtain f' path' where rs: "red_sibling f path = (f', path')" by fastforce
  note ord = red_sibling_order [OF rs]
  show ?case
  proof (cases "is_red t \<or> fr_other f' = Null")
    case True
    have "inOrderTraversal (root_of (set_color BLACK t) (f' # path')) = before (f # path) @ inOrderTraversal t @ after (f # path)"
      unfolding inorder_root_of ord by simp
    moreover have "inOrderTraversal (root_of (set_color BLACK t) (f # path)) = before (f # path) @ inOrderTraversal t @ after (f # path)"
      unfolding inorder_root_of by simp
    ultimately show ?thesis
      using True rs by (auto simp: fixDelete.simps(2) simp del: foldl_Cons before_simps after_simps)
  next
    case False
    then obtain sc sl sk sv sr where s: "fr_other f' = RBNode sc sl sk sv sr" by (cases "fr_other f'") auto
    show ?thesis
    proof (cases "\<not> is_red sl \<and> \<not> is_red sr")
      case True
      then have step: "fixDelete t (f # path) =
          fixDelete (attach t (f'\<lparr>fr_other := set_color RED (fr_other f')\<rparr>)) path'"
        using False rs s by (simp add: fixDelete.simps(2))
      have "inOrderTraversal (fixDelete t (f # path)) =
          before path' @ inOrderTraversal (attach t (f'\<lparr>fr_other := set_color RED (fr_other f')\<rparr>)) @ after path'"
        unfolding step using "2.IH" [OF _ rs [symmetric] refl s] False True by simp
      also have "\<dots> = before (f' # path') @ inOrderTraversal t @ after (f' # path')"
        using frame_same_order [of "set_color RED (fr_other f')" f'] by simp
      finally show ?thesis by (simp only: ord)
    next
      case rot: False
      then have step: "fixDelete t (f # path) = set_color BLACK (root_of (last_rotation t f') path')"
        using False rs s by (auto simp: fixDelete.simps(2))
      have "inOrderTraversal (fixDelete t (f # path)) = before (f' # path') @ inOrderTraversal t @ after (f' # path')"
        unfolding step by (simp add: inorder_root_of inorder_last_rotation)
      then show ?thesis by (simp only: ord)
    qed
  qed
qed

lemma inorder_after_transplant:
  "inOrderTraversal (after_transplant c t path) = before path @ inOrderTraversal t @ after path"
  by (simp add: after_transplant_def inorder_fixDelete inorder_root_of)

lemma minimum_order:
  assumes "minimum t path = (s, path')" "t \<noteq> Null"
  obtains sc sk sv sr where "s = RBNode sc Null sk sv sr" "before path' = before path"
    "(sk, sv) # inOrderTraversal sr @ after path' = inOrderTraversal t @ after path"
proof -
  have "\<exists>sc sk sv sr. s = RBNode sc Null sk sv sr \<and> before path' = before path \<and>
      (sk, sv) # inOrderTraversal sr @ after path' = inOrderTraversal t @ after path"
    using assms
  proof (induction t path rule: minimum.induct)
    case (2 c l k v r path)
    then show ?case by (cases "l = Null") (auto simp: frame_left_def frame_right_def)
  qed simp
  then show thesis using that by blast
qed

lemma inorder_deleteNode:
  "inOrderTraversal (deleteNode c l r path) = before path @ inOrderTraversal l @ inOrderTraversal r @ after path"
proof (cases "l = Null \<or> r = Null")
  case True
  then show ?thesis by (auto simp: deleteNode_def inorder_after_transplant)
next
  case False
  obtain s inner where m: "minimum r [] = (s, inner)" by fastforce
  obtain sc sk sv sr where s: "s = RBNode sc Null sk sv sr" "before inner = before []"
    "(sk, sv) # inOrderTraversal sr @ after inner = inOrderTraversal r @ after []"
    using minimum_order [OF m] False by blast
  have cat: "before (xs @ ys) = before ys @ before xs" "after (xs @ ys) = after xs @ after ys"
    for xs ys :: "'a frame list" by (induction xs) auto
  show ?thesis
    using False m s by (simp add: deleteNode_def inorder_after_transplant cat frame_left_def frame_right_def)
qed

text \<open>\<open>delete\<close> removes the pair with the key and keeps the rest.\<close>

lemma sm_delete_entries:
  assumes "sm_invar m"
  shows "sm_entries (fst (sm_delete m key)) = filter (\<lambda>p. fst p \<noteq> key) (sm_entries m)"
    and "snd (sm_delete m key) = sm_has m key"
    and "sm_count (fst (sm_delete m key)) = length (sm_entries (fst (sm_delete m key)))"
proof -
  obtain t path where d: "descend key (sm_root m) [] = (t, path)" by fastforce
  have found: "sm_has m key \<longleftrightarrow> t \<noteq> Null"
    using findNode_descend [of key "sm_root m" "[]"] d by (simp add: sm_has_def)
  have root: "root_of t path = sm_root m" using descend_root [OF d] by simp
  have ord: "ordered_by fst (inOrderTraversal (sm_root m))" and count: "sm_count m = length (sm_entries m)"
    using assms by (simp_all add: sm_invar_def sm_entries_def)
  have sides: "\<forall>p\<in>set (before path). fst p < key" "\<forall>p\<in>set (after path). key < fst p"
    using descend_order [OF d ord] by auto
  have old: "sm_entries m = before path @ inOrderTraversal t @ after path"
    unfolding sm_entries_def root [symmetric] by (simp add: inorder_root_of)
  have keep: "filter (\<lambda>p. fst p \<noteq> key) (before path) = before path" "filter (\<lambda>p. fst p \<noteq> key) (after path) = after path"
    using sides by (auto simp: filter_id_conv)
  have "sm_entries (fst (sm_delete m key)) = filter (\<lambda>p. fst p \<noteq> key) (sm_entries m) \<and>
    snd (sm_delete m key) = sm_has m key \<and>
    sm_count (fst (sm_delete m key)) = length (sm_entries (fst (sm_delete m key)))"
  proof (cases t)
    case Null
    then show ?thesis using d found old keep count by (simp add: sm_delete_def)
  next
    case (RBNode c l k v r)
    then have k: "k = key" using descend_Node [of key "sm_root m" "[]" c l k v r path] d by simp
    have "ordered_by fst (inOrderTraversal t)"
      using ord unfolding root [symmetric] by (simp add: inorder_root_of ordered_by_append)
    then have "\<forall>p\<in>set (inOrderTraversal l). fst p < key" "\<forall>p\<in>set (inOrderTraversal r). key < fst p"
      using RBNode k by (auto simp: ordered_by_append)
    then have "filter (\<lambda>p. fst p \<noteq> key) (inOrderTraversal l) = inOrderTraversal l"
      "filter (\<lambda>p. fst p \<noteq> key) (inOrderTraversal r) = inOrderTraversal r"
      by (auto simp: filter_id_conv)
    then show ?thesis
      using d RBNode found old keep k count
      by (simp add: sm_delete_def) (simp add: sm_entries_def inorder_deleteNode)
  qed
  then show "sm_entries (fst (sm_delete m key)) = filter (\<lambda>p. fst p \<noteq> key) (sm_entries m)"
    "snd (sm_delete m key) = sm_has m key"
    "sm_count (fst (sm_delete m key)) = length (sm_entries (fst (sm_delete m key)))" by auto
qed

section \<open>Balance\<close>

text \<open>After the step for a red sibling the path fits the same height, and the sibling is black.\<close>

lemma red_sibling_ok:
  assumes "red_sibling f path = (f', path')" "path_ok n (f # path)"
  shows "path_ok n (f' # path')" "\<not> is_red (fr_other f')"
  using assms
  by (cases "fr_other f"; cases "fr_side f"; auto simp: red_sibling_def color_cases split: if_splits)+

lemma last_rotation_ok:
  assumes "rb_ok t" "\<not> is_red t" "rb_ok s" "black_height s = Suc (black_height t)" "s = RBNode BLACK sl sk sv sr"
    "is_red sl \<or> is_red sr" "fr_other f = s"
  shows "rb_ok (last_rotation t f)" "is_red (last_rotation t f) \<longleftrightarrow> fr_color f = RED"
    "black_height (last_rotation t f) = (if fr_color f = BLACK then Suc (Suc (black_height t)) else Suc (black_height t))"
  using assms
  by (cases "fr_side f"; cases sl; cases sr;
      auto simp: last_rotation_def Let_def attach_def color_cases split: if_splits)+

lemma fixDelete_ok:
  assumes "rb_ok (set_color BLACK t)" "path_ok (Suc (black_height t)) path"
  shows "rb_ok (fixDelete t path)" "\<not> is_red (fixDelete t path)"
proof -
  have "rb_ok (fixDelete t path) \<and> \<not> is_red (fixDelete t path)"
    using assms
  proof (induction t path rule: fixDelete.induct)
    case (1 t)
    then show ?case by (simp add: fixDelete.simps)
  next
    case (2 t f path)
    obtain f' path' where rs: "red_sibling f path = (f', path')" by fastforce
    note sib = red_sibling_ok [OF rs "2.prems"(2)]
    show ?case
    proof (cases "is_red t")
      case True
      have "rb_ok (root_of (set_color BLACK t) (f # path))"
        using "2.prems" True by (intro root_of_ok) (simp_all add: black_height_red)
      moreover have "\<not> is_red (root_of (set_color BLACK t) (f # path))"
        by (rule root_of_black [OF "2.prems"(2)]) simp
      ultimately show ?thesis using True by (simp add: fixDelete.simps)
    next
      case False
      then have t: "rb_ok t" using "2.prems"(1) by (cases t) auto
      have other: "rb_ok (fr_other f')" "black_height (fr_other f') = Suc (black_height t)"
        using sib(1) by auto
      then obtain sl sk sv sr where s: "fr_other f' = RBNode BLACK sl sk sv sr"
        using sib(2) by (cases "fr_other f'") (auto simp: color_cases)
      have up: "path_ok (if fr_color f' = BLACK then Suc (Suc (black_height t)) else Suc (black_height t)) path'"
        "fr_color f' = RED \<Longrightarrow> path' \<noteq> [] \<and> fr_color (hd path') = BLACK"
        using sib(1) by auto
      show ?thesis
      proof (cases "\<not> is_red sl \<and> \<not> is_red sr")
        case True
        let ?t = "attach t (f'\<lparr>fr_other := set_color RED (fr_other f')\<rparr>)"
        have step: "fixDelete t (f # path) = fixDelete ?t path'"
          using False True rs s by (simp add: fixDelete.simps(2))
        have "rb_ok (set_color BLACK ?t)"
          using other t s True by (cases "fr_side f'") (simp_all add: attach_def)
        moreover have "black_height ?t = (if fr_color f' = BLACK then Suc (black_height t) else black_height t)"
          using other s by (cases "fr_side f'") (simp_all add: attach_def)
        then have "path_ok (Suc (black_height ?t)) path'" using up(1) by (simp split: if_splits)
        ultimately show ?thesis
          unfolding step using "2.IH" [OF False rs [symmetric] refl s] True by simp
      next
        case rot: False
        then have step: "fixDelete t (f # path) = set_color BLACK (root_of (last_rotation t f') path')"
          using False rs s by (auto simp: fixDelete.simps(2))
        have red: "is_red sl \<or> is_red sr" using rot by simp
        note l = last_rotation_ok [OF t False other s red refl]
        have "rb_ok (root_of (last_rotation t f') path')"
          using l up by (intro root_of_ok) auto
        then show ?thesis unfolding step by simp
      qed
    qed
  qed
  then show "rb_ok (fixDelete t path)" "\<not> is_red (fixDelete t path)" by auto
qed

lemma after_transplant_black:
  assumes "rb_ok t" "path_ok (Suc (black_height t)) path"
  shows "rb_ok (after_transplant BLACK t path) \<and> \<not> is_red (after_transplant BLACK t path)"
  using fixDelete_ok [of t path] assms by (simp add: after_transplant_def)

lemma after_transplant_red:
  assumes "rb_ok t" "\<not> is_red t" "path_ok (black_height t) path" "path \<noteq> []"
  shows "rb_ok (after_transplant RED t path) \<and> \<not> is_red (after_transplant RED t path)"
  using root_of_ok [of t path] root_of_black [of "black_height t" path t] assms
  by (simp add: after_transplant_def)

text \<open>A node with a missing child gives way to the other child.\<close>

lemma splice_ok:
  assumes "pos_ok (RBNode c l k v r) path" "l = Null \<and> t = r \<or> r = Null \<and> t = l"
  shows "rb_ok (after_transplant c t path) \<and> \<not> is_red (after_transplant c t path)"
proof -
  have t: "rb_ok t" "black_height t = black_height l" using assms by (auto simp: pos_ok_def)
  show ?thesis
  proof (cases c)
    case BLACK
    then have "path_ok (Suc (black_height t)) path" using assms(1) t(2) by (auto simp: pos_ok_def)
    then show ?thesis using after_transplant_black [OF t(1)] BLACK by simp
  next
    case RED
    then have "path_ok (black_height t) path" "path \<noteq> []" "\<not> is_red t" using assms t by (auto simp: pos_ok_def)
    then show ?thesis using after_transplant_red [OF t(1)] RED by simp
  qed
qed

lemma minimum_ok:
  "minimum t path = (s, path') \<Longrightarrow> pos_ok t path \<Longrightarrow> pos_ok s path'"
  by (induction t path rule: minimum.induct) (auto dest: pos_ok_child(1) split: if_splits)

lemma minimum_append: "minimum t (p @ q) = map_prod id (\<lambda>p. p @ q) (minimum t p)"
  by (induction t p rule: minimum.induct) simp_all

lemma path_ok_pair:
  "path_ok n (xs @ \<lparr>fr_side = d, fr_color = c, fr_key = k', fr_value = v', fr_other = l\<rparr> # ys) =
   path_ok n (xs @ \<lparr>fr_side = d, fr_color = c, fr_key = k, fr_value = v, fr_other = l\<rparr> # ys)"
proof (induction xs arbitrary: n)
  case (Cons x xs)
  then show ?case by (cases xs) simp_all
qed simp

lemma pos_ok_pair:
  assumes "pos_ok t (xs @ \<lparr>fr_side = d, fr_color = c, fr_key = k, fr_value = v, fr_other = l\<rparr> # ys)"
  shows "pos_ok t (xs @ \<lparr>fr_side = d, fr_color = c, fr_key = k', fr_value = v', fr_other = l\<rparr> # ys)"
  using assms path_ok_pair [of "black_height t" xs d c k' v' l ys k v]
  by (cases xs) (simp_all add: pos_ok_def)

lemma deleteNode_ok:
  assumes "pos_ok (RBNode c l k v r) path"
  shows "rb_ok (deleteNode c l r path) \<and> \<not> is_red (deleteNode c l r path)"
proof -
  consider "l = Null" | "l \<noteq> Null" "r = Null" | "l \<noteq> Null" "r \<noteq> Null" by blast
  then show ?thesis
  proof cases
    case 1
    then show ?thesis using splice_ok [OF assms, of r] by (simp add: deleteNode_def)
  next
    case 2
    then show ?thesis using splice_ok [OF assms, of l] by (simp add: deleteNode_def)
  next
    case 3
    let ?f = "\<lparr>fr_side = RightSide, fr_color = c, fr_key = k, fr_value = v, fr_other = l\<rparr>"
    obtain s inner where m: "minimum r [] = (s, inner)" by fastforce
    obtain sc sk sv sr where s: "s = RBNode sc Null sk sv sr"
      by (rule minimum_order [OF m 3(2)])
    let ?g = "\<lparr>fr_side = RightSide, fr_color = c, fr_key = sk, fr_value = sv, fr_other = l\<rparr>"
    have "pos_ok (RBNode sc Null sk sv sr) (inner @ ?f # path)"
      using minimum_ok [OF _ pos_ok_child(2) [OF assms]] minimum_append [of r "[]" "?f # path"] m s by simp
    then have "pos_ok (RBNode sc Null sk sv sr) (inner @ ?g # path)"
      by (rule pos_ok_pair)
    from splice_ok [OF this, of sr] show ?thesis using 3 m s by (simp add: deleteNode_def)
  qed
qed

lemma sm_delete_invar:
  assumes "sm_invar m"
  shows "sm_invar (fst (sm_delete m key))"
proof -
  obtain t path where d: "descend key (sm_root m) [] = (t, path)" by fastforce
  have pos: "pos_ok t path" using descend_ok [OF d] assms by (simp add: pos_ok_def sm_invar_def)
  have "rb_ok (sm_root (fst (sm_delete m key))) \<and> \<not> is_red (sm_root (fst (sm_delete m key)))"
  proof (cases t)
    case Null
    then show ?thesis using d assms by (simp add: sm_delete_def sm_invar_def)
  next
    case (RBNode c l k v r)
    then show ?thesis using d deleteNode_ok [OF pos [unfolded RBNode]] by (simp add: sm_delete_def)
  qed
  then show ?thesis
    using sm_delete_entries [OF assms] assms by (simp add: sm_invar_def ordered_by_filter)
qed

section \<open>The contract with deletion\<close>

lemma map_of_filter_neq: "map_of (filter (\<lambda>p. fst p \<noteq> k) xs) k' = (if k' = k then None else map_of xs k')"
  by (induction xs) auto

locale deleting_map = ordered_map empty_map set_key get_key pairs pairs_in count invar
  for empty_map :: "'m"
    and set_key :: "'m \<Rightarrow> 'k::linorder \<Rightarrow> 'v \<Rightarrow> 'm"
    and get_key :: "'m \<Rightarrow> 'k \<Rightarrow> 'v option"
    and pairs :: "'m \<Rightarrow> ('k \<times> 'v) list"
    and pairs_in :: "'m \<Rightarrow> 'k \<Rightarrow> 'k \<Rightarrow> ('k \<times> 'v) list"
    and count :: "'m \<Rightarrow> nat"
    and invar :: "'m \<Rightarrow> bool" +
  fixes delete_key :: "'m \<Rightarrow> 'k \<Rightarrow> 'm \<times> bool"
  assumes invar_delete: "invar m \<Longrightarrow> invar (fst (delete_key m k))"
    and pairs_delete: "invar m \<Longrightarrow> pairs (fst (delete_key m k)) = filter (\<lambda>p. fst p \<noteq> k) (pairs m)"
    and delete_found: "invar m \<Longrightarrow> snd (delete_key m k) = (get_key m k \<noteq> None)"
begin

lemma get_delete: "invar m \<Longrightarrow> get_key (fst (delete_key m k)) = (get_key m)(k := None)"
  by (simp add: fun_eq_iff get_pairs invar_delete pairs_delete map_of_filter_neq)

text \<open>Setting and deleting in any order is updating a finite map.\<close>

definition run_ops :: "('k \<times> 'v option) list \<Rightarrow> 'm \<Rightarrow> 'm" where
  "run_ops = fold (\<lambda>(k, x) m. case x of Some v \<Rightarrow> set_key m k v | None \<Rightarrow> fst (delete_key m k))"

lemma get_set_fun: "invar m \<Longrightarrow> get_key (set_key m k v) = (get_key m)(k := Some v)"
  by (simp add: fun_eq_iff get_set)

lemma run_ops_map:
  assumes "invar m"
  shows "invar (run_ops ops m) \<and> get_key (run_ops ops m) = fold (\<lambda>(k, x) f. f(k := x)) ops (get_key m)"
  using assms
proof (induction ops arbitrary: m)
  case Nil
  then show ?case by (simp add: run_ops_def)
next
  case (Cons op ops)
  obtain k x where op: "op = (k, x)" by fastforce
  show ?case
  proof (cases x)
    case None
    then show ?thesis
      using Cons.IH [OF invar_delete [OF Cons.prems, of k]] get_delete [OF Cons.prems, of k] op
      by (simp add: run_ops_def)
  next
    case (Some v)
    then show ?thesis
      using Cons.IH [OF invar_set [OF Cons.prems, of k v]] get_set_fun [OF Cons.prems, of k v] op
      by (simp add: run_ops_def)
  qed
qed

end

interpretation deletable: deleting_map new_map sm_set sm_get sm_entries sm_range sm_count sm_invar sm_delete
  by unfold_locales (simp_all add: sm_delete_invar sm_delete_entries sm_has_get)

text \<open>Any sequence of \<open>set\<close> and \<open>delete\<close> from the empty map.\<close>

definition sm_op :: "jstring \<times> 'v option \<Rightarrow> 'v sorted_map \<Rightarrow> 'v sorted_map" where
  "sm_op op m = (case op of (k, Some v) \<Rightarrow> sm_set m k v | (k, None) \<Rightarrow> fst (sm_delete m k))"

lemma sm_ops:
  fixes ops :: "(jstring \<times> 'v option) list"
  defines "m \<equiv> fold sm_op ops new_map"
  shows "sm_invar m" "sm_get m = fold (\<lambda>(k, x) f. f(k := x)) ops (\<lambda>_. None)"
proof -
  have op: "sm_op = (\<lambda>(k, x) m :: 'v sorted_map. case x of Some v \<Rightarrow> sm_set m k v | None \<Rightarrow> fst (sm_delete m k))"
    by (simp add: fun_eq_iff sm_op_def split: option.split)
  have run: "m = deletable.run_ops ops new_map"
    unfolding m_def op deletable.run_ops_def ..
  have empty: "sm_get (new_map :: 'v sorted_map) = (\<lambda>_. None)"
    by (simp add: fun_eq_iff sm_get_map_of)
  show "sm_invar m" "sm_get m = fold (\<lambda>(k, x) f. f(k := x)) ops (\<lambda>_. None)"
    using deletable.run_ops_map [of "new_map :: 'v sorted_map" ops] empty unfolding run by simp_all
qed

text \<open>What the other operations say of a well-formed map, as a function of its lookups.\<close>

lemma sm_invar_view:
  assumes "sm_invar m"
  shows "map_of (sm_entries m) = sm_get m" "ordered_by fst (sm_entries m)"
    "sm_range m a b = filter (\<lambda>p. a \<le> fst p \<and> fst p \<le> b) (sm_entries m)"
    "sm_count m = card (dom (sm_get m))"
proof -
  show map: "map_of (sm_entries m) = sm_get m" using sm_get_map_of [OF assms] by (simp add: fun_eq_iff)
  show ord: "ordered_by fst (sm_entries m)" using assms by (rule sorted_map.pairs_ordered)
  show "sm_range m a b = filter (\<lambda>p. a \<le> fst p \<and> fst p \<le> b) (sm_entries m)"
    using assms by (rule sorted_map.range_pairs)
  have "card (dom (sm_get m)) = length (sm_entries m)"
    using distinct_card [OF ordered_by_distinct [OF ord]] by (simp flip: map add: dom_map_of_conv_image_fst)
  then show "sm_count m = card (dom (sm_get m))" using sorted_map.count_pairs [OF assms] by simp
qed

end
