(* ===== verification/Mem_Table.thy ===== *)
theory Mem_Table
  imports Sorted_Map
begin

text \<open>
  The memtable of src/src/storage/memtable/MemTable.ts over the sorted map, with its
  running size. \<open>now\<close> is the value of \<open>Date.now()\<close> at the call.
\<close>

section \<open>State and operations\<close>

record mem_entry =
  mt_value :: jstring
  mt_time :: nat
  mt_deleted :: bool

record mem_table =
  mt_data :: "mem_entry sorted_map"
  mt_currentSize :: int
  mt_sizeLimit :: int

definition new_mem_table :: "int \<Rightarrow> mem_table" where
  "new_mem_table limit = \<lparr>mt_data = new_map, mt_currentSize = 0, mt_sizeLimit = limit\<rparr>"

definition calculateEntrySize :: "jstring \<Rightarrow> mem_entry \<Rightarrow> int" where
  "calculateEntrySize key entry =
     (let keySize = int (length (utf8 key)); valueSize = int (length (utf8 (mt_value entry)));
          metadataSize = 8 + 1 + 40
      in keySize + valueSize + metadataSize)"

text \<open>The step both \<open>put\<close> and \<open>delete\<close> begin with.\<close>

definition forget_size :: "jstring \<Rightarrow> mem_table \<Rightarrow> mem_table" where
  "forget_size key m =
     (case sm_get (mt_data m) key of
        Some existingEntry \<Rightarrow>
          m\<lparr>mt_currentSize := mt_currentSize m - calculateEntrySize key existingEntry\<rparr>
      | None \<Rightarrow> m)"

definition mt_put :: "nat \<Rightarrow> jstring \<Rightarrow> jstring \<Rightarrow> bool \<Rightarrow> mem_table \<Rightarrow> mem_table" where
  "mt_put now key v deleted m =
     (let m = forget_size key m;
          entry = \<lparr>mt_value = v, mt_time = now, mt_deleted = deleted\<rparr>
      in m\<lparr>mt_data := sm_set (mt_data m) key entry,
           mt_currentSize := mt_currentSize m + calculateEntrySize key entry\<rparr>)"

definition mt_get :: "mem_table \<Rightarrow> jstring \<Rightarrow> jstring option" where
  "mt_get m key =
     (case sm_get (mt_data m) key of
        None \<Rightarrow> None
      | Some entry \<Rightarrow> if mt_deleted entry then None else Some (mt_value entry))"

definition mt_getEntry :: "mem_table \<Rightarrow> jstring \<Rightarrow> mem_entry option" where
  "mt_getEntry m key = sm_get (mt_data m) key"

definition mt_delete :: "nat \<Rightarrow> jstring \<Rightarrow> mem_table \<Rightarrow> mem_table" where
  "mt_delete now key m = mt_put now key empty_string True (forget_size key m)"

definition mt_isFull :: "mem_table \<Rightarrow> bool" where
  "mt_isFull m \<longleftrightarrow> mt_sizeLimit m \<le> mt_currentSize m"

definition mt_size :: "mem_table \<Rightarrow> int" where
  "mt_size m = mt_currentSize m"

definition mt_getAllSorted :: "mem_table \<Rightarrow> (jstring \<times> mem_entry) list" where
  "mt_getAllSorted m = sm_entries (mt_data m)"

definition mt_getRange :: "mem_table \<Rightarrow> jstring \<Rightarrow> jstring \<Rightarrow> (jstring \<times> mem_entry) list" where
  "mt_getRange m startKey endKey = sm_range (mt_data m) startKey endKey"

definition mt_clear :: "mem_table \<Rightarrow> mem_table" where
  "mt_clear m = m\<lparr>mt_data := sm_clear (mt_data m), mt_currentSize := 0\<rparr>"

section \<open>What the table holds\<close>

definition mt_invar :: "mem_table \<Rightarrow> bool" where
  "mt_invar m \<longleftrightarrow> sm_invar (mt_data m)"

lemma mt_data_forget [simp]: "mt_data (forget_size key m) = mt_data m"
  "mt_sizeLimit (forget_size key m) = mt_sizeLimit m"
  by (simp_all add: forget_size_def split: option.split)

lemma mt_invar_new [simp]: "mt_invar (new_mem_table limit)"
  by (simp add: mt_invar_def new_mem_table_def)

lemma mt_invar_put [simp]: "mt_invar m \<Longrightarrow> mt_invar (mt_put now key v d m)"
  by (simp add: mt_invar_def mt_put_def Let_def sorted_map.invar_set)

lemma mt_invar_forget [simp]: "mt_invar (forget_size key m) = mt_invar m"
  by (simp add: mt_invar_def)

lemma mt_invar_delete [simp]: "mt_invar m \<Longrightarrow> mt_invar (mt_delete now key m)"
  by (simp add: mt_delete_def)

lemma getEntry_forget [simp]: "mt_getEntry (forget_size key m) = mt_getEntry m"
  by (simp add: mt_getEntry_def fun_eq_iff)

lemma getEntry_new [simp]: "mt_getEntry (new_mem_table limit) key = None"
  by (simp add: mt_getEntry_def new_mem_table_def sorted_map.get_empty)

lemma getEntry_put:
  "mt_invar m \<Longrightarrow> mt_getEntry (mt_put now key v d m) =
     (mt_getEntry m)(key \<mapsto> \<lparr>mt_value = v, mt_time = now, mt_deleted = d\<rparr>)"
  by (auto simp: mt_getEntry_def mt_put_def Let_def mt_invar_def sorted_map.get_set)

lemma getEntry_delete:
  "mt_invar m \<Longrightarrow> mt_getEntry (mt_delete now key m) =
     (mt_getEntry m)(key \<mapsto> \<lparr>mt_value = empty_string, mt_time = now, mt_deleted = True\<rparr>)"
  by (simp add: mt_delete_def getEntry_put)

lemma mt_get_entry:
  "mt_get m key = (case mt_getEntry m key of None \<Rightarrow> None
     | Some e \<Rightarrow> if mt_deleted e then None else Some (mt_value e))"
  by (simp add: mt_get_def mt_getEntry_def)

lemma getAllSorted_ordered: "mt_invar m \<Longrightarrow> ordered_by fst (mt_getAllSorted m)"
  by (simp add: mt_invar_def mt_getAllSorted_def sorted_map.pairs_ordered)

lemma getAllSorted_lookup: "mt_invar m \<Longrightarrow> map_of (mt_getAllSorted m) = mt_getEntry m"
  by (auto simp: mt_invar_def mt_getAllSorted_def mt_getEntry_def sorted_map.get_pairs)

lemma getRange_filter:
  "mt_invar m \<Longrightarrow> mt_getRange m a b = filter (\<lambda>p. a \<le> fst p \<and> fst p \<le> b) (mt_getAllSorted m)"
  by (simp add: mt_invar_def mt_getAllSorted_def mt_getRange_def sorted_map.range_pairs)

lemma getRange_lookup:
  "mt_invar m \<Longrightarrow> map_of (mt_getRange m a b) k = (if a \<le> k \<and> k \<le> b then mt_getEntry m k else None)"
  by (simp add: mt_invar_def mt_getRange_def mt_getEntry_def sorted_map.range_lookup)

section \<open>The running size\<close>

text \<open>The size the entries really have; the drift of the counter from it.\<close>

definition content_size :: "mem_table \<Rightarrow> int" where
  "content_size m = (\<Sum>p\<leftarrow>mt_getAllSorted m. calculateEntrySize (fst p) (snd p))"

definition size_drift :: "mem_table \<Rightarrow> int" where
  "size_drift m = mt_currentSize m - content_size m"

definition recorded_size :: "mem_table \<Rightarrow> jstring \<Rightarrow> int" where
  "recorded_size m key =
     (case mt_getEntry m key of None \<Rightarrow> 0 | Some e \<Rightarrow> calculateEntrySize key e)"

lemma currentSize_forget: "mt_currentSize (forget_size key m) = mt_currentSize m - recorded_size m key"
  by (simp add: forget_size_def recorded_size_def mt_getEntry_def split: option.split)

lemma content_size_put:
  assumes "mt_invar m"
  shows "content_size (mt_put now key v d m) = content_size m - recorded_size m key +
     calculateEntrySize key \<lparr>mt_value = v, mt_time = now, mt_deleted = d\<rparr>"
proof -
  let ?e = "\<lparr>mt_value = v, mt_time = now, mt_deleted = d\<rparr>"
  have inv: "sm_invar (mt_data m)" using assms by (simp add: mt_invar_def)
  have new: "mt_getAllSorted (mt_put now key v d m) = sm_entries (sm_set (mt_data m) key ?e)"
    by (simp add: mt_getAllSorted_def mt_put_def Let_def)
  obtain xs ys where xy: "sm_entries (sm_set (mt_data m) key ?e) = xs @ (key, ?e) # ys"
    "\<forall>p\<in>set xs. fst p < key" "\<forall>p\<in>set ys. key < fst p"
    "sm_entries (mt_data m) = xs @ ys \<or> (\<exists>w. sm_entries (mt_data m) = xs @ (key, w) # ys)"
    using sm_set_entries [OF inv, of key ?e] by metis
  have none: "map_of xs key = None" "map_of ys key = None"
    using xy(2,3) by (auto simp: map_of_eq_None_iff)
  have get: "mt_getEntry m key = map_of (sm_entries (mt_data m)) key"
    by (simp add: mt_getEntry_def sorted_map.get_pairs inv)
  show ?thesis
    using xy(4)
  proof
    assume old: "sm_entries (mt_data m) = xs @ ys"
    then have "mt_getEntry m key = None" using none by (simp add: get map_add_def)
    then show ?thesis
      using xy(1) old new by (simp add: content_size_def mt_getAllSorted_def recorded_size_def)
  next
    assume "\<exists>w. sm_entries (mt_data m) = xs @ (key, w) # ys"
    then obtain w where old: "sm_entries (mt_data m) = xs @ (key, w) # ys" by blast
    then have "mt_getEntry m key = Some w" using none by (simp add: get map_add_def)
    then show ?thesis
      using xy(1) old new by (simp add: content_size_def mt_getAllSorted_def recorded_size_def)
  qed
qed

text \<open>\<open>put\<close> keeps the counter exact; \<open>delete\<close> takes the size of a present entry off twice.\<close>

lemma drift_put:
  "mt_invar m \<Longrightarrow> size_drift (mt_put now key v d m) = size_drift m"
  by (simp add: size_drift_def content_size_put) (simp add: mt_put_def Let_def currentSize_forget)

lemma drift_delete:
  assumes "mt_invar m"
  shows "size_drift (mt_delete now key m) = size_drift m - recorded_size m key"
proof -
  have "size_drift (mt_delete now key m) = size_drift (forget_size key m)"
    unfolding mt_delete_def by (rule drift_put) (use assms in simp)
  also have "\<dots> = size_drift m - recorded_size m key"
    by (simp add: size_drift_def content_size_def mt_getAllSorted_def currentSize_forget)
  finally show ?thesis .
qed

lemma drift_new [simp]: "size_drift (new_mem_table limit) = 0"
  by (simp add: size_drift_def content_size_def mt_getAllSorted_def new_mem_table_def)

lemma recorded_size_nonneg: "0 \<le> recorded_size m key"
  by (simp add: recorded_size_def calculateEntrySize_def Let_def split: option.split)

end
