(* ===== verification/Bloom_Filter.thy ===== *)
theory Bloom_Filter
  imports Complex_Main JS_Buffer
begin

unbundle bit_operations_syntax

text \<open>
  The Bloom filter of src/src/storage/sstable/BloomFilter.ts: the two string hashes on 32-bit
  integers, double hashing, the bit array and its serialised form. What a table reader relies
  on, that a key once added is never denied, is the locale \<open>key_filter\<close>.
\<close>

section \<open>State\<close>

record bloom_filter =
  bf_bits :: "byte list"
  bf_numBits :: nat
  bf_numHashFunctions :: nat

definition byte_size :: "nat \<Rightarrow> nat" where
  "byte_size n = (n + 7) div 8"

text \<open>
  \<open>calculateOptimalParams\<close>, on the real numbers that the doubles of the source approximate.
  \<open>Math.round(x)\<close> is the floor of \<open>x + 1/2\<close>.
\<close>

definition calculateOptimalParams :: "nat \<Rightarrow> real \<Rightarrow> int \<times> nat" where
  "calculateOptimalParams expectedItems falsePositiveRate =
     (let n = real (max expectedItems 1);
          p = max falsePositiveRate 0.0001;
          numBits = \<lceil>- (n * ln p) / (ln 2 * ln 2)\<rceil>;
          numHashFunctions = max 1 \<lfloor>(real_of_int numBits / n) * ln 2 + 1 / 2\<rfloor>
      in (numBits, nat numHashFunctions))"

text \<open>A negative array length throws.\<close>

definition bf_create :: "nat \<Rightarrow> real \<Rightarrow> bloom_filter res" where
  "bf_create expectedItems falsePositiveRate =
     (let (numBits, k) = calculateOptimalParams expectedItems falsePositiveRate in
      if numBits \<le> -8 then Inl RangeError
      else Inr \<lparr>bf_bits = replicate (byte_size (nat numBits)) 0, bf_numBits = nat numBits,
             bf_numHashFunctions = k\<rparr>)"

section \<open>Hashes\<close>

text \<open>The bitwise operators and \<open>Math.imul\<close> work modulo 2 to the 32.\<close>

definition fnv1a :: "jstring \<Rightarrow> nat" where
  "fnv1a str = unat (foldl (\<lambda>hash c. (hash XOR ucast c) * (16777619 :: 32 word)) 2166136261 (units str))"

definition djb2 :: "jstring \<Rightarrow> nat" where
  "djb2 str = unat (foldl (\<lambda>hash c. (push_bit 5 hash + hash) XOR ucast c) (5381 :: 32 word) (units str))"

text \<open>
  \<open>(hash1 + index * hash2) >>> 0\<close>: a product or sum above 2 to the 53 is rounded to a double.
\<close>

definition getCombinedHash :: "bloom_filter \<Rightarrow> nat \<Rightarrow> nat \<Rightarrow> nat \<Rightarrow> nat" where
  "getCombinedHash f hash1 hash2 index =
     (let combined = js_number (hash1 + js_number (index * hash2)) mod 2 ^ 32
      in combined mod bf_numBits f)"

section \<open>Operations\<close>

text \<open>A write past the end of the array is ignored, a read there gives a zero byte.\<close>

definition setBit :: "bloom_filter \<Rightarrow> nat \<Rightarrow> bloom_filter" where
  "setBit f index =
     (let byteIndex = index div 8; bitOffset = index mod 8 in
      if byteIndex < length (bf_bits f)
      then f\<lparr>bf_bits := (bf_bits f)[byteIndex := bf_bits f ! byteIndex OR push_bit bitOffset 1]\<rparr>
      else f)"

definition getBit :: "bloom_filter \<Rightarrow> nat \<Rightarrow> bool" where
  "getBit f index =
     (let byteIndex = index div 8; bitOffset = index mod 8 in
      byteIndex < length (bf_bits f) \<and> (bf_bits f ! byteIndex) AND push_bit bitOffset 1 \<noteq> 0)"

definition bit_indices :: "bloom_filter \<Rightarrow> jstring \<Rightarrow> nat list" where
  "bit_indices f key = map (getCombinedHash f (fnv1a key) (djb2 key)) [0..<bf_numHashFunctions f]"

definition bf_add :: "jstring \<Rightarrow> bloom_filter \<Rightarrow> bloom_filter" where
  "bf_add key f = fold (\<lambda>i f. setBit f (getCombinedHash f (fnv1a key) (djb2 key) i))
     [0..<bf_numHashFunctions f] f"

definition mightContain :: "bloom_filter \<Rightarrow> jstring \<Rightarrow> bool" where
  "mightContain f key \<longleftrightarrow> list_all (getBit f) (bit_indices f key)"

definition bf_serialize :: "bloom_filter \<Rightarrow> byte list res" where
  "bf_serialize f =
     (let size = byte_size (bf_numBits f) in
      run_writes [WU32 (bf_numBits f), WU32 (bf_numHashFunctions f), WBytes (bf_bits f)] 0
        (replicate (4 + 4 + size) 0))"

definition bf_fromBuffer :: "buffer \<Rightarrow> bloom_filter res" where
  "bf_fromBuffer b =
     bind_res (readUInt32BE b 0) (\<lambda>numBits.
     bind_res (readUInt32BE b 4) (\<lambda>numHashFunctions.
     let size = byte_size numBits in
     Inr \<lparr>bf_bits = bytes_between b 8 (8 + size), bf_numBits = numBits,
          bf_numHashFunctions = numHashFunctions\<rparr>))"

section \<open>Bits\<close>

definition bf_invar :: "bloom_filter \<Rightarrow> bool" where
  "bf_invar f \<longleftrightarrow> 0 < bf_numBits f \<and> length (bf_bits f) = byte_size (bf_numBits f)"

lemma getBit_bit:
  "getBit f i \<longleftrightarrow> i div 8 < length (bf_bits f) \<and> bit (bf_bits f ! (i div 8)) (i mod 8)"
  by (auto simp: getBit_def Let_def and_exp_eq_0_iff_not_bit)

lemma setBit_simps [simp]:
  "bf_numBits (setBit f i) = bf_numBits f" "bf_numHashFunctions (setBit f i) = bf_numHashFunctions f"
  "length (bf_bits (setBit f i)) = length (bf_bits f)"
  by (simp_all add: setBit_def Let_def)

lemma getBit_setBit:
  "getBit (setBit f i) j \<longleftrightarrow> getBit f j \<or> (i = j \<and> i div 8 < length (bf_bits f))"
proof -
  have eq: "i div 8 = j div 8 \<Longrightarrow> i mod 8 = j mod 8 \<Longrightarrow> i = j"
    by (metis div_mult_mod_eq)
  show ?thesis
    unfolding getBit_bit
    by (auto simp: setBit_def Let_def nth_list_update bit_or_iff bit_exp_iff
        intro: eq dest: eq)
qed

lemma combined_setBit [simp]: "getCombinedHash (setBit f i) = getCombinedHash f"
  by (simp add: getCombinedHash_def fun_eq_iff)

lemma setBits_fold:
  "fold (\<lambda>i f. setBit f (getCombinedHash f h1 h2 i)) is f =
   fold (\<lambda>b f. setBit f b) (map (getCombinedHash f h1 h2) is) f"
proof (induction "is" arbitrary: f)
  case (Cons i "is")
  show ?case
    using Cons [of "setBit f (getCombinedHash f h1 h2 i)"] by simp
qed simp

lemma bf_add_fold: "bf_add key f = fold (\<lambda>b f. setBit f b) (bit_indices f key) f"
  by (simp add: bf_add_def bit_indices_def setBits_fold)

lemma fold_setBit_simps [simp]:
  "bf_numBits (fold (\<lambda>b f. setBit f b) bs f) = bf_numBits f"
  "bf_numHashFunctions (fold (\<lambda>b f. setBit f b) bs f) = bf_numHashFunctions f"
  "length (bf_bits (fold (\<lambda>b f. setBit f b) bs f)) = length (bf_bits f)"
  by (induction bs arbitrary: f) simp_all

lemma getBit_fold:
  "getBit (fold (\<lambda>b f. setBit f b) bs f) j \<longleftrightarrow>
     getBit f j \<or> (j \<in> set bs \<and> j div 8 < length (bf_bits f))"
  by (induction bs arbitrary: f) (auto simp: getBit_setBit)

lemma bf_add_simps [simp]:
  "bf_numBits (bf_add key f) = bf_numBits f"
  "bf_numHashFunctions (bf_add key f) = bf_numHashFunctions f"
  "bf_invar (bf_add key f) = bf_invar f" "bit_indices (bf_add key f) = bit_indices f"
  by (simp_all add: bf_add_fold bf_invar_def bit_indices_def getCombinedHash_def fun_eq_iff)

lemma bit_index_bound:
  assumes "bf_invar f" "j \<in> set (bit_indices f key)"
  shows "j div 8 < length (bf_bits f)"
proof -
  have "j < bf_numBits f"
    using assms by (auto simp: bf_invar_def bit_indices_def getCombinedHash_def Let_def)
  then show ?thesis using assms(1) by (auto simp: bf_invar_def byte_size_def)
qed

lemma mightContain_add:
  assumes "bf_invar f"
  shows "mightContain (bf_add key f) key"
    and "mightContain f k \<Longrightarrow> mightContain (bf_add key f) k"
  using bit_index_bound [OF assms]
  by (auto simp: mightContain_def list_all_iff) (auto simp: bf_add_fold getBit_fold)

section \<open>The contract of a filter\<close>

locale key_filter =
  fixes add_key :: "'k \<Rightarrow> 'f \<Rightarrow> 'f"
    and may_contain :: "'f \<Rightarrow> 'k \<Rightarrow> bool"
    and invar :: "'f \<Rightarrow> bool"
  assumes invar_add: "invar f \<Longrightarrow> invar (add_key k f)"
    and may_contain_added: "invar f \<Longrightarrow> may_contain (add_key k f) k"
    and may_contain_mono: "invar f \<Longrightarrow> may_contain f k \<Longrightarrow> may_contain (add_key k' f) k"
begin

lemma add_all:
  assumes "invar f"
  shows "invar (fold add_key ks f)"
    and "may_contain f k \<Longrightarrow> may_contain (fold add_key ks f) k"
    and "k \<in> set ks \<Longrightarrow> may_contain (fold add_key ks f) k"
proof -
  have inv: "invar (fold add_key ks f)" if "invar f" for ks f
    using that by (induction ks arbitrary: f) (auto simp: invar_add)
  have mono: "may_contain (fold add_key ks f) k" if "invar f" "may_contain f k" for ks f
    using that by (induction ks arbitrary: f) (auto simp: invar_add may_contain_mono)
  show "invar (fold add_key ks f)" by (rule inv [OF assms])
  show "may_contain f k \<Longrightarrow> may_contain (fold add_key ks f) k" by (rule mono [OF assms])
  show "k \<in> set ks \<Longrightarrow> may_contain (fold add_key ks f) k"
    using assms
    by (induction ks arbitrary: f) (auto simp: invar_add may_contain_added mono)
qed

end

interpretation bloom: key_filter bf_add mightContain bf_invar
  by unfold_locales (auto simp: mightContain_add)

section \<open>Parameters\<close>

lemma ln_2_half: "1 / 2 \<le> ln (2 :: real)"
proof -
  have "- ln (1 / 2 :: real) \<ge> 1 / 2"
    using ln_add_one_self_le_self2 [of "- 1 / 2 :: real"] by simp
  then show ?thesis by (simp add: ln_div)
qed

text \<open>
  A rate below one gives at least one bit, and at most 28 bits for each expected item: the
  rate is clamped at 1/10000, whose logarithm is above \<open>- 14 ln 2\<close>.
\<close>

lemma optimal_bits:
  assumes "rate < 1"
  shows "0 < fst (calculateOptimalParams n rate)"
    and "fst (calculateOptimalParams n rate) \<le> 28 * int (max n 1)"
proof -
  let ?p = "max rate (1 / 10000)" and ?n = "real (max n 1)"
  let ?x = "- (?n * ln ?p) / (ln 2 * ln 2)"
  have params: "fst (calculateOptimalParams n rate) = \<lceil>?x\<rceil>"
    by (simp add: calculateOptimalParams_def Let_def)
  have n: "1 \<le> ?n" by simp
  have "ln ?p < 0" using assms by simp
  then have "0 < ?x"
    using n by (intro divide_pos_pos) (auto simp: mult_less_0_iff)
  then show "0 < fst (calculateOptimalParams n rate)" by (simp add: params)
  have "ln (1 / 10000) \<le> ln ?p" by simp
  moreover have "ln (1 / 10000 :: real) = - ln 10000" by (simp add: ln_div)
  moreover have "ln (10000 :: real) \<le> ln (2 ^ 14)" by simp
  moreover have "ln ((2 :: real) ^ 14) = 14 * ln 2" by (subst ln_realpow) simp_all
  ultimately have "- ln ?p \<le> 14 * ln 2" by linarith
  then have "?n * (- ln ?p) \<le> ?n * (14 * ln 2)" using n by (intro mult_left_mono) auto
  then have "?x \<le> ?n * (14 * ln 2) / (ln 2 * ln 2)"
    by (intro divide_right_mono) auto
  also have "\<dots> = ?n * 14 / ln 2" by simp
  also have "\<dots> \<le> ?n * 14 / (1 / 2)"
    using n ln_2_half by (intro divide_left_mono) auto
  finally have "?x \<le> 28 * ?n" by simp
  then show "fst (calculateOptimalParams n rate) \<le> 28 * int (max n 1)"
    unfolding params by (subst ceiling_le_iff) simp
qed

lemma optimal_hashes:
  assumes "rate < 1"
  shows "1 \<le> snd (calculateOptimalParams n rate)" "snd (calculateOptimalParams n rate) \<le> 28"
proof -
  define m where "m = fst (calculateOptimalParams n rate)"
  have k: "snd (calculateOptimalParams n rate) =
      nat (max 1 \<lfloor>(real_of_int m / real (max n 1)) * ln 2 + 1 / 2\<rfloor>)"
    by (simp add: calculateOptimalParams_def Let_def m_def)
  show "1 \<le> snd (calculateOptimalParams n rate)" by (simp add: k)
  have "real_of_int m \<le> 28 * real (max n 1)"
    using optimal_bits(2) [OF assms, of n] by (simp add: m_def)
  then have "real_of_int m / real (max n 1) \<le> 28" by (simp add: divide_le_eq)
  moreover have "ln (2 :: real) \<le> 1" using ln_le_minus_one [of "2 :: real"] by simp
  ultimately have "(real_of_int m / real (max n 1)) * ln 2 \<le> 28 * 1"
    using optimal_bits(1) [OF assms, of n] by (intro mult_mono) (auto simp: m_def)
  then have "\<lfloor>(real_of_int m / real (max n 1)) * ln 2 + 1 / 2\<rfloor> \<le> 28"
    by (simp add: floor_le_iff)
  then show "snd (calculateOptimalParams n rate) \<le> 28"
    unfolding k by (simp add: nat_le_iff max_def floor_le_iff)
qed

lemma bf_create_ok:
  assumes "rate < 1"
  obtains f where "bf_create n rate = Inr f" "bf_invar f" "bf_numBits f \<le> 28 * max n 1"
    "1 \<le> bf_numHashFunctions f" "bf_numHashFunctions f \<le> 28"
proof -
  obtain m k where mk: "calculateOptimalParams n rate = (m, k)" by fastforce
  let ?f = "\<lparr>bf_bits = replicate (byte_size (nat m)) 0, bf_numBits = nat m, bf_numHashFunctions = k\<rparr>"
  have "0 < m" "m \<le> 28 * int (max n 1)" "1 \<le> k" "k \<le> 28"
    using optimal_bits [OF assms, of n] optimal_hashes [OF assms, of n] mk by auto
  then show thesis
    using that [of ?f] mk by (simp add: bf_create_def bf_invar_def)
qed

section \<open>The serialised filter\<close>

definition bf_bytes :: "bloom_filter \<Rightarrow> byte list" where
  "bf_bytes f = be_bytes 4 (bf_numBits f) @ be_bytes 4 (bf_numHashFunctions f) @ bf_bits f"

lemma bf_serialize_ok:
  assumes "bf_invar f" "bf_numBits f < 4294967296" "bf_numHashFunctions f < 4294967296"
  shows "bf_serialize f = Inr (bf_bytes f)"
proof -
  let ?ws = "[WU32 (bf_numBits f), WU32 (bf_numHashFunctions f), WBytes (bf_bits f)]"
  have "run_writes ?ws 0 (replicate (8 + byte_size (bf_numBits f)) 0) =
      Inr (wops_fill ?ws (replicate (8 + byte_size (bf_numBits f)) 0))"
    using assms by (subst run_writes_ok) (auto simp: bf_invar_def)
  also have "wops_fill ?ws (replicate (8 + byte_size (bf_numBits f)) 0) = wops_bytes ?ws"
    using assms by (intro wops_fill_bytes) (auto simp: bf_invar_def)
  finally show ?thesis
    by (simp add: bf_serialize_def bf_bytes_def Let_def del: run_writes.simps)
qed

lemma bf_fromBuffer_holds:
  assumes "holds_at b 0 (bf_bytes f)" "bf_invar f"
    "bf_numBits f < 4294967296" "bf_numHashFunctions f < 4294967296"
  shows "bf_fromBuffer b = Inr f"
proof -
  have "holds_at b 0 (be_bytes 4 (bf_numBits f))" "holds_at b 4 (be_bytes 4 (bf_numHashFunctions f))"
    "holds_at b 8 (bf_bits f)"
    using assms(1) by (simp_all add: bf_bytes_def holds_at_append)
  then show ?thesis
    using assms by (simp add: bf_fromBuffer_def read_uint_be bytes_between_holds bf_invar_def Let_def)
qed

end
