(* ===== verification/SSTable_Codec.thy ===== *)
theory SSTable_Codec
  imports JS_Buffer
begin

text \<open>
  The binary format of the sorted tables (src/src/storage/sstable/SSTableTypes.ts and
  SSTableSerializer.ts): data entries, index entries and the footer.
\<close>

section \<open>Types\<close>

record sst_entry =
  se_key :: jstring
  se_value :: jstring
  se_time :: nat
  se_deleted :: bool

record index_entry =
  ix_key :: jstring
  ix_offset :: nat

record sst_meta =
  sm_fileNumber :: nat
  sm_filePath :: jstring
  sm_entryCount :: nat
  sm_firstKey :: jstring
  sm_lastKey :: jstring
  sm_fileSize :: nat
  sm_createdAt :: nat
  sm_indexOffset :: nat
  sm_dataOffset :: nat
  sm_bloomFilterOffset :: "nat option"

definition SSTABLE_MAGIC :: nat where
  "SSTABLE_MAGIC = 0x5353544C"

definition SSTABLE_VERSION :: nat where
  "SSTABLE_VERSION = 2"

section \<open>Serialisation\<close>

definition sst_entrySize :: "sst_entry \<Rightarrow> nat" where
  "sst_entrySize e = 2 + length (utf8 (se_key e)) + 4 + length (utf8 (se_value e)) + 8 + 1"

definition sst_entry_writes :: "sst_entry \<Rightarrow> wop list" where
  "sst_entry_writes e =
     [WU16 (length (utf8 (se_key e))), WBytes (utf8 (se_key e)),
      WU32 (length (utf8 (se_value e))), WBytes (utf8 (se_value e)),
      WU64 (se_time e), WU8 (if se_deleted e then 1 else 0)]"

definition sst_serializeEntry :: "(nat \<Rightarrow> byte) \<Rightarrow> sst_entry \<Rightarrow> byte list res" where
  "sst_serializeEntry mem e =
     (let totalSize = 2 + length (utf8 (se_key e)) + 4 + length (utf8 (se_value e)) + 8 + 1
      in serialize_writes mem totalSize (sst_entry_writes e))"

text \<open>The entry and the number of bytes it took.\<close>

definition sst_deserializeEntry :: "buffer \<Rightarrow> nat \<Rightarrow> (sst_entry \<times> nat) res" where
  "sst_deserializeEntry b startOffset =
     bind_res (readUInt16BE b startOffset) (\<lambda>keyLen.
     let off = startOffset + 2; key = to_string b off (off + keyLen); off = off + keyLen in
     bind_res (readUInt32BE b off) (\<lambda>valueLen.
     let off = off + 4; v = to_string b off (off + valueLen); off = off + valueLen in
     bind_res (readU64 b off) (\<lambda>timestamp.
     bind_res (readUInt8 b (off + 8)) (\<lambda>d.
     Inr (\<lparr>se_key = key, se_value = v, se_time = timestamp, se_deleted = (d = 1)\<rparr>,
          off + 8 + 1 - startOffset)))))"

definition index_writes :: "index_entry \<Rightarrow> wop list" where
  "index_writes x =
     [WU16 (length (utf8 (ix_key x))), WBytes (utf8 (ix_key x)), WU64 (ix_offset x)]"

definition serializeIndexEntry :: "(nat \<Rightarrow> byte) \<Rightarrow> index_entry \<Rightarrow> byte list res" where
  "serializeIndexEntry mem x = serialize_writes mem (2 + length (utf8 (ix_key x)) + 8) (index_writes x)"

definition deserializeIndexEntry :: "buffer \<Rightarrow> nat \<Rightarrow> (index_entry \<times> nat) res" where
  "deserializeIndexEntry b startOffset =
     bind_res (readUInt16BE b startOffset) (\<lambda>keyLen.
     let off = startOffset + 2; key = to_string b off (off + keyLen); off = off + keyLen in
     bind_res (readU64 b off) (\<lambda>entryOffset.
     Inr (\<lparr>ix_key = key, ix_offset = entryOffset\<rparr>, off + 8 - startOffset)))"

definition calculateFooterSize :: "jstring \<Rightarrow> jstring \<Rightarrow> nat" where
  "calculateFooterSize firstKey lastKey = 54 + length (utf8 firstKey) + length (utf8 lastKey)"

definition footer_writes ::
  "nat \<Rightarrow> nat \<Rightarrow> nat \<Rightarrow> nat \<Rightarrow> nat \<Rightarrow> jstring \<Rightarrow> jstring \<Rightarrow> nat \<Rightarrow> wop list" where
  "footer_writes fileNumber entryCount dataOffset indexOffset bloomFilterOffset firstKey lastKey
     createdAt =
     [WU32 fileNumber, WU32 entryCount, WU64 dataOffset, WU64 indexOffset, WU64 bloomFilterOffset,
      WU16 (length (utf8 firstKey)), WBytes (utf8 firstKey),
      WU16 (length (utf8 lastKey)), WBytes (utf8 lastKey),
      WU64 createdAt, WU16 SSTABLE_VERSION,
      WU32 (54 + length (utf8 firstKey) + length (utf8 lastKey)), WU32 SSTABLE_MAGIC]"

definition serializeFooter ::
  "(nat \<Rightarrow> byte) \<Rightarrow> nat \<Rightarrow> nat \<Rightarrow> nat \<Rightarrow> nat \<Rightarrow> nat \<Rightarrow> jstring \<Rightarrow> jstring \<Rightarrow> nat \<Rightarrow> byte list res" where
  "serializeFooter mem fileNumber entryCount dataOffset indexOffset bloomFilterOffset firstKey lastKey
     createdAt =
     serialize_writes mem (54 + length (utf8 firstKey) + length (utf8 lastKey))
       (footer_writes fileNumber entryCount dataOffset indexOffset bloomFilterOffset firstKey lastKey
          createdAt)"

section \<open>What is written and read back\<close>

text \<open>Entries and index entries whose fields are in range, with text that encodes losslessly.\<close>

definition sst_entry_ok :: "sst_entry \<Rightarrow> bool" where
  "sst_entry_ok e \<longleftrightarrow> well_formed (se_key e) \<and> length (utf8 (se_key e)) < 65536 \<and>
     well_formed (se_value e) \<and> length (utf8 (se_value e)) < 4294967296 \<and> se_time e \<le> 2 ^ 53"

definition sst_entry_bytes :: "sst_entry \<Rightarrow> byte list" where
  "sst_entry_bytes e = wops_bytes (sst_entry_writes e)"

definition index_entry_ok :: "index_entry \<Rightarrow> bool" where
  "index_entry_ok x \<longleftrightarrow> well_formed (ix_key x) \<and> length (utf8 (ix_key x)) < 65536 \<and>
     ix_offset x \<le> 2 ^ 53"

definition index_entry_bytes :: "index_entry \<Rightarrow> byte list" where
  "index_entry_bytes x = wops_bytes (index_writes x)"

lemma length_sst_entry_bytes: "length (sst_entry_bytes e) = sst_entrySize e"
  by (simp add: sst_entry_bytes_def sst_entry_writes_def sst_entrySize_def)

lemma length_index_entry_bytes:
  "length (index_entry_bytes x) = 2 + length (utf8 (ix_key x)) + 8"
  by (simp add: index_entry_bytes_def index_writes_def)

lemma sst_serializeEntry_ok:
  assumes "sst_entry_ok e"
  shows "sst_serializeEntry mem e = Inr (sst_entry_bytes e)"
  using assms unfolding sst_serializeEntry_def Let_def
  by (subst serialize_writes_eq) (auto simp: sst_entry_writes_def sst_entry_bytes_def sst_entry_ok_def)

lemma sst_deserializeEntry_holds:
  assumes "sst_entry_ok e" "holds_at b off (sst_entry_bytes e)"
  shows "sst_deserializeEntry b off = Inr (e, sst_entrySize e)"
proof -
  let ?k = "utf8 (se_key e)" and ?v = "utf8 (se_value e)"
  have h: "holds_at b off (be_bytes 2 (length ?k))" "holds_at b (off + 2) ?k"
    "holds_at b (off + 2 + length ?k) (be_bytes 4 (length ?v))"
    "holds_at b (off + 2 + length ?k + 4) ?v"
    "holds_at b (off + 2 + length ?k + 4 + length ?v) (be_bytes 8 (se_time e))"
    "holds_at b (off + 2 + length ?k + 4 + length ?v + 8) (be_bytes 1 (if se_deleted e then 1 else 0))"
    using assms(2)
    by (simp_all only: sst_entry_bytes_def sst_entry_writes_def wops_bytes_simps wop_bytes.simps
        holds_at_append length_be_bytes add.assoc append_Nil2)
  have d: "readUInt8 b (off + 2 + length ?k + 4 + length ?v + 8) = Inr (if se_deleted e then 1 else 0)"
    by (rule read_uint_be [OF h(6)]) simp
  show ?thesis
    using assms(1) h(1-5) d
    by (simp add: sst_deserializeEntry_def read_uint_be readU64_be to_string_holds sst_entry_ok_def
        sst_entrySize_def Let_def)
qed

lemma sst_deserializeEntry_size:
  "sst_deserializeEntry b off = Inr (e, n) \<Longrightarrow> 0 < n"
  by (auto simp: sst_deserializeEntry_def bind_res_eq_Inr Let_def)

lemma serializeIndexEntry_ok:
  assumes "index_entry_ok x"
  shows "serializeIndexEntry mem x = Inr (index_entry_bytes x)"
  using assms unfolding serializeIndexEntry_def
  by (subst serialize_writes_eq) (auto simp: index_writes_def index_entry_bytes_def index_entry_ok_def)

lemma deserializeIndexEntry_holds:
  assumes "index_entry_ok x" "holds_at b off (index_entry_bytes x)"
  shows "deserializeIndexEntry b off = Inr (x, length (index_entry_bytes x))"
proof -
  let ?k = "utf8 (ix_key x)"
  have h: "holds_at b off (be_bytes 2 (length ?k))" "holds_at b (off + 2) ?k"
    "holds_at b (off + 2 + length ?k) (be_bytes 8 (ix_offset x))"
    using assms(2)
    by (simp_all only: index_entry_bytes_def index_writes_def wops_bytes_simps wop_bytes.simps
        holds_at_append length_be_bytes add.assoc append_Nil2)
  show ?thesis
    using assms(1) h
    by (simp add: deserializeIndexEntry_def read_uint_be readU64_be to_string_holds index_entry_ok_def
        length_index_entry_bytes Let_def)
qed

lemma serializeFooter_ok:
  assumes "n < 4294967296" "c < 4294967296" "d < 2 ^ 64" "i < 2 ^ 64" "b < 2 ^ 64"
    "length (utf8 f) < 65536" "length (utf8 l) < 65536" "t < 2 ^ 64"
  shows "serializeFooter mem n c d i b f l t = Inr (wops_bytes (footer_writes n c d i b f l t))"
  using assms unfolding serializeFooter_def
  by (subst serialize_writes_eq) (auto simp: footer_writes_def SSTABLE_MAGIC_def SSTABLE_VERSION_def)

lemma length_footer_bytes:
  "length (wops_bytes (footer_writes n c d i b f l t)) = calculateFooterSize f l"
  by (simp add: footer_writes_def calculateFooterSize_def)

end
