(* ===== verification/SSTable_Writer.thy ===== *)
theory SSTable_Writer
  imports SSTable_Codec Bloom_Filter
begin

text \<open>
  The writer of sorted tables (src/src/storage/sstable/SSTableWriter.ts): entries are added in
  key order, and \<open>build\<close> writes data, sparse index, Bloom filter and footer to a temporary
  file that is renamed when complete. A file system is a map from paths to contents; \<open>mem\<close>
  is the content of uninitialised buffers, \<open>now\<close> the clock.
\<close>

section \<open>State\<close>

type_synonym files = "jstring \<rightharpoonup> byte list"

record sst_config =
  cf_dataDir :: jstring
  cf_sparseIndexInterval :: nat
  cf_falsePositiveRate :: real

record sst_writer =
  sw_fileNumber :: nat
  sw_config :: sst_config
  sw_entries :: "sst_entry list"
  sw_sparseIndex :: "index_entry list"
  sw_lastKey :: "jstring option"
  sw_tempFilePath :: "jstring option"
  sw_built :: bool

definition new_writer :: "nat \<Rightarrow> sst_config \<Rightarrow> sst_writer" where
  "new_writer fileNumber config =
     \<lparr>sw_fileNumber = fileNumber, sw_config = config, sw_entries = [], sw_sparseIndex = [],
      sw_lastKey = None, sw_tempFilePath = None, sw_built = False\<rparr>"

section \<open>Operations\<close>

definition sw_add :: "sst_entry \<Rightarrow> sst_writer \<Rightarrow> sst_writer res" where
  "sw_add entry w =
     (if sw_built w then Inl CannotAddAfterBuild
      else if (case sw_lastKey w of None \<Rightarrow> False | Some k \<Rightarrow> se_key entry \<le> k) then Inl KeysNotSorted
      else Inr (w\<lparr>sw_entries := sw_entries w @ [entry], sw_lastKey := Some (se_key entry)\<rparr>))"

definition sw_getEntryCount :: "sst_writer \<Rightarrow> nat" where
  "sw_getEntryCount w = length (sw_entries w)"

definition join_path :: "jstring \<Rightarrow> string \<Rightarrow> jstring" where
  "join_path dir name = js_append dir (js (''/'' @ name))"

definition formatFileName :: "nat \<Rightarrow> string" where
  "formatFileName fileNumber = ''sstable-'' @ pad_zero 5 (decimal fileNumber) @ ''.sst''"

definition sst_path :: "jstring \<Rightarrow> nat \<Rightarrow> jstring" where
  "sst_path dir fileNumber = join_path dir (formatFileName fileNumber)"

definition temp_path :: "jstring \<Rightarrow> jstring" where
  "temp_path finalPath = js_append finalPath (js ''.tmp'')"

definition cleanupTempFile :: "sst_writer \<Rightarrow> files \<Rightarrow> sst_writer \<times> files" where
  "cleanupTempFile w fs =
     (case sw_tempFilePath w of
        None \<Rightarrow> (w, fs)
      | Some tmp \<Rightarrow> (w\<lparr>sw_tempFilePath := None\<rparr>, fs(tmp := None)))"

definition sw_abort :: "sst_writer \<Rightarrow> files \<Rightarrow> sst_writer \<times> files" where
  "sw_abort w fs = (let (w, fs) = cleanupTempFile w fs in (w\<lparr>sw_built := True\<rparr>, fs))"

text \<open>What the loop over the entries has produced so far.\<close>

record build_state =
  bs_currentOffset :: nat
  bs_bloom :: bloom_filter
  bs_index :: "index_entry list"
  bs_out :: "byte list"

fun write_entries :: "nat \<Rightarrow> (nat \<Rightarrow> byte) \<Rightarrow> nat \<Rightarrow> sst_entry list \<Rightarrow> build_state \<Rightarrow> build_state res" where
  "write_entries interval mem i [] st = Inr st"
| "write_entries interval mem i (entry # es) st =
     (let bloom = bf_add (se_key entry) (bs_bloom st);
          index = (if interval \<noteq> 0 \<and> i mod interval = 0
                   then bs_index st @ [\<lparr>ix_key = se_key entry, ix_offset = bs_currentOffset st\<rparr>]
                   else bs_index st)
      in bind_res (sst_serializeEntry mem entry) (\<lambda>entryBuffer.
         write_entries interval mem (Suc i) es
           \<lparr>bs_currentOffset = bs_currentOffset st + length entryBuffer, bs_bloom = bloom,
            bs_index = index, bs_out = bs_out st @ entryBuffer\<rparr>))"

text \<open>The bytes of the whole file and its metadata; the body of the \<open>try\<close> up to the rename.\<close>

definition build_file :: "(nat \<Rightarrow> byte) \<Rightarrow> nat \<Rightarrow> sst_writer \<Rightarrow> jstring \<Rightarrow> (byte list \<times> sst_meta \<times> index_entry list) res" where
  "build_file mem now w finalPath =
     (let es = sw_entries w; cf = sw_config w in
      bind_res (bf_create (length es) (cf_falsePositiveRate cf)) (\<lambda>bloomFilter.
      bind_res (write_entries (cf_sparseIndexInterval cf) mem 0 es
        \<lparr>bs_currentOffset = 0, bs_bloom = bloomFilter, bs_index = sw_sparseIndex w, bs_out = []\<rparr>) (\<lambda>st.
      let indexOffset = bs_currentOffset st in
      bind_res (serialize_writes mem 4 [WU32 (length (bs_index st))]) (\<lambda>indexCountBuffer.
      bind_res (map_res (serializeIndexEntry mem) (bs_index st)) (\<lambda>indexBuffers.
      let bloomFilterOffset = indexOffset + 4 + length (concat indexBuffers) in
      bind_res (bf_serialize (bs_bloom st)) (\<lambda>bloomFilterBuffer.
      let firstKey = se_key (es ! 0); lastKey = se_key (es ! (length es - 1)) in
      bind_res (serializeFooter mem (sw_fileNumber w) (length es) 0 indexOffset bloomFilterOffset
        firstKey lastKey now) (\<lambda>footerBuffer.
      let out = bs_out st @ indexCountBuffer @ concat indexBuffers @ bloomFilterBuffer @ footerBuffer in
      Inr (out,
        \<lparr>sm_fileNumber = sw_fileNumber w, sm_filePath = finalPath, sm_entryCount = length es,
         sm_firstKey = firstKey, sm_lastKey = lastKey,
         sm_fileSize = bloomFilterOffset + length bloomFilterBuffer + length footerBuffer,
         sm_createdAt = now, sm_indexOffset = indexOffset, sm_dataOffset = 0,
         sm_bloomFilterOffset = Some bloomFilterOffset\<rparr>, bs_index st))))))))"

definition sw_build :: "(nat \<Rightarrow> byte) \<Rightarrow> nat \<Rightarrow> sst_writer \<Rightarrow> files \<Rightarrow> sst_meta res \<times> sst_writer \<times> files" where
  "sw_build mem now w fs =
     (if sw_built w then (Inl BuildAlreadyCalled, w, fs)
      else if sw_entries w = [] then (Inl CannotBuildEmpty, w, fs)
      else
        let finalPath = sst_path (cf_dataDir (sw_config w)) (sw_fileNumber w);
            w = w\<lparr>sw_built := True, sw_tempFilePath := Some (temp_path finalPath)\<rparr>
        in case build_file mem now w finalPath of
             Inl err \<Rightarrow> (let (w, fs) = cleanupTempFile w fs in (Inl err, w, fs))
           | Inr (out, meta, index) \<Rightarrow>
               (Inr meta, w\<lparr>sw_tempFilePath := None, sw_sparseIndex := index\<rparr>,
                fs(temp_path finalPath := None, finalPath \<mapsto> out)))"

fun sw_add_all :: "sst_entry list \<Rightarrow> sst_writer \<Rightarrow> sst_writer res" where
  "sw_add_all [] w = Inr w"
| "sw_add_all (e # es) w = bind_res (sw_add e w) (sw_add_all es)"

section \<open>What is written\<close>

fun sparse_index :: "nat \<Rightarrow> nat \<Rightarrow> nat \<Rightarrow> sst_entry list \<Rightarrow> index_entry list" where
  "sparse_index interval i off [] = []"
| "sparse_index interval i off (e # es) =
     (if interval \<noteq> 0 \<and> i mod interval = 0 then [\<lparr>ix_key = se_key e, ix_offset = off\<rparr>] else []) @
     sparse_index interval (Suc i) (off + sst_entrySize e) es"

definition data_bytes :: "sst_entry list \<Rightarrow> byte list" where
  "data_bytes es = concat (map sst_entry_bytes es)"

definition index_bytes :: "index_entry list \<Rightarrow> byte list" where
  "index_bytes index = be_bytes 4 (length index) @ concat (map index_entry_bytes index)"

definition table_bytes :: "nat \<Rightarrow> nat \<Rightarrow> sst_entry list \<Rightarrow> index_entry list \<Rightarrow> bloom_filter \<Rightarrow> byte list" where
  "table_bytes fileNumber now es index bloom =
     (let indexOffset = length (data_bytes es);
          bloomOffset = indexOffset + length (index_bytes index)
      in data_bytes es @ index_bytes index @ bf_bytes bloom @
         wops_bytes (footer_writes fileNumber (length es) 0 indexOffset bloomOffset
           (se_key (hd es)) (se_key (last es)) now))"

definition table_meta :: "nat \<Rightarrow> nat \<Rightarrow> sst_entry list \<Rightarrow> index_entry list \<Rightarrow> bloom_filter \<Rightarrow> jstring \<Rightarrow> sst_meta" where
  "table_meta fileNumber now es index bloom path =
     \<lparr>sm_fileNumber = fileNumber, sm_filePath = path, sm_entryCount = length es,
      sm_firstKey = se_key (hd es), sm_lastKey = se_key (last es),
      sm_fileSize = length (table_bytes fileNumber now es index bloom), sm_createdAt = now,
      sm_indexOffset = length (data_bytes es), sm_dataOffset = 0,
      sm_bloomFilterOffset = Some (length (data_bytes es) + length (index_bytes index))\<rparr>"

lemma data_bytes_simps [simp]:
  "data_bytes [] = []" "data_bytes (e # es) = sst_entry_bytes e @ data_bytes es"
  "data_bytes (xs @ ys) = data_bytes xs @ data_bytes ys"
  by (simp_all add: data_bytes_def)

lemma length_data_bytes_le: "length es \<le> length (data_bytes es)"
  by (induction es) (auto simp: length_sst_entry_bytes sst_entrySize_def)

lemma write_entries_ok:
  assumes "\<forall>e\<in>set es. sst_entry_ok e"
  shows "write_entries interval mem i es st = Inr
    \<lparr>bs_currentOffset = bs_currentOffset st + length (data_bytes es),
     bs_bloom = fold bf_add (map se_key es) (bs_bloom st),
     bs_index = bs_index st @ sparse_index interval i (bs_currentOffset st) es,
     bs_out = bs_out st @ data_bytes es\<rparr>"
  using assms
  by (induction es arbitrary: i st) (auto simp: Let_def sst_serializeEntry_ok length_sst_entry_bytes)

text \<open>Each index entry points at the start of the entry with its key.\<close>

lemma sparse_index_split:
  assumes "x \<in> set (sparse_index interval i off es)"
  obtains xs e ys where "es = xs @ e # ys" "ix_key x = se_key e"
    "ix_offset x = off + length (data_bytes xs)"
  using assms
proof (induction es arbitrary: i off thesis)
  case (Cons e es)
  from Cons.prems(2) consider "x = \<lparr>ix_key = se_key e, ix_offset = off\<rparr>" |
    "x \<in> set (sparse_index interval (Suc i) (off + sst_entrySize e) es)"
    by (auto split: if_splits)
  then show ?case
  proof cases
    case 1
    then show ?thesis using Cons.prems(1) [of "[]" e es] by simp
  next
    case 2
    then obtain xs e' ys where "es = xs @ e' # ys" "ix_key x = se_key e'"
      "ix_offset x = off + sst_entrySize e + length (data_bytes xs)"
      using Cons.IH by blast
    then show ?thesis
      using Cons.prems(1) [of "e # xs" e' ys] by (simp add: length_sst_entry_bytes)
  qed
qed simp

lemma sparse_index_keys: "ix_key ` set (sparse_index interval i off es) \<subseteq> se_key ` set es"
  by (induction es arbitrary: i off) auto

lemma sparse_index_ordered:
  "ordered_by se_key es \<Longrightarrow> ordered_by ix_key (sparse_index interval i off es)"
proof (induction es arbitrary: i off)
  case (Cons e es)
  have "se_key e < ix_key x" if "x \<in> set (sparse_index interval (Suc i) o' es)" for x o'
    using that sparse_index_keys Cons.prems by fastforce
  with Cons show ?case by (auto simp: ordered_by_append)
qed simp

lemma length_sparse_index: "length (sparse_index interval i off es) \<le> length es"
proof (induction es arbitrary: i off)
  case (Cons e es)
  show ?case using Cons [of "Suc i" "off + sst_entrySize e"] by simp
qed simp

text \<open>The entries a writer may hold: their count, sizes and clock fit the fields of the file.\<close>

definition table_ok :: "nat \<Rightarrow> nat \<Rightarrow> sst_entry list \<Rightarrow> bool" where
  "table_ok fileNumber now es \<longleftrightarrow>
     es \<noteq> [] \<and> ordered_by se_key es \<and> (\<forall>e\<in>set es. sst_entry_ok e) \<and>
     28 * length es < 4294967296 \<and> length (data_bytes es) \<le> 2 ^ 52 \<and>
     fileNumber < 4294967296 \<and> now \<le> 2 ^ 53"

lemma index_entry_ok_sparse:
  assumes "\<forall>e\<in>set es. sst_entry_ok e" "off + length (data_bytes es) \<le> 2 ^ 53"
    "x \<in> set (sparse_index interval i off es)"
  shows "index_entry_ok x"
proof (rule sparse_index_split [OF assms(3)])
  fix xs e ys
  assume "es = xs @ e # ys" "ix_key x = se_key e" "ix_offset x = off + length (data_bytes xs)"
  then show ?thesis using assms(1,2) by (auto simp: index_entry_ok_def sst_entry_ok_def)
qed

lemma length_index_bytes_bound:
  assumes "\<forall>x\<in>set index. length (utf8 (ix_key x)) < 65536"
  shows "length (index_bytes index) \<le> 4 + 65546 * length index"
proof -
  have "length (concat (map index_entry_bytes index)) \<le> 65546 * length index"
    using assms by (induction index) (auto simp: length_index_entry_bytes)
  then show ?thesis by (simp add: index_bytes_def)
qed

text \<open>The index, the filter and the sizes of the file that \<open>build\<close> writes.\<close>

definition table_parts :: "sst_entry list \<Rightarrow> index_entry list \<Rightarrow> bloom_filter \<Rightarrow> bool" where
  "table_parts es index bloom \<longleftrightarrow>
     (\<exists>interval. index = sparse_index interval 0 0 es) \<and> bf_invar bloom \<and>
     bf_numBits bloom < 4294967296 \<and> bf_numHashFunctions bloom < 4294967296 \<and>
     (\<forall>e\<in>set es. mightContain bloom (se_key e))"

lemma table_parts_index:
  assumes "table_ok n now es" "table_parts es index bloom"
  shows "\<forall>x\<in>set index. index_entry_ok x" "length index < 4294967296"
    "length (index_bytes index) \<le> 2 ^ 52" "ordered_by ix_key index"
proof -
  obtain iv where iv: "index = sparse_index iv 0 0 es"
    using assms(2) by (auto simp: table_parts_def)
  have "length index \<le> length es" unfolding iv by (rule length_sparse_index)
  then have small: "28 * length index < 4294967296"
    using assms(1) by (simp add: table_ok_def)
  then show "length index < 4294967296" by simp
  show ok: "\<forall>x\<in>set index. index_entry_ok x"
    unfolding iv using assms(1) by (auto simp: table_ok_def intro!: index_entry_ok_sparse)
  have "length (index_bytes index) \<le> 4 + 65546 * length index"
    using ok by (intro length_index_bytes_bound) (simp add: index_entry_ok_def)
  also have "\<dots> \<le> 2 ^ 52" using small by simp
  finally show "length (index_bytes index) \<le> 2 ^ 52" .
  show "ordered_by ix_key index"
    unfolding iv using assms(1) by (intro sparse_index_ordered) (simp add: table_ok_def)
qed

lemma build_file_ok:
  assumes ok: "table_ok (sw_fileNumber w) now (sw_entries w)" and "sw_sparseIndex w = []"
    and "cf_falsePositiveRate (sw_config w) < 1"
  obtains index bloom where "table_parts (sw_entries w) index bloom"
    "build_file mem now w path =
       Inr (table_bytes (sw_fileNumber w) now (sw_entries w) index bloom,
            table_meta (sw_fileNumber w) now (sw_entries w) index bloom path, index)"
proof -
  let ?es = "sw_entries w"
  have es: "?es \<noteq> []" "\<forall>e\<in>set ?es. sst_entry_ok e" using ok by (auto simp: table_ok_def)
  obtain f where f: "bf_create (length ?es) (cf_falsePositiveRate (sw_config w)) = Inr f"
    "bf_invar f" "bf_numBits f \<le> 28 * max (length ?es) 1" "bf_numHashFunctions f \<le> 28"
    by (rule bf_create_ok [OF assms(3)])
  define bloom where "bloom = fold bf_add (map se_key ?es) f"
  define index where "index = sparse_index (cf_sparseIndexInterval (sw_config w)) 0 0 ?es"
  have "bf_numBits (fold bf_add ks f) = bf_numBits f \<and>
      bf_numHashFunctions (fold bf_add ks f) = bf_numHashFunctions f" for ks f
    by (induction ks arbitrary: f) auto
  then have same: "bf_numBits bloom = bf_numBits f" "bf_numHashFunctions bloom = bf_numHashFunctions f"
    by (simp_all add: bloom_def)
  have "1 \<le> length ?es" using es(1) by (cases ?es) auto
  then have "28 * max (length ?es) 1 < 4294967296"
    using ok by (simp add: table_ok_def)
  then have size: "bf_numBits bloom < 4294967296" "bf_numHashFunctions bloom < 4294967296"
    using f(3,4) same by linarith+
  have parts: "table_parts ?es index bloom"
    unfolding table_parts_def using size bloom.add_all [OF f(2)]
    by (auto simp: index_def bloom_def)
  note idx = table_parts_index [OF ok parts]
  have serial: "bf_serialize bloom = Inr (bf_bytes bloom)"
    using parts by (intro bf_serialize_ok) (auto simp: table_parts_def)
  have data: "write_entries (cf_sparseIndexInterval (sw_config w)) mem 0 ?es
      \<lparr>bs_currentOffset = 0, bs_bloom = f, bs_index = [], bs_out = []\<rparr> =
    Inr \<lparr>bs_currentOffset = length (data_bytes ?es), bs_bloom = bloom, bs_index = index,
         bs_out = data_bytes ?es\<rparr>"
    using write_entries_ok [OF es(2)] by (simp add: bloom_def index_def)
  have index: "map_res (serializeIndexEntry mem) index = Inr (map index_entry_bytes index)"
    using idx(1) by (intro map_res_Inr serializeIndexEntry_ok) simp
  have count: "serialize_writes mem 4 [WU32 (length index)] = Inr (be_bytes 4 (length index))"
    using idx(2) by (subst serialize_writes_eq) auto
  have keys: "length (utf8 (se_key (hd ?es))) < 65536" "length (utf8 (se_key (last ?es))) < 65536"
    using es by (auto simp: sst_entry_ok_def)
  have "length (data_bytes ?es) \<le> 2 ^ 52" "sw_fileNumber w < 4294967296" "now \<le> 2 ^ 53"
    "length ?es < 4294967296"
    using ok by (auto simp: table_ok_def)
  then have footer: "serializeFooter mem (sw_fileNumber w) (length ?es) 0 (length (data_bytes ?es))
      (length (data_bytes ?es) + length (index_bytes index)) (se_key (hd ?es)) (se_key (last ?es)) now =
    Inr (wops_bytes (footer_writes (sw_fileNumber w) (length ?es) 0 (length (data_bytes ?es))
      (length (data_bytes ?es) + length (index_bytes index)) (se_key (hd ?es)) (se_key (last ?es)) now))"
    using idx(3) keys by (intro serializeFooter_ok) auto
  have "build_file mem now w path =
       Inr (table_bytes (sw_fileNumber w) now ?es index bloom,
            table_meta (sw_fileNumber w) now ?es index bloom path, index)"
    unfolding build_file_def Let_def f(1) assms(2)
    using es(1) footer
    by (simp add: data index count serial hd_conv_nth last_conv_nth table_bytes_def table_meta_def
        index_bytes_def Let_def add.assoc)
  then show thesis using that parts by blast
qed

text \<open>Adding entries in order succeeds; out of order it is refused.\<close>

lemma sw_add_all_ok:
  assumes "\<not> sw_built w" "ordered_by se_key (sw_entries w @ es)"
    "sw_lastKey w = (if sw_entries w = [] then None else Some (se_key (last (sw_entries w))))"
  shows "sw_add_all es w = Inr (w\<lparr>sw_entries := sw_entries w @ es,
     sw_lastKey := (if sw_entries w @ es = [] then None else Some (se_key (last (sw_entries w @ es))))\<rparr>)"
  using assms
proof (induction es arbitrary: w)
  case (Cons e es)
  let ?w = "w\<lparr>sw_entries := sw_entries w @ [e], sw_lastKey := Some (se_key e)\<rparr>"
  have "sw_add e w = Inr ?w"
    using Cons.prems by (auto simp: sw_add_def ordered_by_append not_le)
  moreover have "sw_add_all es ?w = Inr (?w\<lparr>sw_entries := sw_entries ?w @ es,
      sw_lastKey := (if sw_entries ?w @ es = [] then None else Some (se_key (last (sw_entries ?w @ es))))\<rparr>)"
    using Cons.prems by (intro Cons.IH) auto
  ultimately show ?case by simp
qed simp

lemma sw_add_all_refused:
  assumes "\<not> sw_built w" "ordered_by se_key (sw_entries w)" "\<not> ordered_by se_key (sw_entries w @ es)"
    "sw_lastKey w = (if sw_entries w = [] then None else Some (se_key (last (sw_entries w))))"
  shows "sw_add_all es w = Inl KeysNotSorted"
  using assms
proof (induction es arbitrary: w)
  case (Cons e es)
  let ?w = "w\<lparr>sw_entries := sw_entries w @ [e], sw_lastKey := Some (se_key e)\<rparr>"
  show ?case
  proof (cases "sw_entries w \<noteq> [] \<and> se_key e \<le> se_key (last (sw_entries w))")
    case True
    then show ?thesis using Cons.prems by (simp add: sw_add_def)
  next
    case False
    then have ok: "sw_add e w = Inr ?w" using Cons.prems by (auto simp: sw_add_def)
    have "ordered_by se_key (sw_entries w @ [e])"
    proof (cases "sw_entries w = []")
      case f: False
      then have "se_key (last (sw_entries w)) < se_key e" using False by auto
      then show ?thesis
        using Cons.prems(2) ordered_by_hd_last [OF Cons.prems(2)] by (force simp: ordered_by_append)
    qed simp
    then have "sw_add_all es ?w = Inl KeysNotSorted"
      using Cons.prems by (intro Cons.IH) auto
    then show ?thesis using ok by simp
  qed
qed simp

text \<open>Building puts the whole table under its final name and leaves no temporary file.\<close>

lemma sw_build_ok:
  assumes "table_ok (sw_fileNumber w) now (sw_entries w)" "sw_sparseIndex w = []" "\<not> sw_built w"
    and "cf_falsePositiveRate (sw_config w) < 1"
  obtains w' index bloom where "table_parts (sw_entries w) index bloom"
    "sw_build mem now w fs =
       (Inr (table_meta (sw_fileNumber w) now (sw_entries w) index bloom
          (sst_path (cf_dataDir (sw_config w)) (sw_fileNumber w))), w',
        fs(temp_path (sst_path (cf_dataDir (sw_config w)) (sw_fileNumber w)) := None,
           sst_path (cf_dataDir (sw_config w)) (sw_fileNumber w) \<mapsto>
             table_bytes (sw_fileNumber w) now (sw_entries w) index bloom))"
proof -
  let ?path = "sst_path (cf_dataDir (sw_config w)) (sw_fileNumber w)"
  let ?w = "w\<lparr>sw_built := True, sw_tempFilePath := Some (temp_path ?path)\<rparr>"
  obtain index bloom where b: "table_parts (sw_entries w) index bloom"
    "build_file mem now ?w ?path =
       Inr (table_bytes (sw_fileNumber w) now (sw_entries w) index bloom,
            table_meta (sw_fileNumber w) now (sw_entries w) index bloom ?path, index)"
    using build_file_ok [of ?w now mem ?path] assms by auto
  moreover have "sw_entries w \<noteq> []" using assms(1) by (simp add: table_ok_def)
  ultimately show thesis
    using that assms(3) by (simp add: sw_build_def Let_def)
qed

text \<open>A new writer accepts a list of entries exactly when their keys strictly ascend.\<close>

lemma writer_rejects_unsorted:
  shows "(\<exists>w. sw_add_all es (new_writer n cfg) = Inr w) = ordered_by se_key es \<and>
    (\<not> ordered_by se_key es \<longrightarrow> sw_add_all es (new_writer n cfg) = Inl KeysNotSorted)"
  using sw_add_all_ok [of "new_writer n cfg" es] sw_add_all_refused [of "new_writer n cfg" es]
  by (cases "ordered_by se_key es") (auto simp: new_writer_def)

end
