(* ===== verification/SSTable_Reader.thy ===== *)
theory SSTable_Reader
  imports SSTable_Writer
begin

text \<open>
  The reader of sorted tables (src/src/storage/sstable/SSTableReader.ts): opening a file
  (footer, sparse index, Bloom filter), the point lookup by binary search in the sparse index
  and a scan, and the range iteration. What the store relies on is the locale \<open>sorted_table\<close>.
\<close>

section \<open>State\<close>

text \<open>
  The environment of the reads: the content of fresh \<open>allocUnsafe\<close> buffers and the largest
  size that can be allocated and read at once; a larger one throws.
\<close>

record read_env =
  env_mem :: "nat \<Rightarrow> byte"
  env_limit :: nat

record reader_state =
  rs_handle :: "byte list"
  rs_fileSize :: nat
  rs_metadata :: sst_meta
  rs_sparseIndex :: "index_entry list"
  rs_bloomFilter :: "bloom_filter option"

record sst_reader =
  rd_filePath :: jstring
  rd_state :: "reader_state option"

definition new_reader :: "jstring \<Rightarrow> sst_reader" where
  "new_reader path = \<lparr>rd_filePath = path, rd_state = None\<rparr>"

text \<open>\<open>allocUnsafe(n)\<close> and \<open>handle.read(buf, 0, n, pos)\<close>.\<close>

definition read_file :: "read_env \<Rightarrow> byte list \<Rightarrow> nat \<Rightarrow> nat \<Rightarrow> buffer res" where
  "read_file env file pos n =
     (if env_limit env < n then Inl RangeError else Inr (read_at (env_mem env) file pos n))"

section \<open>Opening\<close>

text \<open>
  The position of the first read is negative for a file of fewer than eight bytes: position
  -1 means the current position, which is 0, and a smaller one throws.
\<close>

definition readFooter :: "read_env \<Rightarrow> jstring \<Rightarrow> byte list \<Rightarrow> sst_meta res" where
  "readFooter env path file =
     (let fileSize = length file in
      if fileSize < 7 then Inl RangeError else
      bind_res (read_file env file (fileSize - 8) 8) (\<lambda>tailBuf.
      bind_res (readUInt32BE tailBuf 0) (\<lambda>footerSize.
      bind_res (readUInt32BE tailBuf 4) (\<lambda>magic.
      if magic \<noteq> SSTABLE_MAGIC then Inl InvalidMagic
      else if fileSize < footerSize \<or> footerSize < 46 then Inl (InvalidFooterSize footerSize)
      else
      bind_res (read_file env file (fileSize - footerSize) footerSize) (\<lambda>footerBuf.
      bind_res (readUInt32BE footerBuf 0) (\<lambda>fileNumber.
      bind_res (readUInt32BE footerBuf 4) (\<lambda>entryCount.
      bind_res (readU64 footerBuf 8) (\<lambda>dataOffset.
      bind_res (readU64 footerBuf 16) (\<lambda>indexOffset.
      bind_res (readUInt16BE footerBuf (footerSize - 10)) (\<lambda>version.
      bind_res (if 2 \<le> version then bind_res (readU64 footerBuf 24) (\<lambda>b. Inr (Some b, 32))
                else Inr (None, 24)) (\<lambda>(bloomFilterOffset, pos).
      bind_res (readUInt16BE footerBuf pos) (\<lambda>firstKeyLen.
      let pos = pos + 2; firstKey = to_string footerBuf pos (pos + firstKeyLen);
          pos = pos + firstKeyLen in
      bind_res (readUInt16BE footerBuf pos) (\<lambda>lastKeyLen.
      let pos = pos + 2; lastKey = to_string footerBuf pos (pos + lastKeyLen);
          pos = pos + lastKeyLen in
      bind_res (readU64 footerBuf pos) (\<lambda>createdAt.
      Inr \<lparr>sm_fileNumber = fileNumber, sm_filePath = path, sm_entryCount = entryCount,
           sm_firstKey = firstKey, sm_lastKey = lastKey, sm_fileSize = fileSize,
           sm_createdAt = createdAt, sm_indexOffset = indexOffset, sm_dataOffset = dataOffset,
           sm_bloomFilterOffset = bloomFilterOffset\<rparr>))))))))))))))"

fun load_index :: "read_env \<Rightarrow> byte list \<Rightarrow> nat \<Rightarrow> nat \<Rightarrow> index_entry list res" where
  "load_index env file 0 off = Inr []"
| "load_index env file (Suc n) off =
     bind_res (read_file env file off 2) (\<lambda>keyLenBuf.
     bind_res (readUInt16BE keyLenBuf 0) (\<lambda>keyLen.
     let entrySize = 2 + keyLen + 8 in
     bind_res (read_file env file off entrySize) (\<lambda>entryBuf.
     bind_res (deserializeIndexEntry entryBuf 0) (\<lambda>(indexEntry, bytesRead).
     bind_res (load_index env file n (off + entrySize)) (\<lambda>index.
     Inr (indexEntry # index))))))"

definition loadSparseIndex :: "read_env \<Rightarrow> byte list \<Rightarrow> nat \<Rightarrow> index_entry list res" where
  "loadSparseIndex env file indexOffset =
     bind_res (read_file env file indexOffset 4) (\<lambda>countBuf.
     bind_res (readUInt32BE countBuf 0) (\<lambda>indexCount.
     load_index env file indexCount (indexOffset + 4)))"

definition loadBloomFilter :: "read_env \<Rightarrow> byte list \<Rightarrow> sst_meta \<Rightarrow> bloom_filter option res" where
  "loadBloomFilter env file meta =
     (case sm_bloomFilterOffset meta of
        None \<Rightarrow> Inr None
      | Some bloomFilterOffset \<Rightarrow>
          let footerStart = int (sm_fileSize meta) -
                int (calculateFooterSize (sm_firstKey meta) (sm_lastKey meta));
              bloomFilterSize = footerStart - int bloomFilterOffset
          in if bloomFilterSize \<le> 0 then Inr None
             else
               bind_res (read_file env file bloomFilterOffset (nat bloomFilterSize)) (\<lambda>bloomBuf.
               bind_res (bf_fromBuffer bloomBuf) (\<lambda>f. Inr (Some f))))"

definition reader_open :: "read_env \<Rightarrow> files \<Rightarrow> sst_reader \<Rightarrow> sst_reader res" where
  "reader_open env fs r =
     (case rd_state r of
        Some st \<Rightarrow> Inl ReaderAlreadyOpen
      | None \<Rightarrow>
          (case fs (rd_filePath r) of
             None \<Rightarrow> Inl FileNotFound
           | Some file \<Rightarrow>
               bind_res (readFooter env (rd_filePath r) file) (\<lambda>metadata.
               bind_res (loadSparseIndex env file (sm_indexOffset metadata)) (\<lambda>sparseIndex.
               bind_res (loadBloomFilter env file metadata) (\<lambda>bloomFilter.
               Inr (r\<lparr>rd_state := Some \<lparr>rs_handle = file, rs_fileSize = length file,
                 rs_metadata = metadata, rs_sparseIndex = sparseIndex,
                 rs_bloomFilter = bloomFilter\<rparr>\<rparr>))))))"

definition openFile :: "read_env \<Rightarrow> files \<Rightarrow> jstring \<Rightarrow> sst_reader res" where
  "openFile env fs path = reader_open env fs (new_reader path)"

definition isOpen :: "sst_reader \<Rightarrow> bool" where
  "isOpen r \<longleftrightarrow> rd_state r \<noteq> None"

definition reader_close :: "sst_reader \<Rightarrow> sst_reader" where
  "reader_close r = r\<lparr>rd_state := None\<rparr>"

section \<open>Lookups\<close>

definition ensureOpen :: "sst_reader \<Rightarrow> reader_state res" where
  "ensureOpen r = (case rd_state r of None \<Rightarrow> Inl ReaderNotOpen | Some st \<Rightarrow> Inr st)"

definition getMetadata :: "sst_reader \<Rightarrow> sst_meta res" where
  "getMetadata r = bind_res (ensureOpen r) (\<lambda>st. Inr (rs_metadata st))"

definition isInRange :: "sst_reader \<Rightarrow> jstring \<Rightarrow> bool res" where
  "isInRange r key =
     bind_res (ensureOpen r) (\<lambda>st.
     Inr (sm_firstKey (rs_metadata st) \<le> key \<and> key \<le> sm_lastKey (rs_metadata st)))"

definition mayContain :: "sst_reader \<Rightarrow> jstring \<Rightarrow> bool res" where
  "mayContain r key =
     bind_res (ensureOpen r) (\<lambda>st.
     bind_res (isInRange r key) (\<lambda>inRange.
     if \<not> inRange then Inr False
     else (case rs_bloomFilter st of None \<Rightarrow> Inr True | Some f \<Rightarrow> Inr (mightContain f key))))"

text \<open>The header is read as if the value length followed the key length.\<close>

definition readEntryAt :: "read_env \<Rightarrow> byte list \<Rightarrow> nat \<Rightarrow> (sst_entry \<times> nat) res" where
  "readEntryAt env file off =
     bind_res (read_file env file off 6) (\<lambda>headerBuf.
     bind_res (readUInt16BE headerBuf 0) (\<lambda>keyLen.
     bind_res (readUInt32BE headerBuf 2) (\<lambda>valueLen.
     let entrySize = 2 + keyLen + 4 + valueLen + 8 + 1 in
     bind_res (read_file env file off entrySize) (\<lambda>entryBuf.
     sst_deserializeEntry entryBuf 0))))"

lemma readEntryAt_size: "readEntryAt env file off = Inr (e, n) \<Longrightarrow> 0 < n"
  by (auto simp: readEntryAt_def bind_res_eq_Inr Let_def dest: sst_deserializeEntry_size)

function search_index :: "index_entry list \<Rightarrow> jstring \<Rightarrow> int \<Rightarrow> int \<Rightarrow> nat \<Rightarrow> nat" where
  "search_index index key left right found =
     (if left \<le> right then
        let mid = (left + right) div 2; indexEntry = index ! nat mid in
        if ix_key indexEntry \<le> key then search_index index key (mid + 1) right (ix_offset indexEntry)
        else search_index index key left (mid - 1) found
      else found)"
  by pat_completeness auto
termination
  by (relation "measure (\<lambda>(index, key, left, right, found). nat (right - left + 1))") auto

declare search_index.simps [simp del]

definition findStartOffset :: "jstring \<Rightarrow> index_entry list \<Rightarrow> nat \<Rightarrow> nat" where
  "findStartOffset key sparseIndex dataOffset =
     (if sparseIndex = [] then dataOffset
      else search_index sparseIndex key 0 (int (length sparseIndex) - 1) dataOffset)"

function get_from :: "read_env \<Rightarrow> byte list \<Rightarrow> jstring \<Rightarrow> nat \<Rightarrow> nat \<Rightarrow> sst_entry option res" where
  "get_from env file key endOffset off =
     (if off < endOffset then
        (case readEntryAt env file off of
           Inl err \<Rightarrow> Inl err
         | Inr (entry, bytesRead) \<Rightarrow>
             if se_key entry = key then Inr (Some entry)
             else if key < se_key entry then Inr None
             else get_from env file key endOffset (off + bytesRead))
      else Inr None)"
  by pat_completeness auto
termination
  by (relation "measure (\<lambda>(env, file, key, endOffset, off). endOffset - off)")
    (auto dest!: readEntryAt_size)

declare get_from.simps [simp del]

definition reader_get :: "read_env \<Rightarrow> sst_reader \<Rightarrow> jstring \<Rightarrow> sst_entry option res" where
  "reader_get env r key =
     bind_res (ensureOpen r) (\<lambda>st.
     bind_res (isInRange r key) (\<lambda>inRange.
     if \<not> inRange then Inr None
     else get_from env (rs_handle st) key (sm_indexOffset (rs_metadata st))
            (findStartOffset key (rs_sparseIndex st) (sm_dataOffset (rs_metadata st)))))"

text \<open>The entries yielded, and the error that ended the iteration, if any.\<close>

function scan_from ::
  "read_env \<Rightarrow> byte list \<Rightarrow> jstring \<Rightarrow> jstring \<Rightarrow> nat \<Rightarrow> nat \<Rightarrow> sst_entry list \<times> js_error option" where
  "scan_from env file startKey endKey endOffset off =
     (if off < endOffset then
        (case readEntryAt env file off of
           Inl err \<Rightarrow> ([], Some err)
         | Inr (entry, bytesRead) \<Rightarrow>
             if se_key entry < startKey then scan_from env file startKey endKey endOffset (off + bytesRead)
             else if endKey < se_key entry then ([], None)
             else let (es, err) = scan_from env file startKey endKey endOffset (off + bytesRead)
                  in (entry # es, err))
      else ([], None))"
  by pat_completeness auto
termination
  by (relation "measure (\<lambda>(env, file, startKey, endKey, endOffset, off). endOffset - off)")
    (auto dest!: readEntryAt_size)

declare scan_from.simps [simp del]

definition reader_iterate ::
  "read_env \<Rightarrow> sst_reader \<Rightarrow> jstring option \<Rightarrow> jstring option \<Rightarrow> sst_entry list \<times> js_error option" where
  "reader_iterate env r startKey endKey =
     (case ensureOpen r of
        Inl err \<Rightarrow> ([], Some err)
      | Inr st \<Rightarrow>
          let meta = rs_metadata st;
              effectiveStart = (case startKey of Some k \<Rightarrow> k | None \<Rightarrow> sm_firstKey meta);
              effectiveEnd = (case endKey of Some k \<Rightarrow> k | None \<Rightarrow> sm_lastKey meta)
          in if sm_lastKey meta < effectiveStart \<or> effectiveEnd < sm_firstKey meta then ([], None)
             else scan_from env (rs_handle st) effectiveStart effectiveEnd (sm_indexOffset meta)
                    (findStartOffset effectiveStart (rs_sparseIndex st) (sm_dataOffset meta)))"

section \<open>The binary search\<close>

text \<open>It finds the offset of the last index entry whose key is not greater.\<close>

definition last_offset :: "jstring \<Rightarrow> index_entry list \<Rightarrow> nat \<Rightarrow> nat" where
  "last_offset key index start =
     (case filter (\<lambda>x. ix_key x \<le> key) index of [] \<Rightarrow> start | xs \<Rightarrow> ix_offset (last xs))"

lemma last_offset_prefix:
  assumes "n \<le> length index" "\<forall>x\<in>set (take n index). ix_key x \<le> key"
    "\<forall>x\<in>set (drop n index). key < ix_key x"
  shows "last_offset key index start = (if n = 0 then start else ix_offset (index ! (n - 1)))"
proof -
  have "filter (\<lambda>x. ix_key x \<le> key) index =
      filter (\<lambda>x. ix_key x \<le> key) (take n index) @ filter (\<lambda>x. ix_key x \<le> key) (drop n index)"
    by (metis append_take_drop_id filter_append)
  also have "\<dots> = take n index"
    using assms by (auto simp: filter_empty_conv not_le intro!: filter_True)
  finally have f: "filter (\<lambda>x. ix_key x \<le> key) index = take n index" .
  show ?thesis
  proof (cases "n = 0")
    case False
    then have "take n index \<noteq> []" using assms(1) by auto
    moreover from this have "last (take n index) = index ! (n - 1)"
      using assms(1) False by (simp add: last_conv_nth)
    ultimately show ?thesis
      using False f by (cases "take n index") (auto simp: last_offset_def)
  qed (simp add: last_offset_def f)
qed

lemma search_index_correct:
  assumes "ordered_by ix_key index" "0 \<le> left" "left \<le> right + 1" "right < int (length index)"
    and "\<forall>x\<in>set (take (nat left) index). ix_key x \<le> key"
    and "\<forall>x\<in>set (drop (nat (right + 1)) index). key < ix_key x"
    and "found = (if left = 0 then start else ix_offset (index ! (nat left - 1)))"
  shows "search_index index key left right found = last_offset key index start"
  using assms
proof (induction index key left right found rule: search_index.induct)
  case (1 index key left right found)
  show ?case
  proof (cases "left \<le> right")
    case False
    then have "search_index index key left right found = found" "left = right + 1"
      using "1.prems"(3) by (simp_all add: search_index.simps [of index key left right found])
    then show ?thesis
      using last_offset_prefix [of "nat left" index key start] "1.prems" by auto
  next
    case True
    define mid where "mid = (left + right) div 2"
    have mid: "left \<le> mid" "mid \<le> right" using True by (auto simp: mid_def)
    then have bound: "nat mid < length index" "0 \<le> mid" using "1.prems" by auto
    show ?thesis
    proof (cases "ix_key (index ! nat mid) \<le> key")
      case le: True
      have "ix_key x \<le> key" if "x \<in> set (take (nat (mid + 1)) index)" for x
      proof -
        obtain i where "i < nat (mid + 1)" "x = index ! i" "i < length index"
          using \<open>x \<in> _\<close> by (auto simp: in_set_conv_nth)
        then have "ix_key x \<le> ix_key (index ! nat mid)"
          using ordered_by_nth_le [OF "1.prems"(1), of i "nat mid"] bound by auto
        then show ?thesis using le by simp
      qed
      then have "search_index index key (mid + 1) right (ix_offset (index ! nat mid)) =
          last_offset key index start"
        using "1.IH"(1) [OF True mid_def refl le] "1.prems" mid bound by (auto simp: nat_add_distrib)
      then show ?thesis
        using True le by (simp add: search_index.simps [of index key left right found] mid_def Let_def)
    next
      case gt: False
      have "key < ix_key x" if "x \<in> set (drop (nat mid) index)" for x
      proof -
        obtain i where "i < length index - nat mid" "x = index ! (nat mid + i)"
          using \<open>x \<in> _\<close> by (auto simp: in_set_conv_nth)
        then have "ix_key (index ! nat mid) \<le> ix_key x"
          using ordered_by_nth_le [OF "1.prems"(1), of "nat mid" "nat mid + i"] bound by auto
        then show ?thesis using gt by simp
      qed
      then have "search_index index key left (mid - 1) found = last_offset key index start"
        using "1.IH"(2) [OF True mid_def refl gt] "1.prems" mid bound by auto
      then show ?thesis
        using True gt by (simp add: search_index.simps [of index key left right found] mid_def Let_def)
    qed
  qed
qed

lemma findStartOffset_last:
  assumes "ordered_by ix_key index"
  shows "findStartOffset key index start = last_offset key index start"
proof (cases "index = []")
  case False
  then have "search_index index key 0 (int (length index) - 1) start = last_offset key index start"
    using assms by (intro search_index_correct) auto
  then show ?thesis using False by (simp add: findStartOffset_def)
qed (simp add: findStartOffset_def last_offset_def)

text \<open>
  The search that gives up after a number of turns: as many as the length of the index has binary
  digits, and one for the test at the end, are enough.
\<close>

primrec search_within :: "nat \<Rightarrow> index_entry list \<Rightarrow> jstring \<Rightarrow> int \<Rightarrow> int \<Rightarrow> nat \<Rightarrow> nat option" where
  "search_within 0 index key left right found = None"
| "search_within (Suc n) index key left right found =
     (if left \<le> right then
        let mid = (left + right) div 2; indexEntry = index ! nat mid in
        if ix_key indexEntry \<le> key then search_within n index key (mid + 1) right (ix_offset indexEntry)
        else search_within n index key left (mid - 1) found
      else Some found)"

lemma search_within_bound:
  "right - left + 1 < 2 ^ n \<Longrightarrow>
   search_within (Suc n) index key left right found = Some (search_index index key left right found)"
proof (induction n arbitrary: left right found)
  case (Suc n)
  show ?case
  proof (cases "left \<le> right")
    case True
    let ?mid = "(left + right) div 2"
    have "right - (?mid + 1) + 1 < 2 ^ n" "(?mid - 1) - left + 1 < 2 ^ n"
      using Suc.prems True by (simp_all add: algebra_simps)
    then show ?thesis
      using Suc.IH [of right "?mid + 1"] Suc.IH [of "?mid - 1" left] True
      by (simp add: search_index.simps [of index key left right found] Let_def)
  qed (simp add: search_index.simps)
qed (simp add: search_index.simps)

text \<open>In a table, the scan starts at an entry before which every key is smaller.\<close>

lemma findStartOffset_split:
  assumes "ordered_by se_key es" "index = sparse_index interval 0 0 es"
  obtains xs ys where "es = xs @ ys" "findStartOffset key index 0 = length (data_bytes xs)"
    "\<forall>e\<in>set xs. se_key e < key"
proof -
  have find: "findStartOffset key index 0 = last_offset key index 0"
    using assms by (intro findStartOffset_last) (simp add: sparse_index_ordered)
  show thesis
  proof (cases "filter (\<lambda>x. ix_key x \<le> key) index = []")
    case True
    then show ?thesis using that [of "[]" es] find by (simp add: last_offset_def)
  next
    case False
    define x where "x = last (filter (\<lambda>x. ix_key x \<le> key) index)"
    have "x \<in> set (filter (\<lambda>x. ix_key x \<le> key) index)"
      using False unfolding x_def by (rule last_in_set)
    then have x: "x \<in> set index" "ix_key x \<le> key" by auto
    obtain xs e ys where e: "es = xs @ e # ys" "ix_key x = se_key e"
      "ix_offset x = 0 + length (data_bytes xs)"
      using sparse_index_split x(1) unfolding assms(2) by blast
    have "findStartOffset key index 0 = ix_offset x"
      using False find by (auto simp: last_offset_def x_def split: list.splits)
    moreover have "\<forall>d\<in>set xs. se_key d < key"
      using assms(1) x(2) e(1,2) by (auto simp: ordered_by_append intro: less_le_trans)
    ultimately show ?thesis using that [of xs "e # ys"] e by simp
  qed
qed

section \<open>Opening a file that the writer built\<close>

lemma read_file_ok: "n \<le> env_limit env \<Longrightarrow> read_file env file pos n = Inr (read_at (env_mem env) file pos n)"
  by (simp add: read_file_def)

lemma load_index_ok:
  assumes "\<forall>x\<in>set index. index_entry_ok x" "65545 \<le> env_limit env"
  shows "load_index env (pre @ concat (map index_entry_bytes index) @ post) (length index) (length pre) =
    Inr index"
  using assms(1)
proof (induction index arbitrary: pre)
  case (Cons x index)
  let ?file = "pre @ concat (map index_entry_bytes (x # index)) @ post"
  let ?k = "utf8 (ix_key x)"
  have whole: "?file = pre @ index_entry_bytes x @ (concat (map index_entry_bytes index) @ post)"
    by simp
  have k: "length ?k < 65536" using Cons.prems by (simp add: index_entry_ok_def)
  have split: "index_entry_bytes x = be_bytes 2 (length ?k) @ (?k @ be_bytes 8 (ix_offset x))"
    by (simp add: index_entry_bytes_def index_writes_def)
  have "holds_at (read_at (env_mem env) ?file (length pre) 2) 0 (be_bytes 2 (length ?k))"
    unfolding whole split append.assoc by (rule holds_at_read_at) simp_all
  then have len: "readUInt16BE (read_at (env_mem env) ?file (length pre) 2) 0 = Inr (length ?k)"
    using k by (intro read_uint_be) auto
  have "holds_at (read_at (env_mem env) ?file (length pre) (2 + length ?k + 8)) 0 (index_entry_bytes x)"
    unfolding whole by (rule holds_at_read_at) (simp_all add: length_index_entry_bytes)
  then have entry: "deserializeIndexEntry (read_at (env_mem env) ?file (length pre) (2 + length ?k + 8)) 0 =
      Inr (x, length (index_entry_bytes x))"
    using Cons.prems by (intro deserializeIndexEntry_holds) auto
  have rest: "load_index env ?file (length index) (length pre + (2 + length ?k + 8)) = Inr index"
    using Cons.IH [of "pre @ index_entry_bytes x"] Cons.prems
    by (simp add: length_index_entry_bytes add.assoc)
  show ?case
    using k assms(2) len entry rest by (simp add: read_file_ok Let_def)
qed simp

lemma loadSparseIndex_ok:
  assumes "\<forall>x\<in>set index. index_entry_ok x" "65545 \<le> env_limit env" "length index < 4294967296"
  shows "loadSparseIndex env (pre @ index_bytes index @ post) (length pre) = Inr index"
proof -
  let ?file = "pre @ index_bytes index @ post"
  have "holds_at (read_at (env_mem env) ?file (length pre) 4) 0 (be_bytes 4 (length index))"
    unfolding index_bytes_def append.assoc by (rule holds_at_read_at) simp_all
  then have "readUInt32BE (read_at (env_mem env) ?file (length pre) 4) 0 = Inr (length index)"
    using assms(3) by (intro read_uint_be) auto
  moreover have "load_index env ?file (length index) (length pre + 4) = Inr index"
    using load_index_ok [OF assms(1,2), of "pre @ be_bytes 4 (length index)" post]
    by (simp add: index_bytes_def)
  ultimately show ?thesis
    using assms(2) by (simp add: loadSparseIndex_def read_file_ok)
qed

text \<open>The footer, at the end of the file.\<close>

lemma readFooter_ok:
  fixes n c d i b f l t
  defines "foot \<equiv> wops_bytes (footer_writes n c d i b f l t)"
  assumes "n < 4294967296" "c < 4294967296" "d \<le> 2 ^ 53" "i \<le> 2 ^ 53" "b \<le> 2 ^ 53" "t \<le> 2 ^ 53"
    and "well_formed f" "length (utf8 f) < 65536" "well_formed l" "length (utf8 l) < 65536"
    and limit: "131124 \<le> env_limit env"
  shows "readFooter env path (pre @ foot) = Inr
    \<lparr>sm_fileNumber = n, sm_filePath = path, sm_entryCount = c, sm_firstKey = f, sm_lastKey = l,
     sm_fileSize = length (pre @ foot), sm_createdAt = t, sm_indexOffset = i, sm_dataOffset = d,
     sm_bloomFilterOffset = Some b\<rparr>"
proof -
  let ?file = "pre @ foot" and ?size = "54 + length (utf8 f) + length (utf8 l)"
  have len: "length foot = ?size"
    by (simp add: foot_def length_footer_bytes calculateFooterSize_def)
  define body where "body = wops_bytes [WU32 n, WU32 c, WU64 d, WU64 i, WU64 b,
      WU16 (length (utf8 f)), WBytes (utf8 f), WU16 (length (utf8 l)), WBytes (utf8 l),
      WU64 t, WU16 SSTABLE_VERSION]"
  have foot: "foot = body @ be_bytes 4 ?size @ be_bytes 4 SSTABLE_MAGIC"
    by (simp add: foot_def body_def footer_writes_def)
  define tail where "tail = read_at (env_mem env) ?file (length ?file - 8) 8"
  have body: "length body = ?size - 8" using len foot by simp
  have "holds_at tail 0 (be_bytes 4 ?size @ be_bytes 4 SSTABLE_MAGIC)"
    using holds_at_read_at [of 8 "be_bytes 4 ?size @ be_bytes 4 SSTABLE_MAGIC" "length ?file - 8"
        "pre @ body" "env_mem env" "[]"] body len foot
    by (simp add: tail_def)
  then have t1: "readUInt32BE tail 0 = Inr ?size" and t2: "readUInt32BE tail 4 = Inr SSTABLE_MAGIC"
    using assms by (auto simp: holds_at_append SSTABLE_MAGIC_def intro!: read_uint_be)
  define fb where "fb = read_at (env_mem env) ?file (length ?file - ?size) ?size"
  have fb: "holds_at fb 0 foot"
    using holds_at_read_at [of ?size foot "length ?file - ?size" pre "env_mem env" "[]"] len
    by (simp add: fb_def)
  have parts: "holds_at fb 0 (be_bytes 4 n)" "holds_at fb 4 (be_bytes 4 c)"
    "holds_at fb 8 (be_bytes 8 d)" "holds_at fb 16 (be_bytes 8 i)" "holds_at fb 24 (be_bytes 8 b)"
    "holds_at fb 32 (be_bytes 2 (length (utf8 f)))" "holds_at fb 34 (utf8 f)"
    "holds_at fb (34 + length (utf8 f)) (be_bytes 2 (length (utf8 l)))"
    "holds_at fb (34 + length (utf8 f) + 2) (utf8 l)"
    "holds_at fb (34 + length (utf8 f) + 2 + length (utf8 l)) (be_bytes 8 t)"
    "holds_at fb (?size - 10) (be_bytes 2 SSTABLE_VERSION)"
    using fb by (simp_all add: foot_def footer_writes_def holds_at_append add.assoc)
  have version: "readUInt16BE fb (44 + (length (utf8 f) + length (utf8 l))) = Inr 2"
    using read_uint_be [OF parts(11)] by (simp add: SSTABLE_VERSION_def add.assoc)
  define data where "data = pre @ foot"
  have ge: "\<not> length data < 7" "\<not> length data < ?size" "8 \<le> env_limit env" "?size \<le> env_limit env"
    using len limit assms(9,11) by (simp_all add: data_def)
  have reads: "read_file env data (length data - 8) 8 = Inr tail"
    "read_file env data (length data - ?size) ?size = Inr fb"
    using ge by (simp_all add: read_file_ok tail_def fb_def data_def)
  show ?thesis
    unfolding readFooter_def Let_def data_def [symmetric]
    using ge parts(1-10) assms(2-11) version t1 t2 reads
    by (simp add: read_uint_be readU64_be to_string_holds add.assoc)
qed

definition opened_reader ::
  "jstring \<Rightarrow> nat \<Rightarrow> nat \<Rightarrow> sst_entry list \<Rightarrow> index_entry list \<Rightarrow> bloom_filter \<Rightarrow> sst_reader" where
  "opened_reader path n now es index bloom =
     \<lparr>rd_filePath = path, rd_state = Some
        \<lparr>rs_handle = table_bytes n now es index bloom,
         rs_fileSize = length (table_bytes n now es index bloom),
         rs_metadata = table_meta n now es index bloom path,
         rs_sparseIndex = index, rs_bloomFilter = Some bloom\<rparr>\<rparr>"

lemma length_bf_bytes: "bf_invar f \<Longrightarrow> length (bf_bytes f) = 8 + byte_size (bf_numBits f)"
  by (simp add: bf_bytes_def bf_invar_def)

lemma loadBloomFilter_ok:
  assumes "bf_invar bloom" "bf_numBits bloom < 4294967296" "bf_numHashFunctions bloom < 4294967296"
    and "1073741824 \<le> env_limit env"
    and "sm_bloomFilterOffset meta = Some (length pre)"
    and "sm_fileSize meta = length pre + length (bf_bytes bloom) +
       calculateFooterSize (sm_firstKey meta) (sm_lastKey meta)"
  shows "loadBloomFilter env (pre @ bf_bytes bloom @ post) meta = Inr (Some bloom)"
proof -
  let ?b = "read_at (env_mem env) (pre @ bf_bytes bloom @ post) (length pre) (length (bf_bytes bloom))"
  have "holds_at ?b 0 (bf_bytes bloom)"
    by (rule holds_at_read_at) simp_all
  then have "bf_fromBuffer ?b = Inr bloom"
    using assms by (intro bf_fromBuffer_holds)
  moreover have "0 < length (bf_bytes bloom)" "length (bf_bytes bloom) \<le> env_limit env"
    using assms(2,4) by (simp_all add: length_bf_bytes assms(1) byte_size_def)
  ultimately show ?thesis
    by (simp add: loadBloomFilter_def assms(5,6) read_file_ok Let_def)
qed

lemma openFile_ok:
  assumes ok: "table_ok n now es" and parts: "table_parts es index bloom"
    and "fs path = Some (table_bytes n now es index bloom)" and limit: "1073741824 \<le> env_limit env"
  shows "openFile env fs path = Inr (opened_reader path n now es index bloom)"
proof -
  define data where "data = table_bytes n now es index bloom"
  let ?meta = "table_meta n now es index bloom path"
  let ?io = "length (data_bytes es)" and ?bo = "length (data_bytes es) + length (index_bytes index)"
  let ?foot = "wops_bytes (footer_writes n (length es) 0 ?io ?bo (se_key (hd es)) (se_key (last es)) now)"
  note idx = table_parts_index [OF ok parts]
  have data: "data = data_bytes es @ index_bytes index @ bf_bytes bloom @ ?foot"
    by (simp add: data_def table_bytes_def Let_def)
  have keys: "well_formed (se_key (hd es))" "length (utf8 (se_key (hd es))) < 65536"
    "well_formed (se_key (last es))" "length (utf8 (se_key (last es))) < 65536"
    using ok by (auto simp: table_ok_def sst_entry_ok_def)
  have size: "?io \<le> 2 ^ 53" "?bo \<le> 2 ^ 53" "n < 4294967296" "length es < 4294967296" "now \<le> 2 ^ 53"
    using ok idx(3) by (auto simp: table_ok_def)
  have "readFooter env path ((data_bytes es @ index_bytes index @ bf_bytes bloom) @ ?foot) = Inr
      \<lparr>sm_fileNumber = n, sm_filePath = path, sm_entryCount = length es,
       sm_firstKey = se_key (hd es), sm_lastKey = se_key (last es),
       sm_fileSize = length ((data_bytes es @ index_bytes index @ bf_bytes bloom) @ ?foot),
       sm_createdAt = now, sm_indexOffset = ?io, sm_dataOffset = 0, sm_bloomFilterOffset = Some ?bo\<rparr>"
    using size keys limit by (intro readFooter_ok) auto
  then have footer: "readFooter env path data = Inr ?meta"
    by (simp add: data_def table_bytes_def table_meta_def Let_def)
  have index: "loadSparseIndex env data ?io = Inr index"
    unfolding data using idx limit by (intro loadSparseIndex_ok) auto
  have "loadBloomFilter env ((data_bytes es @ index_bytes index) @ bf_bytes bloom @ ?foot) ?meta =
      Inr (Some bloom)"
    using parts limit
    by (intro loadBloomFilter_ok)
      (auto simp: table_parts_def table_meta_def table_bytes_def length_footer_bytes Let_def)
  then have bloom: "loadBloomFilter env data ?meta = Inr (Some bloom)"
    by (simp add: data)
  show ?thesis
    using footer index bloom assms(3)
    by (simp add: openFile_def reader_open_def new_reader_def opened_reader_def data_def [symmetric]
        table_meta_def)
qed

section \<open>Reading one entry\<close>

text \<open>
  The four bytes after the key length, which the reader takes for the length of the value: the
  first bytes of the key. The entry is read whole if that number is not below the real length
  and the size computed from it can be allocated.
\<close>

definition header_valueLen :: "sst_entry \<Rightarrow> nat" where
  "header_valueLen e = be_value (take 4 (drop 2 (sst_entry_bytes e)))"

definition readable :: "read_env \<Rightarrow> sst_entry \<Rightarrow> bool" where
  "readable env e \<longleftrightarrow> sst_entry_ok e \<and> length (utf8 (se_value e)) \<le> header_valueLen e \<and>
     length (utf8 (se_key e)) + header_valueLen e + 15 \<le> env_limit env"

lemma header_read:
  fixes env pre e post
  assumes "sst_entry_ok e"
  defines "b \<equiv> read_at (env_mem env) (pre @ sst_entry_bytes e @ post) (length pre) 6"
  shows "readUInt16BE b 0 = Inr (length (utf8 (se_key e)))" "readUInt32BE b 2 = Inr (header_valueLen e)"
proof -
  let ?bytes = "sst_entry_bytes e"
  have len: "15 \<le> length ?bytes" by (simp add: length_sst_entry_bytes sst_entrySize_def)
  have "pre @ ?bytes @ post = pre @ take 6 ?bytes @ (drop 6 ?bytes @ post)"
    by (metis append_take_drop_id append.assoc)
  then have "holds_at b 0 (take 6 ?bytes)"
    unfolding b_def using len by (simp only:) (rule holds_at_read_at; simp)
  moreover have "take 6 ?bytes = be_bytes 2 (length (utf8 (se_key e))) @ take 4 (drop 2 ?bytes)"
    by (simp add: sst_entry_bytes_def sst_entry_writes_def)
  ultimately have h: "holds_at b 0 (be_bytes 2 (length (utf8 (se_key e))))"
    "holds_at b 2 (take 4 (drop 2 ?bytes))"
    by (simp_all add: holds_at_append numeral_2_eq_2)
  show "readUInt16BE b 0 = Inr (length (utf8 (se_key e)))"
    using h(1) assms(1) by (intro read_uint_be) (auto simp: sst_entry_ok_def)
  show "readUInt32BE b 2 = Inr (header_valueLen e)"
    unfolding header_valueLen_def using h(2) len by (intro read_uint_holds) auto
qed

lemma readEntryAt_ok:
  assumes "readable env e"
  shows "readEntryAt env (pre @ sst_entry_bytes e @ post) (length pre) = Inr (e, sst_entrySize e)"
proof -
  have ok: "sst_entry_ok e" using assms by (simp add: readable_def)
  note header = header_read [OF ok, of env pre post]
  define n where "n = 15 + (length (utf8 (se_key e)) + header_valueLen e)"
  have n: "sst_entrySize e \<le> n" "n \<le> env_limit env"
    using assms by (auto simp: readable_def n_def sst_entrySize_def)
  have "holds_at (read_at (env_mem env) (pre @ sst_entry_bytes e @ post) (length pre) n) 0 (sst_entry_bytes e)"
    using n by (intro holds_at_read_at_long) (auto simp: length_sst_entry_bytes)
  then have "sst_deserializeEntry (read_at (env_mem env) (pre @ sst_entry_bytes e @ post) (length pre) n) 0 =
      Inr (e, sst_entrySize e)"
    by (rule sst_deserializeEntry_holds [OF ok])
  moreover have "6 \<le> env_limit env" using n by (simp add: n_def)
  ultimately show ?thesis
    using header n(2) by (simp add: readEntryAt_def read_file_ok Let_def n_def [symmetric])
qed

text \<open>A key that begins with an ASCII character other than NUL and DEL is read correctly.\<close>

lemma header_valueLen_first:
  assumes "utf8 (se_key e) = c # cs"
  shows "unat c * 16777216 \<le> header_valueLen e" "header_valueLen e < (unat c + 1) * 16777216"
proof -
  let ?rest = "take 3 (drop 3 (sst_entry_bytes e))"
  have len: "15 \<le> length (sst_entry_bytes e)" by (simp add: length_sst_entry_bytes sst_entrySize_def)
  then have l3: "length ?rest = 3" by simp
  have "drop 2 (sst_entry_bytes e) = c # drop 3 (sst_entry_bytes e)"
    using assms by (simp add: sst_entry_bytes_def sst_entry_writes_def)
  then have "take 4 (drop 2 (sst_entry_bytes e)) = [c] @ ?rest" by simp
  then have "header_valueLen e = be_value ([c] @ ?rest)"
    by (simp only: header_valueLen_def)
  also have "\<dots> = unat c * 256 ^ 3 + be_value ?rest"
    by (subst be_value_append, subst l3) (simp add: be_value_def)
  finally have "header_valueLen e = unat c * 16777216 + be_value ?rest" by simp
  moreover have "be_value ?rest < 16777216"
    using be_value_bound [of ?rest] unfolding l3 by simp
  ultimately show "unat c * 16777216 \<le> header_valueLen e" "header_valueLen e < (unat c + 1) * 16777216"
    by simp_all
qed

definition ascii_start :: "jstring \<Rightarrow> bool" where
  "ascii_start s \<longleftrightarrow> (case units s of [] \<Rightarrow> False | u # us \<Rightarrow> 0 < unat u \<and> unat u < 127)"

lemma ascii_start_utf8:
  assumes "ascii_start s"
  obtains c cs where "utf8 s = c # cs" "0 < unat c" "unat c < 127"
proof -
  obtain u us where u: "units s = u # us" "0 < unat u" "unat u < 127"
    using assms by (auto simp: ascii_start_def split: list.splits)
  then have "\<exists>cs. scalar_values (u # us) = unat u # cs"
    by (cases us) (auto simp: high_surrogate_def low_surrogate_def)
  then obtain cs where "scalar_values (units s) = unat u # cs" using u(1) by auto
  then have "utf8 s = byte_of (unat u) # concat (map utf8_of cs)"
    using u(3) by (simp add: utf8_def utf8_of_def)
  then show thesis
    using that u by (simp add: unat_byte_of)
qed

lemma readable_ascii:
  assumes "sst_entry_ok e" "ascii_start (se_key e)" "length (utf8 (se_value e)) \<le> 16777216"
    "2147483647 \<le> env_limit env"
  shows "readable env e"
proof -
  obtain c cs where c: "utf8 (se_key e) = c # cs" "0 < unat c" "unat c < 127"
    by (rule ascii_start_utf8 [OF assms(2)])
  then have "header_valueLen e < 127 * 16777216" "16777216 \<le> header_valueLen e"
    using header_valueLen_first [OF c(1)] by auto
  then show ?thesis
    using assms by (auto simp: readable_def sst_entry_ok_def)
qed

text \<open>A key whose encoding begins with a byte above 127 (any non-ASCII first character) is refused.\<close>

lemma readEntryAt_refused:
  assumes "sst_entry_ok e" "utf8 (se_key e) = c # cs" "128 \<le> unat c"
    "6 \<le> env_limit env" "env_limit env < 2147483648"
  shows "readEntryAt env (pre @ sst_entry_bytes e @ post) (length pre) = Inl RangeError"
proof -
  have "env_limit env < header_valueLen e"
    using header_valueLen_first(1) [OF assms(2)] assms(3,5) by linarith
  then show ?thesis
    using header_read [OF assms(1), of env pre post] assms(4)
    by (simp add: readEntryAt_def read_file_def Let_def)
qed

section \<open>Lookup and iteration over a table\<close>

lemma get_from_ok:
  assumes "ordered_by se_key (xs @ ys)" "\<forall>e\<in>set ys. readable env e"
  shows "get_from env (data_bytes (xs @ ys) @ post) key (length (data_bytes (xs @ ys)))
      (length (data_bytes xs)) = Inr (find (\<lambda>e. se_key e = key) ys)"
  using assms
proof (induction ys arbitrary: xs)
  case Nil
  then show ?case by (simp add: get_from.simps)
next
  case (Cons e ys)
  let ?file = "data_bytes (xs @ e # ys) @ post"
  have pos: "0 < length (sst_entry_bytes e)"
    by (simp add: length_sst_entry_bytes sst_entrySize_def)
  have "readEntryAt env (data_bytes xs @ sst_entry_bytes e @ data_bytes ys @ post) (length (data_bytes xs)) =
      Inr (e, sst_entrySize e)"
    using Cons.prems by (intro readEntryAt_ok) simp
  then have read: "readEntryAt env ?file (length (data_bytes xs)) = Inr (e, sst_entrySize e)"
    by simp
  have rest: "get_from env ?file key (length (data_bytes (xs @ e # ys)))
      (length (data_bytes xs) + sst_entrySize e) = Inr (find (\<lambda>e. se_key e = key) ys)"
    using Cons.IH [of "xs @ [e]"] Cons.prems by (simp add: length_sst_entry_bytes)
  have none: "find (\<lambda>e. se_key e = key) ys = None" if "key < se_key e"
  proof (rule find_absent)
    fix x assume "x \<in> set ys"
    then have "se_key e < se_key x" using Cons.prems(1) by (simp add: ordered_by_append)
    then show "se_key x \<noteq> key" using that by auto
  qed
  show ?case
    using pos read rest none
    by (subst get_from.simps) (auto split: if_splits)
qed

lemma scan_from_ok:
  assumes "ordered_by se_key (xs @ ys)" "\<forall>e\<in>set ys. readable env e"
  shows "scan_from env (data_bytes (xs @ ys) @ post) a b (length (data_bytes (xs @ ys)))
      (length (data_bytes xs)) = (filter (\<lambda>e. a \<le> se_key e \<and> se_key e \<le> b) ys, None)"
  using assms
proof (induction ys arbitrary: xs)
  case Nil
  then show ?case by (simp add: scan_from.simps)
next
  case (Cons e ys)
  let ?file = "data_bytes (xs @ e # ys) @ post"
  have pos: "0 < length (sst_entry_bytes e)"
    by (simp add: length_sst_entry_bytes sst_entrySize_def)
  have "readEntryAt env (data_bytes xs @ sst_entry_bytes e @ data_bytes ys @ post) (length (data_bytes xs)) =
      Inr (e, sst_entrySize e)"
    using Cons.prems by (intro readEntryAt_ok) simp
  then have read: "readEntryAt env ?file (length (data_bytes xs)) = Inr (e, sst_entrySize e)"
    by simp
  have rest: "scan_from env ?file a b (length (data_bytes (xs @ e # ys)))
      (length (data_bytes xs) + sst_entrySize e) = (filter (\<lambda>e. a \<le> se_key e \<and> se_key e \<le> b) ys, None)"
    using Cons.IH [of "xs @ [e]"] Cons.prems by (simp add: length_sst_entry_bytes)
  have none: "filter (\<lambda>e. a \<le> se_key e \<and> se_key e \<le> b) ys = []" if "b < se_key e"
    using that Cons.prems(1) by (fastforce simp: filter_empty_conv ordered_by_append)
  show ?case
    using pos read rest none
    by (subst scan_from.simps) (auto split: if_splits simp: not_less)
qed

text \<open>A reader that holds a table whose entries it can all read.\<close>

definition represents :: "read_env \<Rightarrow> sst_reader \<Rightarrow> sst_entry list \<Rightarrow> bool" where
  "represents env r es \<longleftrightarrow> (\<exists>path n now index bloom.
     r = opened_reader path n now es index bloom \<and> table_ok n now es \<and> table_parts es index bloom \<and>
     (\<forall>e\<in>set es. readable env e))"

lemma represents_state:
  assumes "represents env r es"
  obtains st post where "rd_state r = Some st" "rs_handle st = data_bytes es @ post"
    "sm_indexOffset (rs_metadata st) = length (data_bytes es)" "sm_dataOffset (rs_metadata st) = 0"
    "sm_firstKey (rs_metadata st) = se_key (hd es)" "sm_lastKey (rs_metadata st) = se_key (last es)"
    "\<exists>interval. rs_sparseIndex st = sparse_index interval 0 0 es"
    "\<exists>f. rs_bloomFilter st = Some f \<and> (\<forall>e\<in>set es. mightContain f (se_key e))"
    "es \<noteq> []" "ordered_by se_key es" "\<forall>e\<in>set es. readable env e"
proof -
  obtain path n now index bloom where r: "r = opened_reader path n now es index bloom"
    "table_ok n now es" "table_parts es index bloom" "\<forall>e\<in>set es. readable env e"
    using assms by (auto simp: represents_def)
  obtain st where st: "rd_state r = Some st" "rs_handle st = table_bytes n now es index bloom"
    "rs_metadata st = table_meta n now es index bloom path" "rs_sparseIndex st = index"
    "rs_bloomFilter st = Some bloom"
    by (simp add: r(1) opened_reader_def)
  obtain post where "rs_handle st = data_bytes es @ post"
    by (simp add: st(2) table_bytes_def Let_def)
  then show thesis
    using that st(1,3-5) r(2-4) by (simp add: table_meta_def table_ok_def table_parts_def)
qed

lemma represents_range:
  assumes "ordered_by se_key es" "e \<in> set es"
  shows "se_key (hd es) \<le> se_key e" "se_key e \<le> se_key (last es)"
  using ordered_by_hd_last [OF assms] by auto

lemma reader_get_ok:
  assumes "represents env r es"
  shows "reader_get env r key = Inr (find (\<lambda>e. se_key e = key) es)"
proof (rule represents_state [OF assms])
  fix st post
  assume st: "rd_state r = Some st" "rs_handle st = data_bytes es @ post"
    "sm_indexOffset (rs_metadata st) = length (data_bytes es)" "sm_dataOffset (rs_metadata st) = 0"
    "sm_firstKey (rs_metadata st) = se_key (hd es)" "sm_lastKey (rs_metadata st) = se_key (last es)"
    "\<exists>interval. rs_sparseIndex st = sparse_index interval 0 0 es"
    and ord: "ordered_by se_key es" and rd: "\<forall>e\<in>set es. readable env e"
  show ?thesis
  proof (cases "se_key (hd es) \<le> key \<and> key \<le> se_key (last es)")
    case True
    obtain iv where iv: "rs_sparseIndex st = sparse_index iv 0 0 es" using st(7) by blast
    obtain xs ys where xy: "es = xs @ ys"
      "findStartOffset key (rs_sparseIndex st) 0 = length (data_bytes xs)" "\<forall>e\<in>set xs. se_key e < key"
      using findStartOffset_split [OF ord iv] .
    have "find (\<lambda>e. se_key e = key) xs = None" using xy(3) by (intro find_absent) auto
    then have "find (\<lambda>e. se_key e = key) es = find (\<lambda>e. se_key e = key) ys"
      by (simp add: xy(1) find_append)
    moreover have "get_from env (rs_handle st) key (length (data_bytes es)) (length (data_bytes xs)) =
        Inr (find (\<lambda>e. se_key e = key) ys)"
      using get_from_ok [of xs ys env post key] ord rd st(2) unfolding xy(1) by simp
    ultimately show ?thesis
      using st True xy(2) by (simp add: reader_get_def ensureOpen_def isInRange_def)
  next
    case False
    then have "find (\<lambda>e. se_key e = key) es = None"
      using represents_range [OF ord] by (intro find_absent) auto
    then show ?thesis
      using st(1,5,6) False by (simp add: reader_get_def ensureOpen_def isInRange_def)
  qed
qed

lemma reader_iterate_ok:
  assumes "represents env r es"
  shows "reader_iterate env r (Some a) (Some b) = (filter (\<lambda>e. a \<le> se_key e \<and> se_key e \<le> b) es, None)"
proof (rule represents_state [OF assms])
  fix st post
  assume st: "rd_state r = Some st" "rs_handle st = data_bytes es @ post"
    "sm_indexOffset (rs_metadata st) = length (data_bytes es)" "sm_dataOffset (rs_metadata st) = 0"
    "sm_firstKey (rs_metadata st) = se_key (hd es)" "sm_lastKey (rs_metadata st) = se_key (last es)"
    "\<exists>interval. rs_sparseIndex st = sparse_index interval 0 0 es"
    and ord: "ordered_by se_key es" and rd: "\<forall>e\<in>set es. readable env e"
  show ?thesis
  proof (cases "se_key (last es) < a \<or> b < se_key (hd es)")
    case True
    then have "filter (\<lambda>e. a \<le> se_key e \<and> se_key e \<le> b) es = []"
      using represents_range [OF ord] by (fastforce simp: filter_empty_conv)
    then show ?thesis
      using st(1,5,6) True by (simp add: reader_iterate_def ensureOpen_def Let_def)
  next
    case False
    obtain iv where iv: "rs_sparseIndex st = sparse_index iv 0 0 es" using st(7) by blast
    obtain xs ys where xy: "es = xs @ ys"
      "findStartOffset a (rs_sparseIndex st) 0 = length (data_bytes xs)" "\<forall>e\<in>set xs. se_key e < a"
      using findStartOffset_split [OF ord iv] .
    have "filter (\<lambda>e. a \<le> se_key e \<and> se_key e \<le> b) xs = []"
      using xy(3) by (auto simp: filter_empty_conv not_le)
    then have "filter (\<lambda>e. a \<le> se_key e \<and> se_key e \<le> b) es =
        filter (\<lambda>e. a \<le> se_key e \<and> se_key e \<le> b) ys"
      by (simp add: xy(1))
    moreover have "scan_from env (rs_handle st) a b (length (data_bytes es)) (length (data_bytes xs)) =
        (filter (\<lambda>e. a \<le> se_key e \<and> se_key e \<le> b) ys, None)"
      using scan_from_ok [of xs ys env post a b] ord rd st(2) unfolding xy(1) by simp
    ultimately show ?thesis
      using st False xy(2) by (simp add: reader_iterate_def ensureOpen_def Let_def)
  qed
qed

section \<open>The contract of a sorted table\<close>

locale sorted_table =
  fixes holds :: "'r \<Rightarrow> 'e list \<Rightarrow> bool"
    and key_of :: "'e \<Rightarrow> 'k::linorder"
    and in_range :: "'r \<Rightarrow> 'k \<Rightarrow> bool res"
    and may_have :: "'r \<Rightarrow> 'k \<Rightarrow> bool res"
    and look_up :: "'r \<Rightarrow> 'k \<Rightarrow> 'e option res"
    and scan :: "'r \<Rightarrow> 'k \<Rightarrow> 'k \<Rightarrow> 'e list \<times> js_error option"
  assumes holds_ordered: "holds r es \<Longrightarrow> ordered_by key_of es"
    and in_range_total: "holds r es \<Longrightarrow> \<exists>c. in_range r k = Inr c \<and> (k \<in> key_of ` set es \<longrightarrow> c)"
    and may_have_total: "holds r es \<Longrightarrow> \<exists>c. may_have r k = Inr c \<and> (k \<in> key_of ` set es \<longrightarrow> c)"
    and look_up_find: "holds r es \<Longrightarrow> look_up r k = Inr (find (\<lambda>e. key_of e = k) es)"
    and scan_filter: "holds r es \<Longrightarrow> scan r a b = (filter (\<lambda>e. a \<le> key_of e \<and> key_of e \<le> b) es, None)"
begin

text \<open>The three steps of a point lookup together: range, filter, table.\<close>

lemma guarded_look_up:
  assumes "holds r es"
  shows "bind_res (in_range r k) (\<lambda>c1. if \<not> c1 then Inr None else
      bind_res (may_have r k) (\<lambda>c2. if \<not> c2 then Inr None else look_up r k)) =
    Inr (find (\<lambda>e. key_of e = k) es)"
proof -
  obtain c1 c2 where c: "in_range r k = Inr c1" "k \<in> key_of ` set es \<longrightarrow> c1"
    "may_have r k = Inr c2" "k \<in> key_of ` set es \<longrightarrow> c2"
    using in_range_total [OF assms] may_have_total [OF assms] by blast
  have "find (\<lambda>e. key_of e = k) es = None" if "k \<notin> key_of ` set es"
    using that by (intro find_absent) auto
  then show ?thesis using c look_up_find [OF assms] by auto
qed

end

interpretation sst: sorted_table "represents env" se_key isInRange mayContain "reader_get env"
  "\<lambda>r a b. reader_iterate env r (Some a) (Some b)" for env
proof
  fix r es k a b
  assume rep: "represents env r es"
  then show "reader_get env r k = Inr (find (\<lambda>e. se_key e = k) es)"
    "reader_iterate env r (Some a) (Some b) = (filter (\<lambda>e. a \<le> se_key e \<and> se_key e \<le> b) es, None)"
    by (rule reader_get_ok reader_iterate_ok)+
  obtain st post where st: "rd_state r = Some st" "rs_handle st = data_bytes es @ post"
    "sm_indexOffset (rs_metadata st) = length (data_bytes es)" "sm_dataOffset (rs_metadata st) = 0"
    "sm_firstKey (rs_metadata st) = se_key (hd es)" "sm_lastKey (rs_metadata st) = se_key (last es)"
    "\<exists>interval. rs_sparseIndex st = sparse_index interval 0 0 es"
    "\<exists>f. rs_bloomFilter st = Some f \<and> (\<forall>e\<in>set es. mightContain f (se_key e))"
    "es \<noteq> []" "ordered_by se_key es" "\<forall>e\<in>set es. readable env e"
    by (rule represents_state [OF rep])
  then show "ordered_by se_key es" by simp
  note range = represents_range [OF st(10)]
  show "\<exists>c. isInRange r k = Inr c \<and> (k \<in> se_key ` set es \<longrightarrow> c)"
    using st range by (auto simp: isInRange_def ensureOpen_def)
  show "\<exists>c. mayContain r k = Inr c \<and> (k \<in> se_key ` set es \<longrightarrow> c)"
    using st(1,5,6,8) range by (auto simp: mayContain_def isInRange_def ensureOpen_def)
qed

end
