(* ===== verification/Wal.thy ===== *)
theory Wal
  imports Log_Codec "HOL-Library.Sublist"
begin

text \<open>
  The write-ahead log of src/src/storage/wal/WAL.ts as a state machine over the log
  directory. The operations that hold the write lock (\<open>AsyncMutex\<close>, first come first served)
  are atomic steps; \<open>mem\<close> is the content of uninitialised buffers and \<open>now\<close> the clock.
\<close>

section \<open>The log directory\<close>

text \<open>The files of the directory with their contents, in the order of \<open>sort()\<close>.\<close>

type_synonym log_dir = "(jstring \<times> byte list) list"

fun dir_put :: "jstring \<Rightarrow> byte list \<Rightarrow> log_dir \<Rightarrow> log_dir" where
  "dir_put name bs [] = [(name, bs)]"
| "dir_put name bs ((n, c) # dir) =
     (if name < n then (name, bs) # (n, c) # dir
      else if name = n then (name, bs) # dir
      else (n, c) # dir_put name bs dir)"

text \<open>A write through a handle opened with 'a': at the end; \<open>open\<close> creates the file.\<close>

definition append_file :: "jstring \<Rightarrow> byte list \<Rightarrow> log_dir \<Rightarrow> log_dir" where
  "append_file name bs dir =
     dir_put name ((case map_of dir name of None \<Rightarrow> [] | Some c \<Rightarrow> c) @ bs) dir"

definition is_log_file :: "jstring \<Rightarrow> bool" where
  "is_log_file name \<longleftrightarrow> suffix (units (js ''.log'')) (units name)"

definition log_files :: "log_dir \<Rightarrow> log_dir" where
  "log_files dir = filter (\<lambda>p. is_log_file (fst p)) dir"

section \<open>State and operations\<close>

datatype sync_policy = SYNC_EVERY_WRITE | GROUP_COMMIT_100MS | PERIODIC_10MS

record wal =
  wal_currentLogFile :: jstring
  wal_fileHandle :: bool
  wal_sequenceId :: nat
  wal_syncPolicy :: sync_policy
  wal_pendingWrites :: "log_entry list"
  wal_flushTimer :: "nat option"

definition new_wal :: "sync_policy \<Rightarrow> wal" where
  "new_wal policy =
     \<lparr>wal_currentLogFile = empty_string, wal_fileHandle = False, wal_sequenceId = 0,
      wal_syncPolicy = policy, wal_pendingWrites = [], wal_flushTimer = None\<rparr>"

definition log_name :: "nat \<Rightarrow> jstring" where
  "log_name timestamp = js (''wal-'' @ decimal timestamp @ ''.log'')"

definition rotateLog :: "nat \<Rightarrow> wal \<Rightarrow> wal" where
  "rotateLog now w = w\<lparr>wal_currentLogFile := log_name now\<rparr>"

definition wal_replay :: "log_dir \<Rightarrow> log_entry list" where
  "wal_replay dir = concat (map (\<lambda>p. readLogFile (snd p)) (log_files dir))"

definition readLastSequenceId :: "wal \<Rightarrow> log_dir \<Rightarrow> nat" where
  "readLastSequenceId w dir =
     (if wal_currentLogFile w = empty_string then 0
      else
        (case map_of dir (wal_currentLogFile w) of
           None \<Rightarrow> 0
         | Some c \<Rightarrow>
             let entries = readLogFile c in
             if entries = [] then 0 else le_seq (last entries) + 1))"

definition wal_open :: "nat \<Rightarrow> wal \<Rightarrow> log_dir \<Rightarrow> wal \<times> log_dir" where
  "wal_open now w dir =
     (let logFiles = log_files dir;
          w = (if logFiles \<noteq> []
               then (let w = w\<lparr>wal_currentLogFile := fst (last logFiles)\<rparr>
                     in w\<lparr>wal_sequenceId := readLastSequenceId w dir\<rparr>)
               else rotateLog now w);
          dir = append_file (wal_currentLogFile w) [] dir;
          w = w\<lparr>wal_fileHandle := True\<rparr>
      in (if wal_syncPolicy w \<noteq> SYNC_EVERY_WRITE
          then w\<lparr>wal_flushTimer := Some (if wal_syncPolicy w = GROUP_COMMIT_100MS then 100 else 10)\<rparr>
          else w, dir))"

definition writeEntry :: "(nat \<Rightarrow> byte) \<Rightarrow> log_entry \<Rightarrow> wal \<Rightarrow> log_dir \<Rightarrow> log_dir res" where
  "writeEntry mem e w dir =
     (if \<not> wal_fileHandle w then Inl WalNotOpen
      else bind_res (serializeEntry mem e) (\<lambda>buffer.
        Inr (append_file (wal_currentLogFile w) buffer dir)))"

text \<open>
  \<open>append\<close> under \<open>SYNC_EVERY_WRITE\<close>. The sequence number is used up even if the write
  fails; the listener is told after the sync.
\<close>

definition append_sync ::
  "(nat \<Rightarrow> byte) \<Rightarrow> nat \<Rightarrow> log_body \<Rightarrow> wal \<Rightarrow> log_dir \<Rightarrow> unit res \<times> wal \<times> log_dir \<times> log_entry list" where
  "append_sync mem now body w dir =
     (let logEntry = stamp body (wal_sequenceId w) now;
          w = w\<lparr>wal_sequenceId := wal_sequenceId w + 1\<rparr>
      in case writeEntry mem logEntry w dir of
           Inl err \<Rightarrow> (Inl err, w, dir, [])
         | Inr dir \<Rightarrow> (Inr (), w, dir, [logEntry]))"

text \<open>
  \<open>append\<close> under the other policies queues the entry; the promise is settled by the flush of
  its batch, which is triggered at once when a hundred entries wait.
\<close>

definition append_queue :: "nat \<Rightarrow> log_body \<Rightarrow> wal \<Rightarrow> wal \<times> bool" where
  "append_queue now body w =
     (let logEntry = stamp body (wal_sequenceId w) now;
          w = w\<lparr>wal_sequenceId := wal_sequenceId w + 1,
                 wal_pendingWrites := wal_pendingWrites w @ [logEntry]\<rparr>
      in (w, 100 \<le> length (wal_pendingWrites w)))"

fun write_batch :: "(nat \<Rightarrow> byte) \<Rightarrow> log_entry list \<Rightarrow> wal \<Rightarrow> log_dir \<Rightarrow> js_error option \<times> log_dir" where
  "write_batch mem [] w dir = (None, dir)"
| "write_batch mem (e # es) w dir =
     (case writeEntry mem e w dir of
        Inl err \<Rightarrow> (Some err, dir)
      | Inr dir \<Rightarrow> write_batch mem es w dir)"

text \<open>
  The error thrown, if any, and the entries whose promises are resolved (and of which the
  listener is told); with an error every promise of the batch is rejected.
\<close>

definition flushBatchUnlocked ::
  "(nat \<Rightarrow> byte) \<Rightarrow> wal \<Rightarrow> log_dir \<Rightarrow> js_error option \<times> log_entry list \<times> wal \<times> log_dir" where
  "flushBatchUnlocked mem w dir =
     (if wal_pendingWrites w = [] then (None, [], w, dir)
      else
        let batch = wal_pendingWrites w; w = w\<lparr>wal_pendingWrites := []\<rparr> in
        case write_batch mem batch w dir of
          (Some err, dir) \<Rightarrow> (Some err, [], w, dir)
        | (None, dir) \<Rightarrow>
            if \<not> wal_fileHandle w then (Some WalNotOpen, [], w, dir)
            else (None, batch, w, dir))"

definition flushBatch ::
  "(nat \<Rightarrow> byte) \<Rightarrow> wal \<Rightarrow> log_dir \<Rightarrow> js_error option \<times> log_entry list \<times> wal \<times> log_dir" where
  "flushBatch mem w dir =
     (if wal_pendingWrites w = [] then (None, [], w, dir) else flushBatchUnlocked mem w dir)"

definition checkpoint ::
  "(nat \<Rightarrow> byte) \<Rightarrow> nat \<Rightarrow> wal \<Rightarrow> log_dir \<Rightarrow> js_error option \<times> log_entry list \<times> wal \<times> log_dir" where
  "checkpoint mem now w dir =
     (case (if wal_pendingWrites w \<noteq> [] then flushBatchUnlocked mem w dir else (None, [], w, dir)) of
        (Some err, acked, w, dir) \<Rightarrow> (Some err, acked, w, dir)
      | (None, acked, w, dir) \<Rightarrow>
          let w = rotateLog now (w\<lparr>wal_fileHandle := False\<rparr>);
              dir = append_file (wal_currentLogFile w) [] dir;
              w = w\<lparr>wal_fileHandle := True\<rparr>
          in (None, acked, w,
              filter (\<lambda>p. \<not> (is_log_file (fst p) \<and> fst p \<noteq> wal_currentLogFile w)) dir))"

definition wal_close ::
  "(nat \<Rightarrow> byte) \<Rightarrow> wal \<Rightarrow> log_dir \<Rightarrow> js_error option \<times> log_entry list \<times> wal \<times> log_dir" where
  "wal_close mem w dir =
     (case flushBatch mem w dir of
        (Some err, acked, w, dir) \<Rightarrow> (Some err, acked, w, dir)
      | (None, acked, w, dir) \<Rightarrow>
          (None, acked, w\<lparr>wal_flushTimer := None, wal_fileHandle := False\<rparr>, dir))"

section \<open>The directory\<close>

lemma dir_put_ordered: "ordered_by fst dir \<Longrightarrow> ordered_by fst (dir_put name bs dir)"
proof (induction name bs dir rule: dir_put.induct)
  case (2 name bs n c dir)
  have "fst ` set (dir_put name bs dir) = insert name (fst ` set dir)"
    by (induction name bs dir rule: dir_put.induct) auto
  then have "\<forall>p\<in>set (dir_put name bs dir). fst p = name \<or> p \<in> set dir \<or> fst p \<in> fst ` set dir"
    by force
  then show ?case using 2 by (fastforce simp: image_iff intro: less_trans)
qed simp

lemma dir_put_lookup: "ordered_by fst dir \<Longrightarrow> map_of (dir_put name bs dir) = (map_of dir)(name \<mapsto> bs)"
  by (induction name bs dir rule: dir_put.induct) (auto simp: fun_eq_iff)

text \<open>Appending to the file that sorts last, the situation of an open log.\<close>

lemma dir_put_last:
  "ordered_by fst (dir @ [(name, c)]) \<Longrightarrow> dir_put name bs (dir @ [(name, c)]) = dir @ [(name, bs)]"
  by (induction dir) (auto simp: ordered_by_append dest: less_imp_neq less_not_sym)

lemma dir_put_new:
  "\<forall>p\<in>set dir. fst p < name \<Longrightarrow> dir_put name bs dir = dir @ [(name, bs)]"
  by (induction dir) (auto dest: less_imp_neq less_not_sym)

lemma units_js_append: "units (js (s @ t)) = units (js s) @ units (js t)"
  by (simp add: js_def)

lemma is_log_file_name: "is_log_file (log_name t)"
  unfolding is_log_file_def log_name_def units_js_append
  unfolding suffix_def by (metis append.assoc)

lemma log_files_ordered: "ordered_by fst dir \<Longrightarrow> ordered_by fst (log_files dir)"
  by (simp add: log_files_def ordered_by_filter)

lemma log_files_put:
  assumes "is_log_file name" "ordered_by fst dir"
  shows "log_files (dir_put name bs dir) = dir_put name bs (log_files dir)"
proof (rule ordered_map_of_eq)
  have sel: "map_of (log_files d) k = (if is_log_file k then map_of d k else None)" for d k
    by (induction d) (auto simp: log_files_def)
  show "map_of (log_files (dir_put name bs dir)) = map_of (dir_put name bs (log_files dir))"
    using assms by (auto simp: fun_eq_iff sel dir_put_lookup log_files_ordered)
qed (simp_all add: assms dir_put_ordered log_files_ordered)

lemma log_files_lookup: "is_log_file k \<Longrightarrow> map_of (log_files d) k = map_of d k"
  by (induction d) (auto simp: log_files_def)

section \<open>An open log\<close>

text \<open>
  The handle writes to the log file that sorts last; that file consists of complete records of
  \<open>es\<close>, and the files before it replay to \<open>old\<close>.
\<close>

definition log_ready :: "wal \<Rightarrow> log_dir \<Rightarrow> log_entry list \<Rightarrow> log_entry list \<Rightarrow> bool" where
  "log_ready w dir old es \<longleftrightarrow>
     ordered_by fst dir \<and> wal_fileHandle w \<and> is_log_file (wal_currentLogFile w) \<and>
     (\<forall>e\<in>set es. entry_ok e) \<and>
     (\<exists>pre. log_files dir = pre @ [(wal_currentLogFile w, concat (map entry_bytes es))] \<and>
        old = concat (map (\<lambda>p. readLogFile (snd p)) pre))"

lemma log_ready_replay: "log_ready w dir old es \<Longrightarrow> wal_replay dir = old @ es"
  by (auto simp: log_ready_def wal_replay_def readLogFile_all)

lemma log_ready_wal:
  "log_ready w dir old es \<Longrightarrow> wal_currentLogFile w' = wal_currentLogFile w \<Longrightarrow>
   wal_fileHandle w' = wal_fileHandle w \<Longrightarrow> log_ready w' dir old es"
  by (simp add: log_ready_def)

lemma log_ready_append:
  assumes "log_ready w dir old es" "entry_ok e"
  shows "log_ready w (append_file (wal_currentLogFile w) (entry_bytes e) dir) old (es @ [e])"
proof -
  let ?cur = "wal_currentLogFile w" and ?c = "concat (map entry_bytes es)"
  obtain pre where pre: "log_files dir = pre @ [(?cur, ?c)]"
    "old = concat (map (\<lambda>p. readLogFile (snd p)) pre)"
    using assms(1) by (auto simp: log_ready_def)
  have r: "ordered_by fst dir" "wal_fileHandle w" "is_log_file ?cur" "\<forall>e\<in>set es. entry_ok e"
    using assms(1) by (auto simp: log_ready_def)
  have ord: "ordered_by fst (pre @ [(?cur, ?c)])"
    using log_files_ordered [OF r(1)] pre(1) by simp
  have "map_of dir ?cur = Some ?c"
    using log_files_lookup [OF r(3), of dir] map_of_ordered [OF ord, of ?cur ?c] pre(1) by simp
  then have content: "append_file ?cur (entry_bytes e) dir = dir_put ?cur (?c @ entry_bytes e) dir"
    by (simp add: append_file_def)
  have "log_files (dir_put ?cur (?c @ entry_bytes e) dir) = pre @ [(?cur, ?c @ entry_bytes e)]"
    by (simp add: log_files_put r(1,3) pre(1) dir_put_last [OF ord])
  then show ?thesis
    unfolding content log_ready_def using r assms(2) pre(2) by (auto simp: dir_put_ordered)
qed

text \<open>
  An entry that can be logged either serialises to a record that reads back as it was, or is
  refused by the serialiser. What is left out is text that UTF-8 cannot carry and clocks or
  counters above 2 to the 53.
\<close>

definition loggable :: "log_entry \<Rightarrow> bool" where
  "loggable e \<longleftrightarrow> entry_ok e \<or> (\<forall>mem. \<exists>err. serializeEntry mem e = Inl err)"

lemma writeEntry_ready:
  assumes "log_ready w dir old es" "loggable e" "writeEntry mem e w dir = Inr dir'"
  shows "log_ready w dir' old (es @ [e]) \<and> entry_ok e"
proof -
  obtain buffer where b: "serializeEntry mem e = Inr buffer"
    "dir' = append_file (wal_currentLogFile w) buffer dir"
    using assms(3) by (auto simp: writeEntry_def bind_res_eq_Inr split: if_splits)
  then have ok: "entry_ok e"
    using assms(2) unfolding loggable_def by (metis Inr_Inl_False)
  then have "buffer = entry_bytes e"
    using b(1) by (simp add: serializeEntry_ok)
  then show ?thesis
    using b(2) log_ready_append [OF assms(1) ok] ok by simp
qed

lemma write_batch_ready:
  assumes "log_ready w dir old es" "\<forall>e\<in>set batch. loggable e" "write_batch mem batch w dir = (err, dir')"
  shows "\<exists>done rest. batch = done @ rest \<and> log_ready w dir' old (es @ done) \<and> (err = None \<longrightarrow> rest = [])"
  using assms
proof (induction batch arbitrary: dir es)
  case (Cons e batch)
  show ?case
  proof (cases "writeEntry mem e w dir")
    case (Inl x)
    then show ?thesis using Cons.prems by (intro exI [of _ "[]"] exI [of _ "e # batch"]) auto
  next
    case (Inr d)
    then have "log_ready w d old (es @ [e])"
      using Cons.prems writeEntry_ready by simp
    then obtain dn rest where "batch = dn @ rest" "log_ready w dir' old ((es @ [e]) @ dn)"
      "err = None \<longrightarrow> rest = []"
      using Cons.IH [of d "es @ [e]"] Cons.prems Inr by auto
    then show ?thesis by (intro exI [of _ "e # dn"] exI [of _ rest]) auto
  qed
qed auto

text \<open>Opening a directory whose newest log is complete; the numbering goes on after its last entry.\<close>

lemma wal_open_ready:
  assumes "ordered_by fst dir" "log_files dir = pre @ [(name, concat (map entry_bytes es))]"
    "\<forall>e\<in>set es. entry_ok e" "name \<noteq> empty_string" "wal_open now w dir = (w', dir')"
  shows "log_ready w' dir' (concat (map (\<lambda>p. readLogFile (snd p)) pre)) es"
    and "wal_sequenceId w' = (if es = [] then 0 else le_seq (last es) + 1)"
    and "wal_pendingWrites w' = wal_pendingWrites w" "wal_syncPolicy w' = wal_syncPolicy w"
    and "wal_replay dir' = wal_replay dir"
proof -
  let ?c = "concat (map entry_bytes es)"
  have mem: "(name, ?c) \<in> set (log_files dir)" using assms(2) by simp
  then have content: "map_of dir name = Some ?c" "is_log_file name"
    using map_of_ordered [OF assms(1)] by (auto simp: log_files_def)
  have ord: "ordered_by fst (pre @ [(name, ?c)])"
    using log_files_ordered [OF assms(1)] assms(2) by simp
  have w: "wal_currentLogFile w' = name" "wal_fileHandle w'"
    "wal_sequenceId w' = (if es = [] then 0 else le_seq (last es) + 1)"
    "wal_pendingWrites w' = wal_pendingWrites w" "wal_syncPolicy w' = wal_syncPolicy w"
    "dir' = append_file name [] dir"
    using assms(2-5) content
    by (auto simp: wal_open_def Let_def readLastSequenceId_def readLogFile_all split: if_splits)
  have dir: "dir' = dir_put name ?c dir"
    using w(6) content by (simp add: append_file_def)
  then have logs: "log_files dir' = pre @ [(name, ?c)]"
    by (simp add: log_files_put content assms(1,2) dir_put_last [OF ord])
  have "ordered_by fst dir'"
    unfolding dir by (rule dir_put_ordered [OF assms(1)])
  then show "log_ready w' dir' (concat (map (\<lambda>p. readLogFile (snd p)) pre)) es"
    unfolding log_ready_def using w logs assms(3) content by auto
  show "wal_replay dir' = wal_replay dir"
    by (simp add: wal_replay_def logs assms(2))
  show "wal_sequenceId w' = (if es = [] then 0 else le_seq (last es) + 1)"
    "wal_pendingWrites w' = wal_pendingWrites w" "wal_syncPolicy w' = wal_syncPolicy w"
    by (rule w)+
qed

lemma wal_open_new:
  assumes "ordered_by fst dir" "log_files dir = []" "wal_open now w dir = (w', dir')"
  shows "log_ready w' dir' [] []" "wal_sequenceId w' = wal_sequenceId w"
    "wal_pendingWrites w' = wal_pendingWrites w" "wal_syncPolicy w' = wal_syncPolicy w"
proof -
  have w: "wal_currentLogFile w' = log_name now" "wal_fileHandle w'" "wal_sequenceId w' = wal_sequenceId w"
    "wal_pendingWrites w' = wal_pendingWrites w" "wal_syncPolicy w' = wal_syncPolicy w"
    "dir' = append_file (log_name now) [] dir"
    using assms(2,3) by (auto simp: wal_open_def Let_def rotateLog_def)
  have "map_of dir (log_name now) = None"
    using log_files_lookup [OF is_log_file_name, of dir now] assms(2) by simp
  then have "dir' = dir_put (log_name now) [] dir" using w(6) by (simp add: append_file_def)
  then show "log_ready w' dir' [] []"
    using w assms(1,2) by (simp add: log_ready_def is_log_file_name dir_put_ordered log_files_put)
qed (use assms in \<open>auto simp: wal_open_def Let_def rotateLog_def split: if_splits\<close>)

section \<open>The log as a state machine\<close>

text \<open>
  \<open>lg_acked\<close> collects, since the last checkpoint, the entries whose \<open>append\<close> has
  succeeded. The steps are the operations in any order; what is queued or appended can be
  logged.
\<close>

record log_state =
  lg_wal :: wal
  lg_dir :: log_dir
  lg_acked :: "log_entry list"

inductive log_step :: "log_state \<Rightarrow> log_state \<Rightarrow> bool" where
  step_sync:
    "wal_syncPolicy w = SYNC_EVERY_WRITE \<Longrightarrow> loggable (stamp body (wal_sequenceId w) now) \<Longrightarrow>
     append_sync mem now body w dir = (r, w', dir', new) \<Longrightarrow>
     log_step \<lparr>lg_wal = w, lg_dir = dir, lg_acked = acked\<rparr>
              \<lparr>lg_wal = w', lg_dir = dir', lg_acked = acked @ new\<rparr>"
| step_queue:
    "wal_syncPolicy w \<noteq> SYNC_EVERY_WRITE \<Longrightarrow> loggable (stamp body (wal_sequenceId w) now) \<Longrightarrow>
     append_queue now body w = (w', trigger) \<Longrightarrow>
     log_step \<lparr>lg_wal = w, lg_dir = dir, lg_acked = acked\<rparr>
              \<lparr>lg_wal = w', lg_dir = dir, lg_acked = acked\<rparr>"
| step_flush:
    "flushBatch mem w dir = (err, new, w', dir') \<Longrightarrow>
     log_step \<lparr>lg_wal = w, lg_dir = dir, lg_acked = acked\<rparr>
              \<lparr>lg_wal = w', lg_dir = dir', lg_acked = acked @ new\<rparr>"
| step_checkpoint:
    "checkpoint mem now w dir = (err, new, w', dir') \<Longrightarrow>
     wal_currentLogFile w < log_name now \<Longrightarrow>
     log_step \<lparr>lg_wal = w, lg_dir = dir, lg_acked = acked\<rparr>
              \<lparr>lg_wal = w', lg_dir = dir', lg_acked = (if err = None then [] else acked @ new)\<rparr>"



text \<open>
  The invariant: every acknowledged entry replays, in order; the numbers in the current file
  and in the queue increase and lie below the next one.
\<close>

definition log_inv :: "log_state \<Rightarrow> bool" where
  "log_inv s \<longleftrightarrow> (\<exists>old es. log_ready (lg_wal s) (lg_dir s) old es \<and> subseq (lg_acked s) (old @ es) \<and>
     (\<forall>e\<in>set (wal_pendingWrites (lg_wal s)). loggable e) \<and>
     (wal_syncPolicy (lg_wal s) = SYNC_EVERY_WRITE \<longrightarrow> wal_pendingWrites (lg_wal s) = []) \<and>
     ordered_by le_seq (es @ wal_pendingWrites (lg_wal s)) \<and>
     (\<forall>e\<in>set (es @ wal_pendingWrites (lg_wal s)). le_seq e < wal_sequenceId (lg_wal s)))"

lemma log_invI:
  "log_ready w dir old es \<Longrightarrow> subseq acked (old @ es) \<Longrightarrow> \<forall>e\<in>set (wal_pendingWrites w). loggable e \<Longrightarrow>
   (wal_syncPolicy w = SYNC_EVERY_WRITE \<Longrightarrow> wal_pendingWrites w = []) \<Longrightarrow>
   ordered_by le_seq (es @ wal_pendingWrites w) \<Longrightarrow>
   \<forall>e\<in>set (es @ wal_pendingWrites w). le_seq e < wal_sequenceId w \<Longrightarrow>
   log_inv \<lparr>lg_wal = w, lg_dir = dir, lg_acked = acked\<rparr>"
  by (auto simp: log_inv_def)

lemma append_sync_inv:
  assumes "log_inv \<lparr>lg_wal = w, lg_dir = dir, lg_acked = acked\<rparr>"
    "loggable (stamp body (wal_sequenceId w) now)"
    "append_sync mem now body w dir = (r, w', dir', new)" "wal_pendingWrites w = []"
  shows "log_inv \<lparr>lg_wal = w', lg_dir = dir', lg_acked = acked @ new\<rparr>"
proof -
  obtain old es where inv: "log_ready w dir old es" "subseq acked (old @ es)"
    "ordered_by le_seq es" "\<forall>e\<in>set es. le_seq e < wal_sequenceId w"
    using assms(1,4) by (auto simp: log_inv_def)
  let ?e = "stamp body (wal_sequenceId w) now"
  let ?w = "w\<lparr>wal_sequenceId := wal_sequenceId w + 1\<rparr>"
  have ready: "log_ready ?w dir old es" by (rule log_ready_wal [OF inv(1)]) simp_all
  show ?thesis
  proof (cases "writeEntry mem ?e ?w dir")
    case (Inl err)
    then have "w' = ?w" "dir' = dir" "new = []" using assms(3) by (auto simp: append_sync_def Let_def)
    then show ?thesis using ready inv assms(4) by (auto intro!: log_invI simp: less_Suc_eq)
  next
    case (Inr d)
    then have "w' = ?w" "dir' = d" "new = [?e]" using assms(3) by (auto simp: append_sync_def Let_def)
    moreover have "log_ready ?w d old (es @ [?e])"
      using writeEntry_ready [OF ready assms(2) Inr] by simp
    moreover have "subseq (acked @ [?e]) (old @ es @ [?e])"
      using inv(2) by (metis append.assoc list_emb_append_mono subseq_order.refl)
    ultimately show ?thesis
      using inv(3,4) assms(4) by (auto intro!: log_invI simp: ordered_by_append less_Suc_eq)
  qed
qed

lemma append_queue_inv:
  assumes "log_inv \<lparr>lg_wal = w, lg_dir = dir, lg_acked = acked\<rparr>"
    "loggable (stamp body (wal_sequenceId w) now)" "append_queue now body w = (w', trigger)"
    "wal_syncPolicy w \<noteq> SYNC_EVERY_WRITE"
  shows "log_inv \<lparr>lg_wal = w', lg_dir = dir, lg_acked = acked\<rparr>"
proof -
  obtain old es where inv: "log_ready w dir old es" "subseq acked (old @ es)"
    "\<forall>e\<in>set (wal_pendingWrites w). loggable e" "ordered_by le_seq (es @ wal_pendingWrites w)"
    "\<forall>e\<in>set (es @ wal_pendingWrites w). le_seq e < wal_sequenceId w"
    using assms(1) by (auto simp: log_inv_def)
  have w': "w' = w\<lparr>wal_sequenceId := wal_sequenceId w + 1, wal_pendingWrites :=
      wal_pendingWrites w @ [stamp body (wal_sequenceId w) now]\<rparr>"
    using assms(3) by (simp add: append_queue_def Let_def)
  have "log_ready w' dir old es"
    by (rule log_ready_wal [OF inv(1)]) (simp_all add: w')
  then show ?thesis
    by (rule log_invI) (use inv assms(2,4) in \<open>auto simp: w' ordered_by_append less_Suc_eq\<close>)
qed

lemma flushBatchUnlocked_inv:
  assumes "log_inv \<lparr>lg_wal = w, lg_dir = dir, lg_acked = acked\<rparr>"
    "flushBatchUnlocked mem w dir = (err, new, w', dir')"
  shows "log_inv \<lparr>lg_wal = w', lg_dir = dir', lg_acked = acked @ new\<rparr>"
    and "wal_currentLogFile w' = wal_currentLogFile w" "err = None \<Longrightarrow> wal_pendingWrites w' = []"
proof -
  obtain old es where inv: "log_ready w dir old es" "subseq acked (old @ es)"
    "\<forall>e\<in>set (wal_pendingWrites w). loggable e" "ordered_by le_seq (es @ wal_pendingWrites w)"
    "\<forall>e\<in>set (es @ wal_pendingWrites w). le_seq e < wal_sequenceId w"
    using assms(1) by (auto simp: log_inv_def)
  let ?w = "w\<lparr>wal_pendingWrites := []\<rparr>"
  have ready: "log_ready ?w dir old es" by (rule log_ready_wal [OF inv(1)]) simp_all
  obtain err1 d where wb: "write_batch mem (wal_pendingWrites w) ?w dir = (err1, d)" by fastforce
  obtain dn rest where dn: "wal_pendingWrites w = dn @ rest" "log_ready ?w d old (es @ dn)"
    "err1 = None \<longrightarrow> rest = []"
    using write_batch_ready [OF ready inv(3) wb] by blast
  have handle: "wal_fileHandle w" using inv(1) by (simp add: log_ready_def)
  show "log_inv \<lparr>lg_wal = w', lg_dir = dir', lg_acked = acked @ new\<rparr>"
  proof (cases "wal_pendingWrites w = []")
    case True
    then show ?thesis using assms by (auto simp: flushBatchUnlocked_def)
  next
    case False
    then have w': "w' = ?w" "dir' = d" "new = (if err1 = None then wal_pendingWrites w else [])"
      using assms(2) wb handle by (auto simp: flushBatchUnlocked_def Let_def split: option.splits)
    have "subseq acked (old @ es @ dn)"
      using inv(2) by (metis append.assoc list_emb_append2 subseq_rev_drop_many)
    moreover have "subseq (acked @ dn) (old @ es @ dn)"
      using inv(2) by (metis append.assoc list_emb_append_mono subseq_order.refl)
    ultimately show ?thesis
      unfolding w' using dn inv(4,5)
      by (auto intro!: log_invI [OF dn(2)] simp: ordered_by_append)
  qed
  show "wal_currentLogFile w' = wal_currentLogFile w" "err = None \<Longrightarrow> wal_pendingWrites w' = []"
    using assms(2) by (auto simp: flushBatchUnlocked_def Let_def split: if_splits prod.splits option.splits)
qed

text \<open>A checkpoint under a new name leaves exactly one log file, and that one empty.\<close>

lemma checkpoint_empties:
  assumes "log_ready w dir old es" "wal_currentLogFile w < log_name now" "w1 = w\<lparr>wal_fileHandle := h\<rparr>"
  defines "w2 \<equiv> (rotateLog now w1)\<lparr>wal_fileHandle := True\<rparr>"
  defines "d2 \<equiv> filter (\<lambda>p. \<not> (is_log_file (fst p) \<and> fst p \<noteq> wal_currentLogFile w2))
    (append_file (wal_currentLogFile w2) [] dir)"
  shows "log_ready w2 d2 [] []" "wal_replay d2 = []"
proof -
  let ?name = "log_name now"
  have ord: "ordered_by fst dir" using assms(1) by (simp add: log_ready_def)
  obtain pre c where logs: "log_files dir = pre @ [(wal_currentLogFile w, c)]"
    using assms(1) by (auto simp: log_ready_def)
  have lt: "\<forall>p\<in>set (log_files dir). fst p < ?name"
    using log_files_ordered [OF ord] assms(2) unfolding logs
    by (auto simp: ordered_by_append intro: less_trans)
  then have last: "dir_put ?name [] (log_files dir) = log_files dir @ [(?name, [])]"
    and fresh: "map_of (log_files dir) ?name = None"
    by (auto simp: dir_put_new map_of_eq_None_iff)
  have "map_of dir ?name = None"
    using fresh log_files_lookup [OF is_log_file_name, of dir now] by simp
  then have app: "append_file ?name [] dir = dir_put ?name [] dir"
    by (simp add: append_file_def)
  have "log_files d2 = filter (\<lambda>p. fst p = ?name) (log_files (dir_put ?name [] dir))"
    by (auto simp: d2_def w2_def rotateLog_def app log_files_def intro!: filter_cong)
  also have "\<dots> = filter (\<lambda>p. fst p = ?name) (log_files dir) @ [(?name, [])]"
    by (simp add: log_files_put is_log_file_name ord last)
  also have "filter (\<lambda>p. fst p = ?name) (log_files dir) = []"
    using lt by (auto simp: filter_empty_conv)
  finally have one: "log_files d2 = [(?name, [])]" by simp
  show "log_ready w2 d2 [] []"
    using one by (auto simp: log_ready_def w2_def rotateLog_def is_log_file_name d2_def app
        intro!: ordered_by_filter dir_put_ordered ord)
  then show "wal_replay d2 = []" using log_ready_replay by fastforce
qed

lemma checkpoint_inv:
  assumes "log_inv \<lparr>lg_wal = w, lg_dir = dir, lg_acked = acked\<rparr>"
    "checkpoint mem now w dir = (err, new, w', dir')" "wal_currentLogFile w < log_name now"
  shows "log_inv \<lparr>lg_wal = w', lg_dir = dir', lg_acked = (if err = None then [] else acked @ new)\<rparr>"
proof -
  obtain e1 a1 w1 d1 where f: "(if wal_pendingWrites w \<noteq> [] then flushBatchUnlocked mem w dir
      else (None, [], w, dir)) = (e1, a1, w1, d1)" by (metis prod_cases4)
  have inv1: "log_inv \<lparr>lg_wal = w1, lg_dir = d1, lg_acked = acked @ a1\<rparr>"
    "wal_currentLogFile w1 = wal_currentLogFile w" "e1 = None \<Longrightarrow> wal_pendingWrites w1 = []"
    using flushBatchUnlocked_inv [OF assms(1)] f assms(1) by (auto split: if_splits)
  show ?thesis
  proof (cases e1)
    case (Some x)
    then have "err = Some x" "new = a1" "w' = w1" "dir' = d1"
      using assms(2) f by (auto simp: checkpoint_def)
    then show ?thesis using inv1 by simp
  next
    case None
    obtain old es where "log_ready w1 d1 old es" using inv1(1) by (auto simp: log_inv_def)
    note emptied = checkpoint_empties [OF this _ refl, of now False]
    have r: "err = None" "w' = (rotateLog now (w1\<lparr>wal_fileHandle := False\<rparr>))\<lparr>wal_fileHandle := True\<rparr>"
      "dir' = filter (\<lambda>p. \<not> (is_log_file (fst p) \<and> fst p \<noteq> wal_currentLogFile w'))
        (append_file (wal_currentLogFile w') [] d1)"
      using assms(2) f None by (auto simp: checkpoint_def Let_def)
    then have "log_ready w' dir' [] []"
      using emptied(1) inv1(2) assms(3) by simp
    moreover have "wal_pendingWrites w' = []" using r(2) inv1(3) None by (simp add: rotateLog_def)
    ultimately show ?thesis using r(1) by (auto intro!: log_invI)
  qed
qed

lemma log_step_inv: "log_step s s' \<Longrightarrow> log_inv s \<Longrightarrow> log_inv s'"
proof (induction rule: log_step.induct)
  case (step_sync w body now mem dir r w' dir' new acked)
  then have "wal_pendingWrites w = []" by (auto simp: log_inv_def)
  then show ?case using step_sync append_sync_inv by blast
next
  case (step_queue w body now w' trigger dir acked)
  then show ?case using append_queue_inv by blast
next
  case (step_flush mem w dir err new w' dir' acked)
  then have "flushBatchUnlocked mem w dir = (err, new, w', dir')"
    by (auto simp: flushBatch_def flushBatchUnlocked_def split: if_splits)
  then show ?case using step_flush flushBatchUnlocked_inv(1) by blast
next
  case (step_checkpoint mem now w dir err new w' dir' acked)
  then show ?case using checkpoint_inv by blast
qed

lemma log_steps_inv: "log_step\<^sup>*\<^sup>* s s' \<Longrightarrow> log_inv s \<Longrightarrow> log_inv s'"
  by (induction rule: rtranclp_induct) (auto intro: log_step_inv)

lemma log_inv_acked:
  assumes "log_inv s"
  shows "subseq (lg_acked s) (wal_replay (lg_dir s))"
  using assms log_ready_replay by (auto simp: log_inv_def)

section \<open>A torn tail\<close>

text \<open>
  Opening a log does not cut off an incomplete record at its end, and the handle appends after
  it. As long as the bytes appended do not fill up the length that the torn record declares,
  the replay stops before it, whatever was appended.
\<close>

lemma readLog_short:
  assumes "length m < len" "len < 4294967296"
  shows "readLog_from (pre @ be_bytes 4 len @ m) (length pre) = []"
  using assms by (subst readLog_from.simps) (simp add: be_value_be_bytes Let_def)

lemma readLog_torn_append:
  assumes "entry_ok e" "4 \<le> n" "n + length added < length (entry_bytes e)"
  shows "readLog_from (pre @ take n (entry_bytes e) @ added) (length pre) = []"
proof -
  let ?rec = "be_bytes 4 (calculateChecksum (entry_data e)) @ entry_data e"
  have bytes: "entry_bytes e = be_bytes 4 (length ?rec) @ ?rec"
    by (simp add: entry_bytes_def)
  have len: "length ?rec < 4294967296"
    using assms(1) by (simp add: entry_ok_def)
  define m where "m = take (n - 4) ?rec @ added"
  have "take n (entry_bytes e) @ added = be_bytes 4 (length ?rec) @ m"
    using assms(2) unfolding bytes m_def by simp
  moreover have "length m < length ?rec"
    using assms(2,3) unfolding bytes m_def by simp
  ultimately show ?thesis
    using len readLog_short by simp
qed

lemma readLogFile_torn_append:
  assumes "\<forall>e\<in>set es. entry_ok e" "entry_ok e" "4 \<le> n" "n + length added < length (entry_bytes e)"
  shows "readLogFile (concat (map entry_bytes es) @ take n (entry_bytes e) @ added) = es"
  using readLogFile_records [OF assms(1)] readLog_torn_append [OF assms(2-4)] by simp

text \<open>
  An entry acknowledged after a restart on such a log does not replay.
\<close>

lemma append_after_torn:
  assumes "\<forall>e\<in>set es. entry_ok e" "entry_ok e" "4 \<le> n"
    and dir: "dir = [(log_name t, concat (map entry_bytes es) @ take n (entry_bytes e))]"
    and "wal_open now (new_wal SYNC_EVERY_WRITE) dir = (w, dir1)"
    and "entry_ok (stamp body (wal_sequenceId w) now')"
    and "n + length (entry_bytes (stamp body (wal_sequenceId w) now')) < length (entry_bytes e)"
  shows "\<exists>w' dir'. append_sync mem now' body w dir1 =
      (Inr (), w', dir', [stamp body (wal_sequenceId w) now']) \<and> wal_replay dir' = es"
proof -
  let ?c = "concat (map entry_bytes es) @ take n (entry_bytes e)"
  let ?new = "stamp body (wal_sequenceId w) now'"
  have "log_files dir = dir" by (simp add: dir log_files_def is_log_file_name)
  then have w: "wal_currentLogFile w = log_name t" "wal_fileHandle w" "dir1 = dir"
    using assms(5) by (auto simp: wal_open_def Let_def dir new_wal_def append_file_def)
  have ser: "serializeEntry mem ?new = Inr (entry_bytes ?new)"
    using assms(6) by (rule serializeEntry_ok)
  let ?dir = "[(log_name t, ?c @ entry_bytes ?new)]"
  have "append_sync mem now' body w dir1 =
      (Inr (), w\<lparr>wal_sequenceId := wal_sequenceId w + 1\<rparr>, ?dir, [?new])"
    using w ser by (simp add: append_sync_def writeEntry_def Let_def dir append_file_def)
  moreover have "wal_replay ?dir = es"
    using readLogFile_torn_append [OF assms(1-3), of "entry_bytes ?new"] assms(7)
    by (simp add: wal_replay_def log_files_def is_log_file_name)
  ultimately show ?thesis by blast
qed

section \<open>The write lock\<close>

text \<open>\<open>AsyncMutex\<close>; the waiting callers are numbers. \<open>release\<close> hands the lock to the first.\<close>

record async_mutex =
  mx_locked :: bool
  mx_waitQueue :: "nat list"

definition mutex_acquire :: "nat \<Rightarrow> async_mutex \<Rightarrow> bool \<times> async_mutex" where
  "mutex_acquire caller m =
     (if \<not> mx_locked m then (True, m\<lparr>mx_locked := True\<rparr>)
      else (False, m\<lparr>mx_waitQueue := mx_waitQueue m @ [caller]\<rparr>))"

definition mutex_release :: "async_mutex \<Rightarrow> nat option \<times> async_mutex" where
  "mutex_release m =
     (case mx_waitQueue m of
        next_caller # rest \<Rightarrow> (Some next_caller, m\<lparr>mx_waitQueue := rest\<rparr>)
      | [] \<Rightarrow> (None, m\<lparr>mx_locked := False\<rparr>))"

text \<open>A run: callers ask for the lock; the one that holds it releases it.\<close>

record lock_state =
  lk_mutex :: async_mutex
  lk_holders :: "nat list"
  lk_asked :: "nat list"
  lk_granted :: "nat list"

inductive lock_step :: "lock_state \<Rightarrow> lock_state \<Rightarrow> bool" where
  lock_ask:
    "mutex_acquire c m = (granted, m') \<Longrightarrow>
     lock_step \<lparr>lk_mutex = m, lk_holders = hs, lk_asked = as, lk_granted = gs\<rparr>
       \<lparr>lk_mutex = m', lk_holders = (if granted then c # hs else hs), lk_asked = as @ [c],
        lk_granted = (if granted then gs @ [c] else gs)\<rparr>"
| lock_leave:
    "c \<in> set hs \<Longrightarrow> mutex_release m = (waiter, m') \<Longrightarrow>
     lock_step \<lparr>lk_mutex = m, lk_holders = hs, lk_asked = as, lk_granted = gs\<rparr>
       \<lparr>lk_mutex = m', lk_holders = (case waiter of Some d \<Rightarrow> d # remove1 c hs | None \<Rightarrow> remove1 c hs),
        lk_asked = as, lk_granted = (case waiter of Some d \<Rightarrow> gs @ [d] | None \<Rightarrow> gs)\<rparr>"

inductive_cases lock_stepE: "lock_step s t"

definition lock_start :: lock_state where
  "lock_start = \<lparr>lk_mutex = \<lparr>mx_locked = False, mx_waitQueue = []\<rparr>, lk_holders = [], lk_asked = [],
     lk_granted = []\<rparr>"

lemma lock_invariant:
  assumes "lock_step\<^sup>*\<^sup>* lock_start s"
  shows "length (lk_holders s) = (if mx_locked (lk_mutex s) then 1 else 0) \<and>
    lk_asked s = lk_granted s @ mx_waitQueue (lk_mutex s) \<and>
    (\<not> mx_locked (lk_mutex s) \<longrightarrow> mx_waitQueue (lk_mutex s) = [])"
  using assms
proof (induction rule: rtranclp_induct)
  case (step s t)
  have only: "c \<in> set hs \<Longrightarrow> length hs = Suc 0 \<Longrightarrow> remove1 c hs = []" for c and hs :: "nat list"
    by (cases hs) auto
  from step.hyps(2) step.IH show ?case
    by (elim lock_stepE)
      (auto simp: mutex_acquire_def mutex_release_def only split: if_splits list.splits)
qed (simp add: lock_start_def)

end
