(* ===== verification/Manifest.thy ===== *)
theory Manifest
  imports SSTable_Codec
begin

text \<open>
  The manifest of src/src/storage/manifest/Manifest.ts: which tables are live, the next file
  number and the version. The MANIFEST file is the value that \<open>JSON.parse\<close> gives back for the
  text that \<open>JSON.stringify\<close> wrote; it is replaced by a rename, so that a reader sees the
  old or the new one.
\<close>

section \<open>State\<close>

record manifest_state =
  mf_sstables :: "sst_meta list"
  mf_nextFileNumber :: nat
  mf_lastFlushedSequence :: nat
  mf_version :: nat
  mf_createdAt :: nat

record manifest_file =
  mj_magic :: nat
  mj_version :: nat
  mj_state :: manifest_state

text \<open>The MANIFEST path: no file, text that is not JSON, or a parsed object.\<close>

datatype manifest_disk = NoManifest | NotJSON | ManifestJSON manifest_file

record manifest =
  mf_state :: manifest_state
  mf_loaded :: bool

text \<open>\<open>Partial<VersionEdit>\<close>.\<close>

record version_edit =
  ed_addedSSTables :: "sst_meta list option"
  ed_removedFileNumbers :: "nat list option"
  ed_nextFileNumber :: "nat option"
  ed_lastFlushedSequence :: "nat option"

definition MANIFEST_MAGIC :: nat where
  "MANIFEST_MAGIC = 0x4D414E49"

definition MANIFEST_VERSION :: nat where
  "MANIFEST_VERSION = 1"

definition EMPTY_MANIFEST_STATE :: "nat \<Rightarrow> manifest_state" where
  "EMPTY_MANIFEST_STATE createdAt =
     \<lparr>mf_sstables = [], mf_nextFileNumber = 1, mf_lastFlushedSequence = 0, mf_version = 0,
      mf_createdAt = createdAt\<rparr>"

definition new_manifest :: "nat \<Rightarrow> manifest" where
  "new_manifest startedAt = \<lparr>mf_state = EMPTY_MANIFEST_STATE startedAt, mf_loaded = False\<rparr>"

section \<open>Operations\<close>

definition manifest_load :: "nat \<Rightarrow> manifest_disk \<Rightarrow> manifest \<Rightarrow> manifest res" where
  "manifest_load now disk m =
     (if mf_loaded m then Inr m
      else
        (case disk of
           NoManifest \<Rightarrow> Inr (m\<lparr>mf_state := EMPTY_MANIFEST_STATE now, mf_loaded := True\<rparr>)
         | NotJSON \<Rightarrow> Inl JSONSyntaxError
         | ManifestJSON j \<Rightarrow>
             if mj_magic j \<noteq> MANIFEST_MAGIC then Inl InvalidMagic
             else if mj_version j \<noteq> MANIFEST_VERSION then Inl (UnsupportedManifestVersion (mj_version j))
             else Inr (m\<lparr>mf_state := mj_state j, mf_loaded := True\<rparr>)))"

definition manifest_save :: "manifest \<Rightarrow> manifest_disk" where
  "manifest_save m =
     ManifestJSON \<lparr>mj_magic = MANIFEST_MAGIC, mj_version = MANIFEST_VERSION, mj_state = mf_state m\<rparr>"

definition ensureLoaded :: "manifest \<Rightarrow> manifest res" where
  "ensureLoaded m = (if mf_loaded m then Inr m else Inl ManifestNotLoaded)"

definition getState :: "manifest \<Rightarrow> manifest_state res" where
  "getState m = bind_res (ensureLoaded m) (\<lambda>m. Inr (mf_state m))"

definition getSSTables :: "manifest \<Rightarrow> sst_meta list res" where
  "getSSTables m = bind_res (ensureLoaded m) (\<lambda>m. Inr (mf_sstables (mf_state m)))"

definition getNextFileNumber :: "manifest \<Rightarrow> nat res" where
  "getNextFileNumber m = bind_res (ensureLoaded m) (\<lambda>m. Inr (mf_nextFileNumber (mf_state m)))"

text \<open>\<open>sort((a, b) => b.fileNumber - a.fileNumber)\<close>, which is stable.\<close>

definition newest_first :: "sst_meta list \<Rightarrow> sst_meta list" where
  "newest_first = sort_key (\<lambda>s. - int (sm_fileNumber s))"

definition edited_state :: "version_edit \<Rightarrow> manifest_state \<Rightarrow> manifest_state" where
  "edited_state edit st =
     (let sstables = mf_sstables st;
          sstables = (case ed_removedFileNumbers edit of
              Some ns \<Rightarrow> filter (\<lambda>s. sm_fileNumber s \<notin> set ns) sstables | None \<Rightarrow> sstables);
          sstables = (case ed_addedSSTables edit of
              Some new \<Rightarrow> sstables @ new | None \<Rightarrow> sstables);
          sstables = newest_first sstables;
          maxFileNumber = foldl (\<lambda>m s. max m (int (sm_fileNumber s))) (int (mf_nextFileNumber st) - 1) sstables
      in \<lparr>mf_sstables = sstables,
          mf_nextFileNumber = (case ed_nextFileNumber edit of Some n \<Rightarrow> n | None \<Rightarrow> nat (maxFileNumber + 1)),
          mf_lastFlushedSequence = (case ed_lastFlushedSequence edit of
             Some n \<Rightarrow> n | None \<Rightarrow> mf_lastFlushedSequence st),
          mf_version = mf_version st + 1,
          mf_createdAt = mf_createdAt st\<rparr>)"

definition applyEdit :: "version_edit \<Rightarrow> manifest \<Rightarrow> (manifest \<times> manifest_disk) res" where
  "applyEdit edit m =
     bind_res (ensureLoaded m) (\<lambda>m.
     let m = m\<lparr>mf_state := edited_state edit (mf_state m)\<rparr> in Inr (m, manifest_save m))"

definition addSSTable :: "sst_meta \<Rightarrow> manifest \<Rightarrow> (manifest \<times> manifest_disk) res" where
  "addSSTable meta =
     applyEdit \<lparr>ed_addedSSTables = Some [meta], ed_removedFileNumbers = None,
       ed_nextFileNumber = Some (sm_fileNumber meta + 1), ed_lastFlushedSequence = None\<rparr>"

definition removeSSTables :: "nat list \<Rightarrow> manifest \<Rightarrow> (manifest \<times> manifest_disk) res" where
  "removeSSTables fileNumbers =
     applyEdit \<lparr>ed_addedSSTables = None, ed_removedFileNumbers = Some fileNumbers,
       ed_nextFileNumber = None, ed_lastFlushedSequence = None\<rparr>"

section \<open>Properties of the table list\<close>

definition newest_sorted :: "sst_meta list \<Rightarrow> bool" where
  "newest_sorted ss \<longleftrightarrow> sorted_wrt (\<lambda>a b. sm_fileNumber b \<le> sm_fileNumber a) ss"

lemma newest_first_sorted: "newest_sorted (newest_first ss)"
proof -
  have "sorted (map (\<lambda>s. - int (sm_fileNumber s)) (newest_first ss))"
    by (simp add: newest_first_def)
  then show ?thesis by (simp add: newest_sorted_def sorted_map)
qed

lemma set_newest_first [simp]: "set (newest_first ss) = set ss"
  by (simp add: newest_first_def)

lemma newest_first_id: "newest_sorted ss \<Longrightarrow> newest_first ss = ss"
  unfolding newest_first_def newest_sorted_def
  by (intro sort_key_id_if_sorted) (simp add: sorted_map)

lemma newest_first_Cons:
  assumes "newest_sorted ss" "\<forall>s\<in>set ss. sm_fileNumber s < sm_fileNumber m"
  shows "newest_first (ss @ [m]) = m # ss"
  using assms
proof (induction ss)
  case (Cons s ss)
  have "insort_key (\<lambda>s. - int (sm_fileNumber s)) s ss = s # ss"
    using Cons.prems(1) by (cases ss) (auto simp: newest_sorted_def)
  then show ?case
    using Cons by (simp add: newest_first_def newest_sorted_def)
qed (simp add: newest_first_def)

lemma max_fold:
  "b \<le> foldl (\<lambda>m s. max m (int (sm_fileNumber s))) b ss \<and>
   (\<forall>s\<in>set ss. int (sm_fileNumber s) \<le> foldl (\<lambda>m s. max m (int (sm_fileNumber s))) b ss)"
proof (induction ss rule: rev_induct)
  case (snoc s ss)
  then show ?case by (auto simp: le_max_iff_disj)
qed simp

section \<open>What an edit does\<close>

text \<open>Every live file number is below the next one.\<close>

definition manifest_inv :: "manifest_state \<Rightarrow> bool" where
  "manifest_inv st \<longleftrightarrow> newest_sorted (mf_sstables st) \<and> 1 \<le> mf_nextFileNumber st \<and>
     (\<forall>s\<in>set (mf_sstables st). sm_fileNumber s < mf_nextFileNumber st)"

lemma edited_sorted: "newest_sorted (mf_sstables (edited_state edit st))"
  by (simp add: edited_state_def Let_def newest_first_sorted)

lemma remove_edit:
  fixes ns st
  assumes "manifest_inv st"
  defines "st' \<equiv> edited_state \<lparr>ed_addedSSTables = None, ed_removedFileNumbers = Some ns,
    ed_nextFileNumber = None, ed_lastFlushedSequence = None\<rparr> st"
  shows "mf_sstables st' = filter (\<lambda>s. sm_fileNumber s \<notin> set ns) (mf_sstables st)"
    "mf_nextFileNumber st' = mf_nextFileNumber st" "mf_version st' = mf_version st + 1" "manifest_inv st'"
proof -
  let ?ss = "filter (\<lambda>s. sm_fileNumber s \<notin> set ns) (mf_sstables st)"
  have "newest_sorted ?ss"
    using assms(1) by (simp add: manifest_inv_def newest_sorted_def sorted_wrt_filter)
  then have same: "newest_first ?ss = ?ss" by (rule newest_first_id)
  then show ss: "mf_sstables st' = ?ss" by (simp add: st'_def edited_state_def Let_def)
  have fold: "foldl (\<lambda>m s. max m (int (sm_fileNumber s))) (int (mf_nextFileNumber st) - 1) ss =
      int (mf_nextFileNumber st) - 1" if "\<forall>s\<in>set ss. sm_fileNumber s < mf_nextFileNumber st" for ss
    using that by (induction ss) (auto simp: max_absorb1)
  show nx: "mf_nextFileNumber st' = mf_nextFileNumber st"
    using fold [of ?ss] assms(1) same by (simp add: st'_def edited_state_def Let_def manifest_inv_def)
  show "mf_version st' = mf_version st + 1" by (simp add: st'_def edited_state_def Let_def)
  show "manifest_inv st'"
    using ss nx assms(1) \<open>newest_sorted ?ss\<close> by (simp add: manifest_inv_def)
qed

lemma add_edit:
  fixes meta st
  assumes "manifest_inv st" "mf_nextFileNumber st \<le> sm_fileNumber meta"
  defines "st' \<equiv> edited_state \<lparr>ed_addedSSTables = Some [meta], ed_removedFileNumbers = None,
    ed_nextFileNumber = Some (sm_fileNumber meta + 1), ed_lastFlushedSequence = None\<rparr> st"
  shows "mf_sstables st' = meta # mf_sstables st" "mf_nextFileNumber st' = sm_fileNumber meta + 1"
    "mf_version st' = mf_version st + 1" "manifest_inv st'"
proof -
  have lt: "\<forall>s\<in>set (mf_sstables st). sm_fileNumber s < sm_fileNumber meta"
    using assms(1,2) by (auto simp: manifest_inv_def)
  then have "newest_first (mf_sstables st @ [meta]) = meta # mf_sstables st"
    using assms(1) by (intro newest_first_Cons) (auto simp: manifest_inv_def)
  then show ss: "mf_sstables st' = meta # mf_sstables st"
    by (simp add: st'_def edited_state_def Let_def)
  show nx: "mf_nextFileNumber st' = sm_fileNumber meta + 1" "mf_version st' = mf_version st + 1"
    by (simp_all add: st'_def edited_state_def Let_def)
  show "manifest_inv st'"
    using ss nx lt assms(1) by (auto simp: manifest_inv_def newest_sorted_def)
qed

lemma addSSTable_ok:
  assumes "mf_loaded m" "manifest_inv (mf_state m)" "mf_nextFileNumber (mf_state m) \<le> sm_fileNumber meta"
  obtains m' where "addSSTable meta m = Inr (m', manifest_save m')" "mf_loaded m'"
    "mf_sstables (mf_state m') = meta # mf_sstables (mf_state m)"
    "mf_nextFileNumber (mf_state m') = sm_fileNumber meta + 1" "manifest_inv (mf_state m')"
  using add_edit [OF assms(2,3)] assms(1)
  by (auto simp: addSSTable_def applyEdit_def ensureLoaded_def Let_def)

lemma removeSSTables_ok:
  assumes "mf_loaded m" "manifest_inv (mf_state m)"
  obtains m' where "removeSSTables ns m = Inr (m', manifest_save m')" "mf_loaded m'"
    "mf_sstables (mf_state m') = filter (\<lambda>s. sm_fileNumber s \<notin> set ns) (mf_sstables (mf_state m))"
    "mf_nextFileNumber (mf_state m') = mf_nextFileNumber (mf_state m)" "manifest_inv (mf_state m')"
  using remove_edit [OF assms(2)] assms(1)
  by (auto simp: removeSSTables_def applyEdit_def ensureLoaded_def Let_def)

text \<open>A manifest that was saved is the one that is loaded.\<close>

lemma load_saved:
  "\<not> mf_loaded m' \<Longrightarrow> manifest_load now (manifest_save m) m' = Inr \<lparr>mf_state = mf_state m, mf_loaded = True\<rparr>"
  by (simp add: manifest_load_def manifest_save_def)

lemma manifest_inv_empty: "manifest_inv (EMPTY_MANIFEST_STATE t)"
  by (simp add: manifest_inv_def EMPTY_MANIFEST_STATE_def newest_sorted_def)

end
