(* ===== verification/LSM_Store.thy ===== *)
theory LSM_Store
  imports Mem_Table Merge_Iterator SSTable_Reader Wal Manifest
begin

text \<open>
  The storage engine of src/src/storage/LSMStore.ts: writes go to the log and then to the
  active memtable; a full memtable becomes immutable and is flushed in the background to a
  sorted table; reads look in the memtables and then in the tables, newest first.

  Every piece of code between two awaits is one step. A flush is the sequence of steps
  \<open>flush_step\<close>, with the phase in the state, so that writes and reads can come between.
\<close>

section \<open>State\<close>

text \<open>Where the background flush is: what the next step of \<open>doFlush\<close> works on.\<close>

datatype flush_phase =
  NoFlush
| Building sst_writer
| Built sst_meta
| Recorded sst_meta
| Opened

record store =
  st_active :: mem_table
  st_immutable :: "mem_table option"
  st_sstables :: "(sst_meta \<times> sst_reader) list"
  st_wal :: wal
  st_manifest :: manifest
  st_flush :: flush_phase
  st_memTableSizeLimit :: int
  st_sstConfig :: sst_config
  st_initialized :: bool

text \<open>The data directory: the tables, the logs and the MANIFEST.\<close>

record disk =
  dk_files :: files
  dk_logs :: log_dir
  dk_manifest :: manifest_disk

definition new_store :: "sync_policy \<Rightarrow> int \<Rightarrow> sst_config \<Rightarrow> nat \<Rightarrow> store" where
  "new_store policy limit cfg startedAt =
     \<lparr>st_active = new_mem_table limit, st_immutable = None, st_sstables = [],
      st_wal = new_wal policy, st_manifest = new_manifest startedAt, st_flush = NoFlush,
      st_memTableSizeLimit = limit, st_sstConfig = cfg, st_initialized = False\<rparr>"

definition ensureInitialized :: "store \<Rightarrow> unit res" where
  "ensureInitialized s = (if st_initialized s then Inr () else Inl NotInitialized)"

section \<open>Flush\<close>

definition to_sst_entry :: "jstring \<times> mem_entry \<Rightarrow> sst_entry" where
  "to_sst_entry p = \<lparr>se_key = fst p, se_value = mt_value (snd p), se_time = mt_time (snd p),
     se_deleted = mt_deleted (snd p)\<rparr>"

text \<open>
  \<open>triggerFlush\<close> and \<open>doFlush\<close> up to its first await. The \<open>catch\<close> of the flush promise
  drops an error; the immutable memtable then stays where it is.
\<close>

definition triggerFlush :: "store \<Rightarrow> store" where
  "triggerFlush s =
     (let full = st_active s;
          s = s\<lparr>st_immutable := Some full, st_active := new_mem_table (st_memTableSizeLimit s)\<rparr>
      in case getNextFileNumber (st_manifest s) of
           Inl err \<Rightarrow> s\<lparr>st_flush := NoFlush\<rparr>
         | Inr fileNumber \<Rightarrow>
             let entries = mt_getAllSorted full in
             if entries = [] then s\<lparr>st_immutable := None, st_flush := NoFlush\<rparr>
             else (case sw_add_all (map to_sst_entry entries) (new_writer fileNumber (st_sstConfig s)) of
                     Inl err \<Rightarrow> s\<lparr>st_flush := NoFlush\<rparr>
                   | Inr writer \<Rightarrow> s\<lparr>st_flush := Building writer\<rparr>))"

definition maybeFlush :: "store \<Rightarrow> store" where
  "maybeFlush s =
     (if \<not> mt_isFull (st_active s) then s
      else if st_flush s \<noteq> NoFlush then s
      else triggerFlush s)"

section \<open>Writes\<close>

text \<open>What \<open>put\<close>, \<open>delete\<close> and \<open>batchPut\<close> do to the memtable once the log has the entry.\<close>

definition write_memtable :: "nat \<Rightarrow> 'a log_body_scheme \<Rightarrow> mem_table \<Rightarrow> mem_table" where
  "write_memtable now e m =
     (case le_op e of
        PUT \<Rightarrow> mt_put now (the (le_key e)) (the (le_value e)) False m
      | DELETE \<Rightarrow> mt_delete now (the (le_key e)) m
      | BATCH_PUT \<Rightarrow>
          fold (\<lambda>(k, v). mt_put now k v False) (zip (the (le_keys e)) (the (le_values e))) m)"

text \<open>\<open>applyLogEntry\<close>, at recovery and for replicated entries: empty keys are skipped.\<close>

definition applyLogEntry :: "nat \<Rightarrow> 'a log_body_scheme \<Rightarrow> mem_table \<Rightarrow> mem_table" where
  "applyLogEntry now e m =
     (case le_op e of
        PUT \<Rightarrow>
          if \<not> falsy (le_key e) \<and> le_value e \<noteq> None
          then mt_put now (the (le_key e)) (the (le_value e)) False m else m
      | DELETE \<Rightarrow> if \<not> falsy (le_key e) then mt_delete now (the (le_key e)) m else m
      | BATCH_PUT \<Rightarrow>
          (case (le_keys e, le_values e) of
             (Some ks, Some vs) \<Rightarrow>
               fold (\<lambda>(k, v) m. if k \<noteq> empty_string then mt_put now k v False m else m) (zip ks vs) m
           | _ \<Rightarrow> m))"

text \<open>The rest of a write operation after its \<open>append\<close> has returned.\<close>

definition finish_write :: "nat \<Rightarrow> 'a log_body_scheme \<Rightarrow> store \<Rightarrow> store" where
  "finish_write now e s = maybeFlush (s\<lparr>st_active := write_memtable now e (st_active s)\<rparr>)"

text \<open>
  A write under \<open>SYNC_EVERY_WRITE\<close>. Under the other policies the entry is queued, and the
  write ends when the flush of its batch has settled.
\<close>

definition store_write ::
  "(nat \<Rightarrow> byte) \<Rightarrow> nat \<Rightarrow> log_body \<Rightarrow> store \<Rightarrow> disk \<Rightarrow> unit res \<times> store \<times> disk" where
  "store_write mem now body s d =
     (case ensureInitialized s of
        Inl err \<Rightarrow> (Inl err, s, d)
      | Inr u \<Rightarrow>
          (case append_sync mem now body (st_wal s) (dk_logs d) of
             (Inl err, w, logs, acked) \<Rightarrow> (Inl err, s\<lparr>st_wal := w\<rparr>, d\<lparr>dk_logs := logs\<rparr>)
           | (Inr u, w, logs, acked) \<Rightarrow>
               (Inr (), finish_write now body (s\<lparr>st_wal := w\<rparr>), d\<lparr>dk_logs := logs\<rparr>)))"

definition store_enqueue :: "nat \<Rightarrow> log_body \<Rightarrow> store \<Rightarrow> (store \<times> bool) res" where
  "store_enqueue now body s =
     bind_res (ensureInitialized s) (\<lambda>u.
     let (w, trigger) = append_queue now body (st_wal s) in Inr (s\<lparr>st_wal := w\<rparr>, trigger))"

definition store_flushBatch :: "(nat \<Rightarrow> byte) \<Rightarrow> nat \<Rightarrow> store \<Rightarrow> disk \<Rightarrow> store \<times> disk" where
  "store_flushBatch mem now s d =
     (case flushBatch mem (st_wal s) (dk_logs d) of
        (err, acked, w, logs) \<Rightarrow>
          (fold (finish_write now) acked (s\<lparr>st_wal := w\<rparr>), d\<lparr>dk_logs := logs\<rparr>))"

text \<open>
  A write as its caller sees it: under the other policies it waits for the flush of its batch,
  with which the writes that are queued before it end, too. Nothing else comes in between here.
\<close>

definition store_commit ::
  "(nat \<Rightarrow> byte) \<Rightarrow> nat \<Rightarrow> log_body \<Rightarrow> store \<Rightarrow> disk \<Rightarrow> unit res \<times> store \<times> disk" where
  "store_commit mem now body s d =
     (if wal_syncPolicy (st_wal s) = SYNC_EVERY_WRITE then store_write mem now body s d
      else
        (case store_enqueue now body s of
           Inl err \<Rightarrow> (Inl err, s, d)
         | Inr (s, trigger) \<Rightarrow>
             (case fst (flushBatch mem (st_wal s) (dk_logs d)) of
                None \<Rightarrow> (Inr (), store_flushBatch mem now s d)
              | Some err \<Rightarrow> (Inl err, store_flushBatch mem now s d))))"

definition store_put ::
  "(nat \<Rightarrow> byte) \<Rightarrow> nat \<Rightarrow> jstring \<Rightarrow> jstring \<Rightarrow> store \<Rightarrow> disk \<Rightarrow> unit res \<times> store \<times> disk" where
  "store_put mem now key v = store_commit mem now (put_body key v)"

definition store_delete ::
  "(nat \<Rightarrow> byte) \<Rightarrow> nat \<Rightarrow> jstring \<Rightarrow> store \<Rightarrow> disk \<Rightarrow> unit res \<times> store \<times> disk" where
  "store_delete mem now key = store_commit mem now (delete_body key)"

definition store_batchPut ::
  "(nat \<Rightarrow> byte) \<Rightarrow> nat \<Rightarrow> (jstring \<times> jstring) list \<Rightarrow> store \<Rightarrow> disk \<Rightarrow> nat res \<times> store \<times> disk" where
  "store_batchPut mem now entries s d =
     (case ensureInitialized s of
        Inl err \<Rightarrow> (Inl err, s, d)
      | Inr u \<Rightarrow>
          if entries = [] then (Inr 0, s, d)
          else
            (case store_commit mem now (batch_body (map fst entries) (map snd entries)) s d of
               (Inl err, s, d) \<Rightarrow> (Inl err, s, d)
             | (Inr u, s, d) \<Rightarrow> (Inr (length entries), s, d)))"

section \<open>The steps of a flush\<close>

definition flush_step :: "read_env \<Rightarrow> nat \<Rightarrow> store \<Rightarrow> disk \<Rightarrow> store \<times> disk" where
  "flush_step env now s d =
     (case st_flush s of
        NoFlush \<Rightarrow> (s, d)
      | Building writer \<Rightarrow>
          (case sw_build (env_mem env) now writer (dk_files d) of
             (Inl err, writer, fs) \<Rightarrow> (s\<lparr>st_flush := NoFlush\<rparr>, d\<lparr>dk_files := fs\<rparr>)
           | (Inr metadata, writer, fs) \<Rightarrow> (s\<lparr>st_flush := Built metadata\<rparr>, d\<lparr>dk_files := fs\<rparr>))
      | Built metadata \<Rightarrow>
          (case addSSTable metadata (st_manifest s) of
             Inl err \<Rightarrow> (s\<lparr>st_flush := NoFlush\<rparr>, d)
           | Inr (m, disk) \<Rightarrow>
               (s\<lparr>st_manifest := m, st_flush := Recorded metadata\<rparr>, d\<lparr>dk_manifest := disk\<rparr>))
      | Recorded metadata \<Rightarrow>
          (case openFile env (dk_files d) (sm_filePath metadata) of
             Inl err \<Rightarrow> (s\<lparr>st_flush := NoFlush\<rparr>, d)
           | Inr reader \<Rightarrow>
               (s\<lparr>st_sstables := (metadata, reader) # st_sstables s, st_flush := Opened\<rparr>, d))
      | Opened \<Rightarrow>
          (case checkpoint (env_mem env) now (st_wal s) (dk_logs d) of
             (err, acked, w, logs) \<Rightarrow>
               let s = fold (finish_write now) acked (s\<lparr>st_wal := w\<rparr>);
                   s = (if err = None then s\<lparr>st_immutable := None\<rparr> else s)
               in (s\<lparr>st_flush := NoFlush\<rparr>, d\<lparr>dk_logs := logs\<rparr>)))"

section \<open>Reads\<close>

definition entry_value :: "mem_entry \<Rightarrow> jstring option" where
  "entry_value e = (if mt_deleted e then None else Some (mt_value e))"

fun search_tables ::
  "read_env \<Rightarrow> (sst_meta \<times> sst_reader) list \<Rightarrow> jstring \<Rightarrow> sst_entry option res" where
  "search_tables env [] key = Inr None"
| "search_tables env ((meta, reader) # ts) key =
     bind_res (isInRange reader key) (\<lambda>inRange.
     if \<not> inRange then search_tables env ts key else
     bind_res (mayContain reader key) (\<lambda>may.
     if \<not> may then search_tables env ts key else
     bind_res (reader_get env reader key) (\<lambda>found.
     (case found of Some e \<Rightarrow> Inr (Some e) | None \<Rightarrow> search_tables env ts key))))"

definition store_get :: "read_env \<Rightarrow> jstring \<Rightarrow> store \<Rightarrow> jstring option res" where
  "store_get env key s =
     bind_res (ensureInitialized s) (\<lambda>u.
     (case mt_getEntry (st_active s) key of
        Some e \<Rightarrow> Inr (entry_value e)
      | None \<Rightarrow>
          (case (case st_immutable s of None \<Rightarrow> None | Some m \<Rightarrow> mt_getEntry m key) of
             Some e \<Rightarrow> Inr (entry_value e)
           | None \<Rightarrow>
               bind_res (search_tables env (st_sstables s) key) (\<lambda>found.
               (case found of
                  Some e \<Rightarrow> Inr (if se_deleted e then None else Some (se_value e))
                | None \<Rightarrow> Inr None)))))"

definition memTableRangeToMergeEntries :: "(jstring \<times> mem_entry) list \<Rightarrow> merge_entry list" where
  "memTableRangeToMergeEntries entries =
     map (\<lambda>(key, entry). \<lparr>me_key = key, me_value = mt_value entry, me_time = mt_time entry,
       me_deleted = mt_deleted entry\<rparr>) entries"

definition sst_merge_entry :: "sst_entry \<Rightarrow> merge_entry" where
  "sst_merge_entry e = \<lparr>me_key = se_key e, me_value = se_value e, me_time = se_time e,
     me_deleted = se_deleted e\<rparr>"

definition sstableRangeToMergeEntries ::
  "read_env \<Rightarrow> sst_reader \<Rightarrow> jstring \<Rightarrow> jstring \<Rightarrow> merge_entry list res" where
  "sstableRangeToMergeEntries env reader startKey endKey =
     (case reader_iterate env reader (Some startKey) (Some endKey) of
        (es, None) \<Rightarrow> Inr (map sst_merge_entry es)
      | (es, Some err) \<Rightarrow> Inl err)"

text \<open>The loop that yields: it looks at the limit after each pair.\<close>

definition limited :: "nat option \<Rightarrow> 'a list \<Rightarrow> 'a list" where
  "limited limit xs = (case limit of None \<Rightarrow> xs | Some n \<Rightarrow> take (max 1 n) xs)"

text \<open>
  All pairs of the range query, or the error that ends it (the pairs yielded before the error
  are left out of the result then).
\<close>

definition readKeyRange ::
  "read_env \<Rightarrow> jstring \<Rightarrow> jstring \<Rightarrow> nat option \<Rightarrow> store \<Rightarrow> (jstring \<times> jstring) list res" where
  "readKeyRange env startKey endKey limit s =
     bind_res (ensureInitialized s) (\<lambda>u.
     if endKey < startKey then Inr []
     else
       let activeEntries = memTableRangeToMergeEntries (mt_getRange (st_active s) startKey endKey);
           immutableEntries = (case st_immutable s of None \<Rightarrow> []
             | Some m \<Rightarrow> memTableRangeToMergeEntries (mt_getRange m startKey endKey));
           syncSources = filter (\<lambda>es. es \<noteq> []) [activeEntries, immutableEntries];
           tables = filter (\<lambda>t. \<not> (sm_lastKey (fst t) < startKey \<or> endKey < sm_firstKey (fst t)))
             (st_sstables s)
       in bind_res (map_res (\<lambda>t. sstableRangeToMergeEntries env (snd t) startKey endKey) tables)
            (\<lambda>asyncSources.
            Inr (limited limit (iterate False (new_merge (syncSources @ asyncSources))))))"

section \<open>Opening and closing\<close>

text \<open>
  Tables that cannot be opened are dropped from the manifest.
\<close>

fun loadSSTables ::
  "read_env \<Rightarrow> sst_meta list \<Rightarrow> store \<Rightarrow> disk \<Rightarrow> (store \<times> disk) res" where
  "loadSSTables env [] s d = Inr (s, d)"
| "loadSSTables env (meta # metas) s d =
     (case openFile env (dk_files d) (sm_filePath meta) of
        Inr reader \<Rightarrow>
          loadSSTables env metas (s\<lparr>st_sstables := st_sstables s @ [(meta, reader)]\<rparr>) d
      | Inl err \<Rightarrow>
          bind_res (removeSSTables [sm_fileNumber meta] (st_manifest s)) (\<lambda>(m, disk).
          loadSSTables env metas (s\<lparr>st_manifest := m\<rparr>) (d\<lparr>dk_manifest := disk\<rparr>)))"

definition store_initialize :: "read_env \<Rightarrow> nat \<Rightarrow> store \<Rightarrow> disk \<Rightarrow> (store \<times> disk) res" where
  "store_initialize env now s d =
     (if st_initialized s then Inl AlreadyInitialized
      else
        bind_res (manifest_load now (dk_manifest d) (st_manifest s)) (\<lambda>m.
        bind_res (getSSTables m) (\<lambda>metas.
        bind_res (loadSSTables env metas (s\<lparr>st_manifest := m\<rparr>) d) (\<lambda>(s, d).
        let (w, logs) = wal_open now (st_wal s) (dk_logs d);
            entries = wal_replay logs;
            active = fold (applyLogEntry now) entries (st_active s)
        in Inr (s\<lparr>st_wal := w, st_active := active, st_initialized := True\<rparr>,
                d\<lparr>dk_logs := logs\<rparr>)))))"

text \<open>
  The last flush of the log ends the writes that wait for it. Its error leaves the log open and
  the store initialised.
\<close>

definition store_close :: "(nat \<Rightarrow> byte) \<Rightarrow> nat \<Rightarrow> store \<Rightarrow> disk \<Rightarrow> unit res \<times> store \<times> disk" where
  "store_close mem now s d =
     (let s = s\<lparr>st_sstables := map (\<lambda>(meta, r). (meta, reader_close r)) (st_sstables s)\<rparr>
      in case wal_close mem (st_wal s) (dk_logs d) of
           (Some err, acked, w, logs) \<Rightarrow> (Inl err, s\<lparr>st_wal := w\<rparr>, d\<lparr>dk_logs := logs\<rparr>)
         | (None, acked, w, logs) \<Rightarrow>
             (Inr (), (fold (finish_write now) acked (s\<lparr>st_wal := w\<rparr>))\<lparr>st_initialized := False\<rparr>, d\<lparr>dk_logs := logs\<rparr>))"

text \<open>
  An entry from the primary is appended and then applied as at recovery; under group commit the
  caller waits for its batch, as in \<open>store_commit\<close>.
\<close>

definition applyReplicatedEntry ::
  "(nat \<Rightarrow> byte) \<Rightarrow> nat \<Rightarrow> log_entry \<Rightarrow> store \<Rightarrow> disk \<Rightarrow> unit res \<times> store \<times> disk" where
  "applyReplicatedEntry mem now entry s d =
     (case ensureInitialized s of
        Inl err \<Rightarrow> (Inl err, s, d)
      | Inr u \<Rightarrow>
          if wal_syncPolicy (st_wal s) = SYNC_EVERY_WRITE then
            (case append_sync mem now (log_body.truncate entry) (st_wal s) (dk_logs d) of
               (Inl err, w, logs, acked) \<Rightarrow> (Inl err, s\<lparr>st_wal := w\<rparr>, d\<lparr>dk_logs := logs\<rparr>)
             | (Inr u, w, logs, acked) \<Rightarrow>
                 (Inr (), maybeFlush (s\<lparr>st_wal := w, st_active := applyLogEntry now entry (st_active s)\<rparr>),
                  d\<lparr>dk_logs := logs\<rparr>))
          else
            (case append_queue now (log_body.truncate entry) (st_wal s) of
               (w, trigger) \<Rightarrow>
                 (case flushBatch mem w (dk_logs d) of
                    (Some err, acked, w, logs) \<Rightarrow> (Inl err, s\<lparr>st_wal := w\<rparr>, d\<lparr>dk_logs := logs\<rparr>)
                  | (None, acked, w, logs) \<Rightarrow>
                      let s = fold (finish_write now) (butlast acked) (s\<lparr>st_wal := w\<rparr>)
                      in (Inr (), maybeFlush (s\<lparr>st_active := applyLogEntry now entry (st_active s)\<rparr>),
                          d\<lparr>dk_logs := logs\<rparr>))))"

end
