(* ===== verification/Store_Reads.thy ===== *)
theory Store_Reads
  imports LSM_Store
begin

text \<open>
  The abstract store and the reads. A memtable or a table is a layer: a map from keys to
  \<open>Some v\<close> (a value) or \<open>None\<close> (a tombstone); the content of the store is what the first
  layer with the key says. \<open>get\<close> and \<open>readKeyRange\<close> are proved to return it.
\<close>

section \<open>Layers\<close>

type_synonym layer = "jstring \<rightharpoonup> jstring option"

definition mem_layer :: "mem_table \<Rightarrow> layer" where
  "mem_layer m k = map_option entry_value (mt_getEntry m k)"

definition sst_value :: "sst_entry \<Rightarrow> jstring option" where
  "sst_value e = (if se_deleted e then None else Some (se_value e))"

definition table_layer :: "sst_entry list \<Rightarrow> layer" where
  "table_layer es k = map_option sst_value (find (\<lambda>e. se_key e = k) es)"

definition view :: "layer list \<Rightarrow> jstring \<rightharpoonup> jstring" where
  "view layers k = (case first_hit layers k of Some x \<Rightarrow> x | None \<Rightarrow> None)"

definition memory_layers :: "store \<Rightarrow> layer list" where
  "memory_layers s = mem_layer (st_active s) #
     (case st_immutable s of None \<Rightarrow> [] | Some m \<Rightarrow> [mem_layer m])"

definition store_view :: "store \<Rightarrow> sst_entry list list \<Rightarrow> jstring \<rightharpoonup> jstring" where
  "store_view s tables = view (memory_layers s @ map table_layer tables)"

text \<open>The open tables hold the given entries, and their metadata describe them.\<close>

definition table_open :: "read_env \<Rightarrow> sst_meta \<times> sst_reader \<Rightarrow> sst_entry list \<Rightarrow> bool" where
  "table_open env t es \<longleftrightarrow> represents env (snd t) es \<and>
     sm_firstKey (fst t) = se_key (hd es) \<and> sm_lastKey (fst t) = se_key (last es)"

definition tables_open :: "read_env \<Rightarrow> (sst_meta \<times> sst_reader) list \<Rightarrow> sst_entry list list \<Rightarrow> bool" where
  "tables_open env = list_all2 (table_open env)"

definition memory_ok :: "store \<Rightarrow> bool" where
  "memory_ok s \<longleftrightarrow> mt_invar (st_active s) \<and> (\<forall>m. st_immutable s = Some m \<longrightarrow> mt_invar m)"

lemma view_Cons: "view (l # ls) k = (case l k of Some x \<Rightarrow> x | None \<Rightarrow> view ls k)"
  by (simp add: view_def split: option.splits)

lemma view_upd: "view (l(k \<mapsto> x) # ls) = (view (l # ls))(k := x)"
  by (auto simp: fun_eq_iff view_Cons)

lemma view_cong: "(\<And>k. first_hit ls k = first_hit ls' k) \<Longrightarrow> view ls = view ls'"
  by (simp add: view_def fun_eq_iff)

section \<open>Point lookup\<close>

lemma search_tables_represents:
  assumes "list_all2 (\<lambda>t es. represents env (snd t) es) ts tables"
  shows "search_tables env ts key = Inr (first_hit (map (\<lambda>es k. find (\<lambda>e. se_key e = k) es) tables) key)"
  using assms
proof (induction rule: list_all2_induct)
  case (Cons t ts es tables)
  obtain meta r where t: "t = (meta, r)" by fastforce
  have rep: "represents env r es" using Cons.hyps(1) t by simp
  obtain c1 c2 where c: "isInRange r key = Inr c1" "key \<in> se_key ` set es \<longrightarrow> c1"
    "mayContain r key = Inr c2" "key \<in> se_key ` set es \<longrightarrow> c2"
    using sst.in_range_total [OF rep] sst.may_have_total [OF rep] by blast
  have none: "find (\<lambda>e. se_key e = key) es = None" if "key \<notin> se_key ` set es"
    using that by (intro find_absent) auto
  have get: "reader_get env r key = Inr (find (\<lambda>e. se_key e = key) es)"
    by (rule sst.look_up_find [OF rep])
  show ?case
    using c none get Cons.IH by (auto simp: t split: option.split)
qed simp

lemma first_hit_map_option:
  "first_hit (map (\<lambda>x k. map_option f (g x k)) xs) k = map_option f (first_hit (map g xs) k)"
  by (induction xs) (auto split: option.splits)

lemma table_layers_hit:
  "first_hit (map table_layer tables) key =
   map_option sst_value (first_hit (map (\<lambda>es k. find (\<lambda>e. se_key e = k) es) tables) key)"
  unfolding table_layer_def [abs_def] by (rule first_hit_map_option)

lemma store_get_represents:
  assumes "st_initialized s" "list_all2 (\<lambda>t es. represents env (snd t) es) (st_sstables s) tables"
  shows "store_get env key s = Inr (store_view s tables key)"
proof -
  let ?found = "first_hit (map (\<lambda>es k. find (\<lambda>e. se_key e = k) es) tables) key"
  have tables: "first_hit (map table_layer tables) key = map_option sst_value ?found"
    by (rule table_layers_hit)
  show ?thesis
    using assms(1) search_tables_represents [OF assms(2), of key] tables
    by (auto simp: store_get_def ensureInitialized_def store_view_def view_def memory_layers_def
        mem_layer_def sst_value_def split: option.split)
qed

lemma tables_open_represents:
  "tables_open env ts tables \<Longrightarrow> list_all2 (\<lambda>t es. represents env (snd t) es) ts tables"
  unfolding tables_open_def by (erule list.rel_mono_strong) (simp add: table_open_def)

lemma store_get_ok:
  assumes "st_initialized s" "tables_open env (st_sstables s) tables"
  shows "store_get env key s = Inr (store_view s tables key)"
  by (rule store_get_represents [OF assms(1) tables_open_represents [OF assms(2)]])

section \<open>Range queries\<close>

definition merge_value :: "'a merge_entry_scheme \<Rightarrow> jstring option" where
  "merge_value e = (if me_deleted e then None else Some (me_value e))"

lemma merge_value_simps [simp]:
  "merge_value \<lparr>me_key = k, me_value = mt_value m, me_time = t, me_deleted = mt_deleted m\<rparr> = entry_value m"
  "merge_value (sst_merge_entry e) = sst_value e" "me_key (sst_merge_entry e) = se_key e"
  by (simp_all add: merge_value_def entry_value_def sst_merge_entry_def sst_value_def)

lemma memTable_source:
  assumes "mt_invar m"
  shows "ordered_by me_key (memTableRangeToMergeEntries (mt_getRange m a b))"
    and "map_option merge_value
           (entry_of (memTableRangeToMergeEntries (mt_getRange m a b)) k) =
         (if a \<le> k \<and> k \<le> b then mem_layer m k else None)"
proof -
  have "ordered_by fst (mt_getRange m a b)"
    by (simp add: getRange_filter [OF assms] ordered_by_filter getAllSorted_ordered [OF assms])
  then show "ordered_by me_key (memTableRangeToMergeEntries (mt_getRange m a b))"
    by (simp add: memTableRangeToMergeEntries_def comp_def case_prod_unfold)
  have "entry_of (memTableRangeToMergeEntries ps) k = map_option (\<lambda>entry. \<lparr>me_key = k,
      me_value = mt_value entry, me_time = mt_time entry, me_deleted = mt_deleted entry\<rparr>) (map_of ps k)" for ps
    by (induction ps) (auto simp: memTableRangeToMergeEntries_def)
  then show "map_option merge_value
           (entry_of (memTableRangeToMergeEntries (mt_getRange m a b)) k) =
         (if a \<le> k \<and> k \<le> b then mem_layer m k else None)"
    by (simp add: getRange_lookup [OF assms] mem_layer_def option.map_comp comp_def)
qed

text \<open>What a source contributes: the layer of its entries.\<close>

definition source_layer :: "merge_entry list \<Rightarrow> layer" where
  "source_layer es k = map_option merge_value (entry_of es k)"

lemma newest_layers:
  "map_option merge_value (newest srcs k) =
   first_hit (map source_layer srcs) k"
  unfolding newest_def source_layer_def [abs_def] by (simp add: first_hit_map_option)

definition restrict_layer :: "jstring \<Rightarrow> jstring \<Rightarrow> layer \<Rightarrow> layer" where
  "restrict_layer a b l k = (if a \<le> k \<and> k \<le> b then l k else None)"

lemma first_hit_restrict:
  "first_hit (map (restrict_layer a b) ls) k = (if a \<le> k \<and> k \<le> b then first_hit ls k else None)"
  by (induction ls) (auto simp: restrict_layer_def split: option.splits)

lemma entry_of_sst:
  "entry_of (map sst_merge_entry es) k = map_option sst_merge_entry (find (\<lambda>e. se_key e = k) es)"
  by (induction es) auto

lemma find_range:
  "find (\<lambda>e. f e = k) (filter (\<lambda>e. a \<le> f e \<and> f e \<le> b) es) =
   (if a \<le> k \<and> k \<le> b then find (\<lambda>e. f e = k) es else None)"
  by (induction es) auto

lemma table_source:
  assumes "table_open env t es"
  shows "sstableRangeToMergeEntries env (snd t) a b =
      Inr (map sst_merge_entry (filter (\<lambda>e. a \<le> se_key e \<and> se_key e \<le> b) es))"
    and "ordered_by me_key (map sst_merge_entry (filter (\<lambda>e. a \<le> se_key e \<and> se_key e \<le> b) es))"
    and "source_layer (map sst_merge_entry (filter (\<lambda>e. a \<le> se_key e \<and> se_key e \<le> b) es)) =
      restrict_layer a b (table_layer es)"
    and "sm_lastKey (fst t) < a \<or> b < sm_firstKey (fst t) \<Longrightarrow> restrict_layer a b (table_layer es) k = None"
proof -
  have rep: "represents env (snd t) es" and keys: "sm_firstKey (fst t) = se_key (hd es)"
    "sm_lastKey (fst t) = se_key (last es)"
    using assms by (auto simp: table_open_def)
  note ord = sst.holds_ordered [OF rep]
  show "sstableRangeToMergeEntries env (snd t) a b =
      Inr (map sst_merge_entry (filter (\<lambda>e. a \<le> se_key e \<and> se_key e \<le> b) es))"
    by (simp add: sstableRangeToMergeEntries_def sst.scan_filter [OF rep])
  show "ordered_by me_key (map sst_merge_entry (filter (\<lambda>e. a \<le> se_key e \<and> se_key e \<le> b) es))"
    using ord by (simp add: comp_def ordered_by_filter)
  show "source_layer (map sst_merge_entry (filter (\<lambda>e. a \<le> se_key e \<and> se_key e \<le> b) es)) =
      restrict_layer a b (table_layer es)"
    by (simp add: fun_eq_iff source_layer_def entry_of_sst find_range restrict_layer_def
        table_layer_def option.map_comp comp_def)
  assume "sm_lastKey (fst t) < a \<or> b < sm_firstKey (fst t)"
  then have "find (\<lambda>e. se_key e = k) es = None" if "a \<le> k" "k \<le> b"
    using represents_range [OF ord] keys that by (intro find_absent) fastforce
  then show "restrict_layer a b (table_layer es) k = None"
    by (simp add: restrict_layer_def table_layer_def)
qed

lemma tables_sources:
  assumes "tables_open env ts tables"
  obtains srcs where "map_res (\<lambda>t. sstableRangeToMergeEntries env (snd t) a b)
      (filter (\<lambda>t. \<not> (sm_lastKey (fst t) < a \<or> b < sm_firstKey (fst t))) ts) = Inr srcs"
    "\<forall>es\<in>set srcs. ordered_by me_key es"
    "\<forall>k. first_hit (map source_layer srcs) k = first_hit (map (\<lambda>es. restrict_layer a b (table_layer es)) tables) k"
proof -
  have "\<exists>srcs. map_res (\<lambda>t. sstableRangeToMergeEntries env (snd t) a b)
      (filter (\<lambda>t. \<not> (sm_lastKey (fst t) < a \<or> b < sm_firstKey (fst t))) ts) = Inr srcs \<and>
    (\<forall>es\<in>set srcs. ordered_by me_key es) \<and>
    (\<forall>k. first_hit (map source_layer srcs) k = first_hit (map (\<lambda>es. restrict_layer a b (table_layer es)) tables) k)"
    using assms unfolding tables_open_def
  proof (induction rule: list_all2_induct)
    case (Cons t ts es tables)
    then obtain srcs where IH: "map_res (\<lambda>t. sstableRangeToMergeEntries env (snd t) a b)
        (filter (\<lambda>t. \<not> (sm_lastKey (fst t) < a \<or> b < sm_firstKey (fst t))) ts) = Inr srcs"
      "\<forall>es\<in>set srcs. ordered_by me_key es"
      "\<forall>k. first_hit (map source_layer srcs) k = first_hit (map (\<lambda>es. restrict_layer a b (table_layer es)) tables) k"
      by blast
    note src = table_source [OF Cons.hyps(1), of a b]
    show ?case
    proof (cases "sm_lastKey (fst t) < a \<or> b < sm_firstKey (fst t)")
      case True
      then show ?thesis using IH src(4) by (intro exI [of _ srcs]) auto
    next
      case False
      let ?es = "map sst_merge_entry (filter (\<lambda>e. a \<le> se_key e \<and> se_key e \<le> b) es)"
      show ?thesis
        using False IH src(1-3) by (intro exI [of _ "?es # srcs"]) (simp split: option.split)
    qed
  qed simp
  then show thesis using that by blast
qed

lemma drop_empty_sources:
  "first_hit (map source_layer (filter (\<lambda>es. es \<noteq> []) srcs)) k = first_hit (map source_layer srcs) k"
  by (induction srcs) (auto simp: source_layer_def split: option.splits)

lemma readKeyRange_ok:
  assumes "st_initialized s" "memory_ok s" "tables_open env (st_sstables s) tables"
  obtains ps where "readKeyRange env a b limit s = Inr (limited limit ps)" "ordered_by fst ps"
    "\<forall>k. map_of ps k = (if a \<le> k \<and> k \<le> b then store_view s tables k else None)"
proof (cases "b < a")
  case True
  then have "\<not> (a \<le> k \<and> k \<le> b)" for k by auto
  then show ?thesis
    using True assms(1)
    by (intro that [of "[]"])
      (auto simp: readKeyRange_def ensureInitialized_def limited_def split: option.splits)
next
  case False
  define act where "act = memTableRangeToMergeEntries (mt_getRange (st_active s) a b)"
  define imm where "imm = (case st_immutable s of None \<Rightarrow> []
      | Some m \<Rightarrow> memTableRangeToMergeEntries (mt_getRange m a b))"
  obtain srcs where srcs: "map_res (\<lambda>t. sstableRangeToMergeEntries env (snd t) a b)
      (filter (\<lambda>t. \<not> (sm_lastKey (fst t) < a \<or> b < sm_firstKey (fst t))) (st_sstables s)) = Inr srcs"
    "\<forall>es\<in>set srcs. ordered_by me_key es"
    "\<forall>k. first_hit (map source_layer srcs) k = first_hit (map (\<lambda>es. restrict_layer a b (table_layer es)) tables) k"
    by (rule tables_sources [OF assms(3)])
  define all where "all = filter (\<lambda>es. es \<noteq> []) [act, imm] @ srcs"
  have mem: "mt_invar (st_active s)" "\<And>m. st_immutable s = Some m \<Longrightarrow> mt_invar m"
    using assms(2) by (auto simp: memory_ok_def)
  have ord: "\<forall>es\<in>set all. ordered_by me_key es"
    using memTable_source(1) mem srcs(2) by (auto simp: all_def act_def imm_def split: option.splits)
  have act: "source_layer act = restrict_layer a b (mem_layer (st_active s))"
    using memTable_source(2) [OF mem(1)] by (simp add: fun_eq_iff source_layer_def restrict_layer_def act_def)
  have imm: "source_layer imm = (case st_immutable s of None \<Rightarrow> Map.empty
      | Some m \<Rightarrow> restrict_layer a b (mem_layer m))"
    using memTable_source(2) mem(2)
    by (auto simp: fun_eq_iff source_layer_def restrict_layer_def imm_def split: option.splits)
  have "first_hit (map source_layer all) k =
      first_hit (map (restrict_layer a b) (memory_layers s @ map table_layer tables)) k" for k
    using srcs(3) drop_empty_sources [of "[act, imm]" k] act imm
    by (simp add: all_def memory_layers_def first_hit_append comp_def del: filter.simps split: option.split)
  then have layers: "first_hit (map source_layer all) k =
      (if a \<le> k \<and> k \<le> b then first_hit (memory_layers s @ map table_layer tables) k else None)" for k
    using first_hit_restrict [of a b "memory_layers s @ map table_layer tables" k] by metis
  let ?ps = "yielded False (merged all)"
  have range: "readKeyRange env a b limit s = Inr (limited limit ?ps)"
    using assms(1) False srcs(1) iterate_merged [OF ord, of False]
    by (simp add: readKeyRange_def ensureInitialized_def Let_def act_def [symmetric] imm_def [symmetric]
        all_def del: filter.simps)
  have "map_of ?ps k = (case first_hit (map source_layer all) k of Some x \<Rightarrow> x | None \<Rightarrow> None)" for k
    unfolding yielded_lookup newest_layers [symmetric]
    by (auto simp: merge_value_def split: option.splits)
  then have "map_of ?ps k = (if a \<le> k \<and> k \<le> b then store_view s tables k else None)" for k
    unfolding layers store_view_def view_def by simp
  then show ?thesis
    using that range ordered_yielded by blast
qed

end
