(* ===== verification/Store_Writes.thy ===== *)
theory Store_Writes
  imports Store_Reads
begin

text \<open>
  Writes and background flushes as a simulation: in the abstract store a write updates a map
  and a flush step does nothing. The invariant ties the phase of the flush to the immutable
  memtable, the manifest and the files.
\<close>

section \<open>The effect of a write\<close>

definition op_effect :: "'a log_body_scheme \<Rightarrow> layer \<Rightarrow> layer" where
  "op_effect e l =
     (case le_op e of
        PUT \<Rightarrow> l(the (le_key e) \<mapsto> Some (the (le_value e)))
      | DELETE \<Rightarrow> l(the (le_key e) \<mapsto> None)
      | BATCH_PUT \<Rightarrow> fold (\<lambda>(k, v) l. l(k \<mapsto> Some v)) (zip (the (le_keys e)) (the (le_values e))) l)"

definition view_effect :: "'a log_body_scheme \<Rightarrow> (jstring \<rightharpoonup> jstring) \<Rightarrow> jstring \<rightharpoonup> jstring" where
  "view_effect e m =
     (case le_op e of
        PUT \<Rightarrow> m(the (le_key e) \<mapsto> the (le_value e))
      | DELETE \<Rightarrow> m(the (le_key e) := None)
      | BATCH_PUT \<Rightarrow> fold (\<lambda>(k, v) m. m(k \<mapsto> v)) (zip (the (le_keys e)) (the (le_values e))) m)"

lemma view_effect_layer: "view (op_effect e l # ls) = view_effect e (view (l # ls))"
proof (cases "le_op e")
  case BATCH_PUT
  have "view (fold (\<lambda>(k, v) l. l(k \<mapsto> Some v)) kvs l # ls) =
      fold (\<lambda>(k, v) m. m(k \<mapsto> v)) kvs (view (l # ls))" for kvs
    by (induction kvs arbitrary: l) (auto simp: view_upd)
  then show ?thesis using BATCH_PUT by (simp add: op_effect_def view_effect_def)
qed (simp_all add: op_effect_def view_effect_def view_upd)

lemma mem_layer_put:
  "mt_invar m \<Longrightarrow> mem_layer (mt_put now k v False m) = (mem_layer m)(k \<mapsto> Some v)"
  by (auto simp: mem_layer_def fun_eq_iff getEntry_put entry_value_def)

lemma mem_layer_delete:
  "mt_invar m \<Longrightarrow> mem_layer (mt_delete now k m) = (mem_layer m)(k \<mapsto> None)"
  by (auto simp: mem_layer_def fun_eq_iff getEntry_delete entry_value_def)

lemma mem_layer_new [simp]: "mem_layer (new_mem_table limit) = Map.empty"
  by (simp add: mem_layer_def fun_eq_iff)

lemma fold_put:
  "mt_invar m \<Longrightarrow> mt_invar (fold (\<lambda>(k, v). mt_put now k v False) kvs m) \<and>
   mem_layer (fold (\<lambda>(k, v). mt_put now k v False) kvs m) =
   fold (\<lambda>(k, v) l. l(k \<mapsto> Some v)) kvs (mem_layer m)"
  by (induction kvs arbitrary: m) (auto simp: mem_layer_put)

lemma write_memtable_layer:
  assumes "mt_invar m"
  shows "mt_invar (write_memtable now e m)"
    and "mem_layer (write_memtable now e m) = op_effect e (mem_layer m)"
  using fold_put [OF assms] assms
  by (auto simp: write_memtable_def op_effect_def mem_layer_put mem_layer_delete split: log_op.split)

section \<open>What may be stored\<close>

text \<open>
  Writes that the log and the tables carry: what \<open>serializePayload\<close> accepts, with keys that
  begin with an ASCII character and values of at most 16 MiB (see \<open>readable_ascii\<close>).
\<close>

definition storable_key :: "jstring \<Rightarrow> bool" where
  "storable_key k \<longleftrightarrow> key_ok k \<and> ascii_start k"

definition storable_value :: "jstring \<Rightarrow> bool" where
  "storable_value v \<longleftrightarrow> string_ok 16777217 v"

definition storable_body :: "log_body \<Rightarrow> bool" where
  "storable_body b \<longleftrightarrow>
     (\<exists>k v. b = put_body k v \<and> storable_key k \<and> storable_value v \<and> v \<noteq> empty_string) \<or>
     (\<exists>k. b = delete_body k \<and> storable_key k) \<or>
     (\<exists>ks vs. b = batch_body ks vs \<and> length ks = length vs \<and> length ks < 4294967296 \<and>
        (\<forall>k\<in>set ks. storable_key k) \<and> (\<forall>v\<in>set vs. storable_value v))"

lemma storable_key_ne: "storable_key k \<Longrightarrow> k \<noteq> empty_string"
  by (auto simp: storable_key_def ascii_start_def)

lemma storable_value_ok: "storable_value v \<Longrightarrow> value_ok v"
  by (auto simp: storable_value_def string_ok_def)

lemma storable_body_ok:
  assumes "storable_body b"
  shows "body_ok b"
proof -
  consider (put) k v where "b = put_body k v" "storable_key k" "storable_value v" "v \<noteq> empty_string"
    | (delete) k where "b = delete_body k" "storable_key k"
    | (batch) ks vs where "b = batch_body ks vs" "length ks = length vs" "length ks < 4294967296"
      "\<forall>k\<in>set ks. storable_key k" "\<forall>v\<in>set vs. storable_value v"
    using assms unfolding storable_body_def by blast
  then show ?thesis
  proof cases
    case put
    then show ?thesis
      unfolding body_ok_def
      by (intro disjI1 exI [of _ k] exI [of _ v])
        (simp add: storable_key_ne storable_value_ok, simp add: storable_key_def)
  next
    case delete
    then show ?thesis
      unfolding body_ok_def
      by - (rule disjI2, rule disjI1, rule exI [of _ k], simp add: storable_key_ne, simp add: storable_key_def)
  next
    case batch
    then show ?thesis
      unfolding body_ok_def
      by (intro disjI2 exI [of _ ks] exI [of _ vs]) (auto simp: storable_value_ok storable_key_def)
  qed
qed

definition storable_entry :: "jstring \<Rightarrow> mem_entry \<Rightarrow> bool" where
  "storable_entry k e \<longleftrightarrow> storable_key k \<and> storable_value (mt_value e) \<and> mt_time e \<le> 2 ^ 53"

definition mem_storable :: "mem_table \<Rightarrow> bool" where
  "mem_storable m \<longleftrightarrow> mt_invar m \<and> (\<forall>k e. mt_getEntry m k = Some e \<longrightarrow> storable_entry k e)"

lemma mem_storable_new [simp]: "mem_storable (new_mem_table limit)"
  by (simp add: mem_storable_def)

lemma storable_value_empty [simp]: "storable_value empty_string"
  by (simp add: storable_value_def string_ok_def)

lemma mem_storable_put:
  assumes "mem_storable m" "storable_key k" "storable_value v" "now \<le> 2 ^ 53"
  shows "mem_storable (mt_put now k v d m)"
  using assms by (auto simp: mem_storable_def getEntry_put storable_entry_def split: if_splits)

lemma mem_storable_delete:
  assumes "mem_storable m" "storable_key k" "now \<le> 2 ^ 53"
  shows "mem_storable (mt_delete now k m)"
  using assms by (auto simp: mem_storable_def getEntry_delete storable_entry_def split: if_splits)

lemma mem_storable_fold:
  assumes "mem_storable m" "\<forall>(k, v)\<in>set kvs. storable_key k \<and> storable_value v" "now \<le> 2 ^ 53"
  shows "mem_storable (fold (\<lambda>(k, v). mt_put now k v False) kvs m)"
  using assms by (induction kvs arbitrary: m) (auto simp: mem_storable_put)

lemma storable_zip:
  assumes "\<forall>k\<in>set ks. storable_key k" "\<forall>v\<in>set vs. storable_value v"
  shows "\<forall>(k, v)\<in>set (zip ks vs). storable_key k \<and> storable_value v"
  using assms by (auto dest: set_zip_leftD set_zip_rightD)

lemma mem_storable_write:
  assumes "mem_storable m" "storable_body b" "now \<le> 2 ^ 53"
  shows "mem_storable (write_memtable now b m)"
  using assms(2) unfolding storable_body_def
proof (elim disjE exE conjE)
  fix ks vs
  assume b: "b = batch_body ks vs" "\<forall>k\<in>set ks. storable_key k" "\<forall>v\<in>set vs. storable_value v"
  show ?thesis
    using mem_storable_fold [OF assms(1) storable_zip [OF b(2,3)] assms(3)]
    by (simp add: b(1) write_memtable_def)
qed (use assms in \<open>simp_all add: write_memtable_def mem_storable_put mem_storable_delete\<close>)

text \<open>The entries of a memtable as the entries of a table.\<close>

definition flush_entries :: "mem_table \<Rightarrow> sst_entry list" where
  "flush_entries m = map to_sst_entry (mt_getAllSorted m)"

lemma find_flush_entries:
  "mt_invar m \<Longrightarrow> find (\<lambda>e. se_key e = k) (flush_entries m) =
     map_option (\<lambda>e. to_sst_entry (k, e)) (mt_getEntry m k)"
proof -
  have "find (\<lambda>e. se_key e = k) (map to_sst_entry ps) = map_option (\<lambda>e. to_sst_entry (k, e)) (map_of ps k)" for ps
    by (induction ps) (auto simp: to_sst_entry_def)
  then show "mt_invar m \<Longrightarrow> ?thesis" by (simp add: flush_entries_def getAllSorted_lookup)
qed

lemma sst_value_mem [simp]: "sst_value (to_sst_entry (k, e)) = entry_value e"
  by (simp add: sst_value_def entry_value_def to_sst_entry_def)

lemma table_layer_flush: "mt_invar m \<Longrightarrow> table_layer (flush_entries m) = mem_layer m"
  by (simp add: fun_eq_iff table_layer_def mem_layer_def find_flush_entries option.map_comp comp_def)

lemma flush_entries_ordered: "mt_invar m \<Longrightarrow> ordered_by se_key (flush_entries m)"
  using getAllSorted_ordered [of m] by (simp add: flush_entries_def comp_def to_sst_entry_def)

lemma flush_entries_readable:
  assumes "mem_storable m" "2147483647 \<le> env_limit env" "e \<in> set (flush_entries m)"
  shows "readable env e"
proof -
  obtain k v where kv: "(k, v) \<in> set (mt_getAllSorted m)" "e = to_sst_entry (k, v)"
    using assms(3) by (auto simp: flush_entries_def)
  then have "mt_getEntry m k = Some v"
    using assms(1) getAllSorted_ordered [of m] getAllSorted_lookup [of m]
    by (metis map_of_ordered mem_storable_def)
  then have "storable_entry k v" using assms(1) by (simp add: mem_storable_def)
  then show ?thesis
    using kv(2) assms(2)
    by (intro readable_ascii)
      (auto simp: storable_entry_def storable_key_def storable_value_def string_ok_def to_sst_entry_def
        sst_entry_ok_def)
qed

end
