(* ===== verification/Store_Steps.thy ===== *)
theory Store_Steps
  imports Store_Writes
begin

text \<open>
  The storage engine as a state machine: writes, batch commits and the steps of the background
  flush in any order. The invariant ties the phase of the flush to the immutable memtable, the
  manifest and the files; every step is a step of a map, on which the writes take effect one
  by one and the flush does nothing.
\<close>

section \<open>Tables on disk\<close>

lemma sst_path_inject [simp]: "sst_path dir m = sst_path dir n \<longleftrightarrow> m = n"
  using decimal_inj [of 5 m n] by (auto simp: sst_path_def join_path_def formatFileName_def)

lemma sst_path_last: "last (units (sst_path dir n)) = 116"
  by (simp add: sst_path_def join_path_def formatFileName_def js_append_def js_def)

lemma temp_path_last: "last (units (temp_path p)) = 112"
  by (simp add: temp_path_def js_append_def js_def)

lemma temp_path_sst_path [simp]: "temp_path p \<noteq> sst_path dir n" "sst_path dir n \<noteq> temp_path p"
  using temp_path_last [of p] sst_path_last [of dir n] by auto

text \<open>A table with its metadata, complete under its final name.\<close>

definition table_file :: "read_env \<Rightarrow> sst_config \<Rightarrow> files \<Rightarrow> sst_meta \<Rightarrow> sst_entry list \<Rightarrow> bool" where
  "table_file env cfg fs meta es \<longleftrightarrow>
     (\<exists>n now index bloom. meta = table_meta n now es index bloom (sst_path (cf_dataDir cfg) n) \<and>
        fs (sst_path (cf_dataDir cfg) n) = Some (table_bytes n now es index bloom) \<and>
        table_ok n now es \<and> table_parts es index bloom \<and> (\<forall>e\<in>set es. readable env e))"

lemma table_file_open:
  assumes "table_file env cfg fs meta es" "2147483647 \<le> env_limit env"
  obtains r where "openFile env fs (sm_filePath meta) = Inr r" "table_open env (meta, r) es"
proof -
  obtain n now index bloom where t: "meta = table_meta n now es index bloom (sst_path (cf_dataDir cfg) n)"
    "fs (sst_path (cf_dataDir cfg) n) = Some (table_bytes n now es index bloom)"
    "table_ok n now es" "table_parts es index bloom" "\<forall>e\<in>set es. readable env e"
    using assms(1) by (auto simp: table_file_def)
  let ?path = "sst_path (cf_dataDir cfg) n"
  have "openFile env fs ?path = Inr (opened_reader ?path n now es index bloom)"
    by (rule openFile_ok [where fs = fs, OF t(3,4,2)]) (use assms(2) in simp)
  moreover have "represents env (opened_reader ?path n now es index bloom) es"
    unfolding represents_def using t(3-5) by blast
  ultimately show thesis
    using that t(1) by (simp add: table_open_def table_meta_def)
qed

lemma table_file_write:
  assumes "table_file env cfg fs meta es" "sm_fileNumber meta \<noteq> n"
  shows "table_file env cfg (fs(temp_path p := None, sst_path (cf_dataDir cfg) n \<mapsto> bs)) meta es"
proof -
  obtain m now index bloom where t: "meta = table_meta m now es index bloom (sst_path (cf_dataDir cfg) m)"
    "fs (sst_path (cf_dataDir cfg) m) = Some (table_bytes m now es index bloom)"
    "table_ok m now es \<and> table_parts es index bloom \<and> (\<forall>e\<in>set es. readable env e)"
    using assms(1) by (auto simp: table_file_def)
  moreover have "m \<noteq> n" using assms(2) t(1) by (simp add: table_meta_def)
  ultimately show ?thesis unfolding table_file_def by fastforce
qed

section \<open>The invariant\<close>

text \<open>
  An entry that may be logged: the log takes it or refuses it, and what the log takes, the
  tables can hold.
\<close>

definition acceptable :: "log_entry \<Rightarrow> bool" where
  "acceptable e \<longleftrightarrow> loggable e \<and> (entry_ok e \<longrightarrow> storable_body (log_body.truncate e))"

definition memory_good :: "store \<Rightarrow> bool" where
  "memory_good s \<longleftrightarrow> mem_storable (st_active s) \<and> (\<forall>m. st_immutable s = Some m \<longrightarrow> mem_storable m)"

text \<open>The tables that the manifest lists: once it is saved, also the one being flushed.\<close>

definition disk_tables :: "store \<Rightarrow> sst_entry list list \<Rightarrow> sst_entry list list" where
  "disk_tables s tables =
     (case (st_flush s, st_immutable s) of
        (Recorded meta, Some m) \<Rightarrow> flush_entries m # tables
      | _ \<Rightarrow> tables)"

definition tables_good :: "read_env \<Rightarrow> store \<Rightarrow> disk \<Rightarrow> sst_entry list list \<Rightarrow> bool" where
  "tables_good env s d tables \<longleftrightarrow>
     tables_open env (st_sstables s) tables \<and> mf_loaded (st_manifest s) \<and>
     manifest_inv (mf_state (st_manifest s)) \<and>
     (dk_manifest d = manifest_save (st_manifest s) \<or>
      dk_manifest d = NoManifest \<and> mf_sstables (mf_state (st_manifest s)) = []) \<and>
     list_all2 (table_file env (st_sstConfig s) (dk_files d)) (mf_sstables (mf_state (st_manifest s)))
       (disk_tables s tables)"

definition log_good :: "store \<Rightarrow> disk \<Rightarrow> bool" where
  "log_good s d \<longleftrightarrow> log_inv \<lparr>lg_wal = st_wal s, lg_dir = dk_logs d, lg_acked = []\<rparr> \<and>
     (\<forall>e\<in>set (wal_pendingWrites (st_wal s)). acceptable e)"

text \<open>
  The phase of the flush. An immutable memtable that is left when no flush runs is already in
  the newest table: only a failed checkpoint leaves one.
\<close>

definition flush_ok :: "read_env \<Rightarrow> store \<Rightarrow> disk \<Rightarrow> sst_entry list list \<Rightarrow> bool" where
  "flush_ok env s d tables \<longleftrightarrow>
     (case st_flush s of
        NoFlush \<Rightarrow> (\<forall>m. st_immutable s = Some m \<longrightarrow> (\<exists>rest. tables = flush_entries m # rest))
      | Building w \<Rightarrow> (\<exists>m. st_immutable s = Some m \<and> sw_entries w = flush_entries m \<and>
          \<not> sw_built w \<and> sw_sparseIndex w = [] \<and> sw_config w = st_sstConfig s \<and>
          sw_fileNumber w = mf_nextFileNumber (mf_state (st_manifest s)))
      | Built meta \<Rightarrow> (\<exists>m. st_immutable s = Some m \<and>
          table_file env (st_sstConfig s) (dk_files d) meta (flush_entries m) \<and>
          sm_fileNumber meta = mf_nextFileNumber (mf_state (st_manifest s)))
      | Recorded meta \<Rightarrow> (\<exists>m. st_immutable s = Some m \<and>
          table_file env (st_sstConfig s) (dk_files d) meta (flush_entries m))
      | Opened \<Rightarrow> (\<exists>m rest. st_immutable s = Some m \<and> tables = flush_entries m # rest))"

definition store_inv :: "read_env \<Rightarrow> store \<Rightarrow> disk \<Rightarrow> sst_entry list list \<Rightarrow> bool" where
  "store_inv env s d tables \<longleftrightarrow>
     st_initialized s \<and> 2147483647 \<le> env_limit env \<and> cf_falsePositiveRate (st_sstConfig s) < 1 \<and>
     memory_good s \<and> tables_good env s d tables \<and> log_good s d \<and> flush_ok env s d tables"

lemmas store_inv_parts = store_inv_def memory_good_def tables_good_def log_good_def

lemma store_inv_reads:
  assumes "store_inv env s d tables"
  shows "st_initialized s" "tables_open env (st_sstables s) tables" "memory_ok s"
  using assms by (auto simp: store_inv_parts memory_ok_def mem_storable_def)

section \<open>Swapping the memtables\<close>

lemma view_shadow: "view (l # l # ls) = view (l # ls)"
  by (simp add: fun_eq_iff view_Cons split: option.split)

lemma view_empty [simp]: "view (Map.empty # ls) = view ls"
  by (simp add: fun_eq_iff view_Cons)

lemma view_Cons_cong: "view ls = view ls' \<Longrightarrow> view (l # ls) = view (l # ls')"
  by (simp add: fun_eq_iff view_Cons split: option.split)

lemma flush_entries_empty: "mt_invar m \<Longrightarrow> flush_entries m = [] \<Longrightarrow> mem_layer m = Map.empty"
  using table_layer_flush [of m] by (simp add: fun_eq_iff table_layer_def)

lemma sw_add_all_flush:
  assumes "mt_invar m"
  obtains w where "sw_add_all (map to_sst_entry (mt_getAllSorted m)) (new_writer n cfg) = Inr w"
    "sw_entries w = flush_entries m" "\<not> sw_built w" "sw_sparseIndex w = []" "sw_config w = cfg"
    "sw_fileNumber w = n"
  using sw_add_all_ok [of "new_writer n cfg" "flush_entries m"] flush_entries_ordered [OF assms]
  by (simp add: new_writer_def flush_entries_def)

lemma triggerFlush_cases:
  assumes "mf_loaded (st_manifest s)" "mt_invar (st_active s)"
  obtains (empty) "flush_entries (st_active s) = []"
      "triggerFlush s = s\<lparr>st_immutable := None, st_active := new_mem_table (st_memTableSizeLimit s),
         st_flush := NoFlush\<rparr>"
    | (build) w where "flush_entries (st_active s) \<noteq> []"
      "triggerFlush s = s\<lparr>st_immutable := Some (st_active s),
         st_active := new_mem_table (st_memTableSizeLimit s), st_flush := Building w\<rparr>"
      "sw_entries w = flush_entries (st_active s)" "\<not> sw_built w" "sw_sparseIndex w = []"
      "sw_config w = st_sstConfig s" "sw_fileNumber w = mf_nextFileNumber (mf_state (st_manifest s))"
proof (cases "mt_getAllSorted (st_active s) = []")
  case True
  then show thesis
    using assms(1) by (intro empty)
      (simp_all add: flush_entries_def triggerFlush_def Let_def getNextFileNumber_def ensureLoaded_def)
next
  case False
  obtain w where w: "sw_add_all (map to_sst_entry (mt_getAllSorted (st_active s)))
      (new_writer (mf_nextFileNumber (mf_state (st_manifest s))) (st_sstConfig s)) = Inr w"
    "sw_entries w = flush_entries (st_active s)" "\<not> sw_built w" "sw_sparseIndex w = []"
    "sw_config w = st_sstConfig s" "sw_fileNumber w = mf_nextFileNumber (mf_state (st_manifest s))"
    by (rule sw_add_all_flush [OF assms(2)])
  show thesis
  proof (rule build [OF _ _ w(2-)])
    show "flush_entries (st_active s) \<noteq> []" using False by (simp add: flush_entries_def)
    show "triggerFlush s = s\<lparr>st_immutable := Some (st_active s),
         st_active := new_mem_table (st_memTableSizeLimit s), st_flush := Building w\<rparr>"
      using False w(1) assms(1)
      by (simp add: triggerFlush_def Let_def getNextFileNumber_def ensureLoaded_def)
  qed
qed

lemma maybeFlush_inv:
  assumes "store_inv env s d tables"
  shows "store_inv env (maybeFlush s) d tables" "store_view (maybeFlush s) tables = store_view s tables"
    "disk_tables (maybeFlush s) tables = disk_tables s tables"
proof -
  have "store_inv env (maybeFlush s) d tables \<and> store_view (maybeFlush s) tables = store_view s tables \<and>
    disk_tables (maybeFlush s) tables = disk_tables s tables"
  proof (cases "mt_isFull (st_active s) \<and> st_flush s = NoFlush")
    case False
    then show ?thesis using assms by (simp add: maybeFlush_def)
  next
    case True
    then have tr: "maybeFlush s = triggerFlush s" by (simp add: maybeFlush_def)
    have loaded: "mf_loaded (st_manifest s)" and act: "mem_storable (st_active s)"
      using assms by (simp_all add: store_inv_parts)
    then have inv: "mt_invar (st_active s)" by (simp add: mem_storable_def)
    have dt: "disk_tables s tables = tables" using True by (simp add: disk_tables_def)
    have old: "view (memory_layers s @ map table_layer tables) =
        view (mem_layer (st_active s) # map table_layer tables)"
    proof (cases "st_immutable s")
      case (Some m)
      then obtain rest where "tables = flush_entries m # rest" "mt_invar m"
        using assms True by (auto simp: store_inv_parts flush_ok_def mem_storable_def)
      then show ?thesis
        using Some by (simp add: memory_layers_def table_layer_flush view_Cons_cong [OF view_shadow])
    qed (simp add: memory_layers_def)
    show ?thesis
      using loaded inv
    proof (cases rule: triggerFlush_cases)
      case empty
      then have "mem_layer (st_active s) = Map.empty" using inv by (intro flush_entries_empty)
      then show ?thesis
        using assms True dt old
        by (auto simp: tr empty(2) store_inv_parts flush_ok_def disk_tables_def store_view_def
            memory_layers_def)
    next
      case (build w)
      then show ?thesis
        using assms act True dt old
        by (auto simp: tr store_inv_parts flush_ok_def disk_tables_def store_view_def memory_layers_def)
    qed
  qed
  then show "store_inv env (maybeFlush s) d tables" "store_view (maybeFlush s) tables = store_view s tables"
    "disk_tables (maybeFlush s) tables = disk_tables s tables"
    by blast+
qed

section \<open>Writes\<close>

lemma truncate_stamp [simp]: "log_body.truncate (stamp b i t) = b"
  by (simp add: stamp_def log_body.defs)

lemma write_memtable_truncate: "write_memtable now (log_body.truncate e) m = write_memtable now e m"
  by (cases "le_op e") (simp_all add: write_memtable_def log_body.defs)

lemma flush_ok_update [simp]:
  "flush_ok env (s\<lparr>st_active := m\<rparr>) d tables = flush_ok env s d tables"
  "flush_ok env (s\<lparr>st_wal := w\<rparr>) (d\<lparr>dk_logs := logs\<rparr>) tables = flush_ok env s d tables"
  by (simp_all add: flush_ok_def split: flush_phase.split)

lemma disk_tables_update [simp]:
  "disk_tables (s\<lparr>st_active := m\<rparr>) tables = disk_tables s tables"
  "disk_tables (s\<lparr>st_wal := w\<rparr>) tables = disk_tables s tables"
  by (simp_all add: disk_tables_def)

lemma set_active_inv:
  assumes "store_inv env s d tables" "mem_storable m"
  shows "store_inv env (s\<lparr>st_active := m\<rparr>) d tables"
  using assms by (simp add: store_inv_parts)

lemma finish_write_inv:
  assumes "store_inv env s d tables" "storable_body (log_body.truncate e)" "now \<le> 2 ^ 53"
  shows "store_inv env (finish_write now e s) d tables"
    and "store_view (finish_write now e s) tables = view_effect e (store_view s tables)"
    and "disk_tables (finish_write now e s) tables = disk_tables s tables"
proof -
  have act: "mem_storable (st_active s)" "mt_invar (st_active s)"
    using assms(1) by (auto simp: store_inv_parts mem_storable_def)
  have "mem_storable (write_memtable now e (st_active s))"
    using mem_storable_write [OF act(1) assms(2,3)] by (simp add: write_memtable_truncate)
  note inv = set_active_inv [OF assms(1) this]
  show "store_inv env (finish_write now e s) d tables"
    unfolding finish_write_def by (rule maybeFlush_inv(1) [OF inv])
  show "store_view (finish_write now e s) tables = view_effect e (store_view s tables)"
    unfolding finish_write_def maybeFlush_inv(2) [OF inv]
    by (simp add: store_view_def memory_layers_def write_memtable_layer(2) [OF act(2)] view_effect_layer)
  show "disk_tables (finish_write now e s) tables = disk_tables s tables"
    unfolding finish_write_def maybeFlush_inv(3) [OF inv] by simp
qed

lemma finish_writes_inv:
  assumes "store_inv env s d tables" "\<forall>e\<in>set es. storable_body (log_body.truncate e)" "now \<le> 2 ^ 53"
  shows "store_inv env (fold (finish_write now) es s) d tables \<and>
    store_view (fold (finish_write now) es s) tables = fold view_effect es (store_view s tables) \<and>
    disk_tables (fold (finish_write now) es s) tables = disk_tables s tables"
  using assms
proof (induction es arbitrary: s)
  case (Cons e es)
  then show ?case using finish_write_inv [of env s d tables e now] by simp
qed simp

lemma set_wal_inv:
  assumes "store_inv env s d tables" "log_inv \<lparr>lg_wal = w, lg_dir = logs, lg_acked = a\<rparr>"
    "\<forall>e\<in>set (wal_pendingWrites w). acceptable e"
  shows "store_inv env (s\<lparr>st_wal := w\<rparr>) (d\<lparr>dk_logs := logs\<rparr>) tables"
proof -
  have "log_inv \<lparr>lg_wal = w, lg_dir = logs, lg_acked = []\<rparr>"
    using assms(2) by (auto simp: log_inv_def)
  then show ?thesis
    using assms(1,3) by (simp add: store_inv_parts)
qed

lemma set_wal_view [simp]:
  "store_view (s\<lparr>st_wal := w\<rparr>) tables = store_view s tables"
  by (simp add: store_view_def memory_layers_def)

section \<open>What the log acknowledges\<close>

lemma append_sync_acked:
  assumes "log_inv \<lparr>lg_wal = w, lg_dir = dir, lg_acked = a\<rparr>" "loggable (stamp body (wal_sequenceId w) now)"
    "append_sync mem now body w dir = (r, w', dir', new)"
  shows "(r = Inr () \<and> new = [stamp body (wal_sequenceId w) now] \<and>
      entry_ok (stamp body (wal_sequenceId w) now) \<or> (\<exists>err. r = Inl err) \<and> new = [] \<and> dir' = dir) \<and>
    wal_pendingWrites w' = wal_pendingWrites w"
proof -
  let ?w = "w\<lparr>wal_sequenceId := wal_sequenceId w + 1\<rparr>"
  obtain old es where "log_ready w dir old es" using assms(1) by (auto simp: log_inv_def)
  then have ready: "log_ready ?w dir old es" by (rule log_ready_wal) simp_all
  show ?thesis
  proof (cases "writeEntry mem (stamp body (wal_sequenceId w) now) ?w dir")
    case (Inr d)
    then show ?thesis
      using assms(3) writeEntry_ready [OF ready assms(2) Inr] by (auto simp: append_sync_def Let_def)
  qed (use assms(3) in \<open>auto simp: append_sync_def Let_def\<close>)
qed

lemma flushBatchUnlocked_acked:
  assumes "log_inv \<lparr>lg_wal = w, lg_dir = dir, lg_acked = a\<rparr>"
    "flushBatchUnlocked mem w dir = (err, new, w', dir')"
  shows "(\<forall>e\<in>set new. e \<in> set (wal_pendingWrites w) \<and> entry_ok e)"
    "set (wal_pendingWrites w') \<subseteq> set (wal_pendingWrites w)"
proof -
  obtain old es where inv: "log_ready w dir old es" "\<forall>e\<in>set (wal_pendingWrites w). loggable e"
    using assms(1) by (auto simp: log_inv_def)
  let ?w = "w\<lparr>wal_pendingWrites := []\<rparr>"
  have ready: "log_ready ?w dir old es" by (rule log_ready_wal [OF inv(1)]) simp_all
  obtain e1 d where wb: "write_batch mem (wal_pendingWrites w) ?w dir = (e1, d)" by fastforce
  obtain dn rest where dn: "wal_pendingWrites w = dn @ rest" "log_ready ?w d old (es @ dn)"
    "e1 = None \<longrightarrow> rest = []"
    using write_batch_ready [OF ready inv(2) wb] by blast
  have "new = [] \<or> new = wal_pendingWrites w \<and> e1 = None"
    using assms(2) wb by (auto simp: flushBatchUnlocked_def Let_def split: if_splits option.splits)
  then show "\<forall>e\<in>set new. e \<in> set (wal_pendingWrites w) \<and> entry_ok e"
    using dn by (auto simp: log_ready_def)
  show "set (wal_pendingWrites w') \<subseteq> set (wal_pendingWrites w)"
    using assms(2) by (auto simp: flushBatchUnlocked_def Let_def split: if_splits option.splits prod.splits)
qed

lemma flushBatch_unlocked: "flushBatch mem w dir = flushBatchUnlocked mem w dir"
  by (simp add: flushBatch_def flushBatchUnlocked_def)

lemma checkpoint_acked:
  assumes "log_inv \<lparr>lg_wal = w, lg_dir = dir, lg_acked = a\<rparr>"
    "checkpoint mem now w dir = (err, new, w', dir')"
  shows "(\<forall>e\<in>set new. e \<in> set (wal_pendingWrites w) \<and> entry_ok e)"
    "set (wal_pendingWrites w') \<subseteq> set (wal_pendingWrites w)"
proof -
  obtain e1 a1 w1 d1 where f: "(if wal_pendingWrites w \<noteq> [] then flushBatchUnlocked mem w dir
      else (None, [], w, dir)) = (e1, a1, w1, d1)" by (metis prod_cases4)
  then have "flushBatchUnlocked mem w dir = (e1, a1, w1, d1)"
    by (auto simp: flushBatchUnlocked_def split: if_splits)
  note acked = flushBatchUnlocked_acked [OF assms(1) this]
  have "new = a1" "wal_pendingWrites w' = wal_pendingWrites w1"
    using assms(2) f by (auto simp: checkpoint_def rotateLog_def Let_def split: option.splits)
  then show "\<forall>e\<in>set new. e \<in> set (wal_pendingWrites w) \<and> entry_ok e"
    "set (wal_pendingWrites w') \<subseteq> set (wal_pendingWrites w)"
    using acked by simp_all
qed

section \<open>The steps\<close>

text \<open>
  A step comes with the entries it acknowledges. A flush step that builds the table assumes that
  the sizes fit its format, and one that ends in a checkpoint that the clock has moved on since
  the current log was started.
\<close>

inductive store_step :: "read_env \<Rightarrow> store \<times> disk \<Rightarrow> log_entry list \<Rightarrow> store \<times> disk \<Rightarrow> bool" for env where
  step_write:
    "wal_syncPolicy (st_wal s) = SYNC_EVERY_WRITE \<Longrightarrow>
     acceptable (stamp body (wal_sequenceId (st_wal s)) now) \<Longrightarrow> now \<le> 2 ^ 53 \<Longrightarrow>
     store_write (env_mem env) now body s d = (r, s', d') \<Longrightarrow>
     store_step env (s, d) (if r = Inr () then [stamp body (wal_sequenceId (st_wal s)) now] else []) (s', d')"
| step_enqueue:
    "wal_syncPolicy (st_wal s) \<noteq> SYNC_EVERY_WRITE \<Longrightarrow>
     acceptable (stamp body (wal_sequenceId (st_wal s)) now) \<Longrightarrow>
     store_enqueue now body s = Inr (s', trigger) \<Longrightarrow>
     store_step env (s, d) [] (s', d)"
| step_commit:
    "flushBatch (env_mem env) (st_wal s) (dk_logs d) = (err, acked, w, logs) \<Longrightarrow> now \<le> 2 ^ 53 \<Longrightarrow>
     store_step env (s, d) acked (store_flushBatch (env_mem env) now s d)"
| step_build:
    "st_flush s = Building w \<Longrightarrow> table_ok (sw_fileNumber w) now (sw_entries w) \<Longrightarrow>
     store_step env (s, d) [] (flush_step env now s d)"
| step_record: "st_flush s = Built meta \<Longrightarrow> store_step env (s, d) [] (flush_step env now s d)"
| step_open: "st_flush s = Recorded meta \<Longrightarrow> store_step env (s, d) [] (flush_step env now s d)"
| step_checkpoint:
    "st_flush s = Opened \<Longrightarrow> wal_currentLogFile (st_wal s) < log_name now \<Longrightarrow> now \<le> 2 ^ 53 \<Longrightarrow>
     checkpoint (env_mem env) now (st_wal s) (dk_logs d) = (err, acked, w, logs) \<Longrightarrow>
     store_step env (s, d) acked (flush_step env now s d)"

inductive_cases store_stepE: "store_step env (s, d) acked (s', d')"

lemma acceptable_storable: "acceptable e \<Longrightarrow> entry_ok e \<Longrightarrow> storable_body (log_body.truncate e)"
  by (simp add: acceptable_def)

lemma store_inv_log:
  assumes "store_inv env s d tables"
  shows "log_inv \<lparr>lg_wal = st_wal s, lg_dir = dk_logs d, lg_acked = []\<rparr>"
    "\<forall>e\<in>set (wal_pendingWrites (st_wal s)). acceptable e" "st_initialized s"
    "wal_syncPolicy (st_wal s) = SYNC_EVERY_WRITE \<Longrightarrow> wal_pendingWrites (st_wal s) = []"
  using assms by (auto simp: store_inv_parts log_inv_def)

lemma write_step_inv:
  assumes "store_inv env s d tables" "wal_syncPolicy (st_wal s) = SYNC_EVERY_WRITE"
    "acceptable (stamp body (wal_sequenceId (st_wal s)) now)" "now \<le> 2 ^ 53"
    "store_write (env_mem env) now body s d = (r, s', d')"
  defines "acked \<equiv> if r = Inr () then [stamp body (wal_sequenceId (st_wal s)) now] else []"
  shows "store_inv env s' d' tables \<and> store_view s' tables = fold view_effect acked (store_view s tables) \<and>
    disk_tables s' tables = disk_tables s tables"
proof -
  note log = store_inv_log [OF assms(1)]
  let ?e = "stamp body (wal_sequenceId (st_wal s)) now"
  have ok: "loggable ?e" using assms(3) by (simp add: acceptable_def)
  obtain r1 w logs new where a: "append_sync (env_mem env) now body (st_wal s) (dk_logs d) = (r1, w, logs, new)"
    by (metis prod_cases4)
  note acked = append_sync_acked [OF log(1) ok a]
  have "log_inv \<lparr>lg_wal = w, lg_dir = logs, lg_acked = [] @ new\<rparr>"
    by (rule append_sync_inv [OF log(1) ok a log(4) [OF assms(2)]])
  moreover have "\<forall>e\<in>set (wal_pendingWrites w). acceptable e" using acked log(2) by simp
  ultimately have inv: "store_inv env (s\<lparr>st_wal := w\<rparr>) (d\<lparr>dk_logs := logs\<rparr>) tables"
    by (rule set_wal_inv [OF assms(1)])
  show ?thesis
  proof (cases r1)
    case (Inl err)
    then have "s' = s\<lparr>st_wal := w\<rparr>" "d' = d\<lparr>dk_logs := logs\<rparr>" "acked = []"
      using assms(5) a log(3) by (auto simp: store_write_def ensureInitialized_def acked_def)
    then show ?thesis using inv by simp
  next
    case (Inr u)
    then have s': "s' = finish_write now body (s\<lparr>st_wal := w\<rparr>)" "d' = d\<lparr>dk_logs := logs\<rparr>" "acked = [?e]"
      using assms(5) a log(3) by (auto simp: store_write_def ensureInitialized_def acked_def)
    have "storable_body body"
      using acceptable_storable [OF assms(3)] acked Inr by auto
    then have "storable_body (log_body.truncate ?e)" by simp
    note fin = finish_write_inv [OF inv this assms(4)]
    have "finish_write now body s = finish_write now ?e s" for s
      using write_memtable_truncate [of now ?e] by (simp add: finish_write_def)
    then show ?thesis
      using fin unfolding s' by simp
  qed
qed

lemma enqueue_step_inv:
  assumes "store_inv env s d tables" "wal_syncPolicy (st_wal s) \<noteq> SYNC_EVERY_WRITE"
    "acceptable (stamp body (wal_sequenceId (st_wal s)) now)"
    "store_enqueue now body s = Inr (s', trigger)"
  shows "store_inv env s' d tables \<and> store_view s' tables = store_view s tables \<and>
    disk_tables s' tables = disk_tables s tables"
proof -
  note log = store_inv_log [OF assms(1)]
  obtain w t where a: "append_queue now body (st_wal s) = (w, t)" by fastforce
  then have s': "s' = s\<lparr>st_wal := w\<rparr>"
    using assms(4) log(3) by (simp add: store_enqueue_def ensureInitialized_def)
  have "log_inv \<lparr>lg_wal = w, lg_dir = dk_logs d, lg_acked = []\<rparr>"
    using assms(2,3) by (intro append_queue_inv [OF log(1) _ a]) (auto simp: acceptable_def)
  moreover have "\<forall>e\<in>set (wal_pendingWrites w). acceptable e"
    using a log(2) assms(3) by (auto simp: append_queue_def Let_def)
  ultimately show ?thesis
    using set_wal_inv [OF assms(1)] unfolding s' by fastforce
qed

lemma commit_step_inv:
  assumes "store_inv env s d tables" "now \<le> 2 ^ 53"
    "flushBatch (env_mem env) (st_wal s) (dk_logs d) = (err, acked, w, logs)"
    "store_flushBatch (env_mem env) now s d = (s', d')"
  shows "store_inv env s' d' tables \<and> store_view s' tables = fold view_effect acked (store_view s tables) \<and>
    disk_tables s' tables = disk_tables s tables"
proof -
  note log = store_inv_log [OF assms(1)]
  have f: "flushBatchUnlocked (env_mem env) (st_wal s) (dk_logs d) = (err, acked, w, logs)"
    using assms(3) by (simp add: flushBatch_unlocked)
  note acked = flushBatchUnlocked_acked [OF log(1) f]
  have inv: "store_inv env (s\<lparr>st_wal := w\<rparr>) (d\<lparr>dk_logs := logs\<rparr>) tables"
    by (rule set_wal_inv [OF assms(1) flushBatchUnlocked_inv(1) [OF log(1) f]]) (use acked log(2) in auto)
  have "\<forall>e\<in>set acked. storable_body (log_body.truncate e)"
    using acked log(2) acceptable_storable by blast
  note fin = finish_writes_inv [OF inv this assms(2)]
  have "s' = fold (finish_write now) acked (s\<lparr>st_wal := w\<rparr>)" "d' = d\<lparr>dk_logs := logs\<rparr>"
    using assms(3,4) by (auto simp: store_flushBatch_def)
  then show ?thesis using fin by simp
qed

section \<open>The steps of a flush\<close>

lemma build_step_inv:
  assumes "store_inv env s d tables" "st_flush s = Building w" "table_ok (sw_fileNumber w) now (sw_entries w)"
    "flush_step env now s d = (s', d')"
  shows "store_inv env s' d' tables \<and> store_view s' tables = store_view s tables \<and>
    disk_tables s' tables = disk_tables s tables \<and> (\<exists>meta. st_flush s' = Built meta)"
proof -
  let ?next = "mf_nextFileNumber (mf_state (st_manifest s))"
  obtain m where m: "st_immutable s = Some m" "sw_entries w = flush_entries m" "\<not> sw_built w"
    "sw_sparseIndex w = []" "sw_config w = st_sstConfig s" "sw_fileNumber w = ?next"
    using assms(1,2) by (auto simp: store_inv_def flush_ok_def)
  have mem: "mem_storable m" "cf_falsePositiveRate (sw_config w) < 1" "2147483647 \<le> env_limit env"
    using assms(1) m by (auto simp: store_inv_parts)
  obtain w' index bloom where parts: "table_parts (sw_entries w) index bloom" and b:
    "sw_build (env_mem env) now w (dk_files d) =
       (Inr (table_meta (sw_fileNumber w) now (sw_entries w) index bloom
          (sst_path (cf_dataDir (sw_config w)) (sw_fileNumber w))), w',
        (dk_files d)(temp_path (sst_path (cf_dataDir (sw_config w)) (sw_fileNumber w)) := None,
           sst_path (cf_dataDir (sw_config w)) (sw_fileNumber w) \<mapsto>
             table_bytes (sw_fileNumber w) now (sw_entries w) index bloom))"
    by (rule sw_build_ok [OF assms(3) m(4,3) mem(2)])
  define meta fs where "meta = table_meta ?next now (flush_entries m) index bloom
      (sst_path (cf_dataDir (st_sstConfig s)) ?next)"
    and "fs = (dk_files d)(temp_path (sst_path (cf_dataDir (st_sstConfig s)) ?next) := None,
      sst_path (cf_dataDir (st_sstConfig s)) ?next \<mapsto> table_bytes ?next now (flush_entries m) index bloom)"
  have step: "s' = s\<lparr>st_flush := Built meta\<rparr>" "d' = d\<lparr>dk_files := fs\<rparr>"
    using assms(4) b by (auto simp: flush_step_def assms(2) m(2,5,6) meta_def fs_def)
  have tfile: "table_file env (st_sstConfig s) fs meta (flush_entries m)"
    unfolding table_file_def
    by (intro exI [of _ ?next] exI [of _ now] exI [of _ index] exI [of _ bloom])
      (use assms(3) parts m flush_entries_readable [OF mem(1,3)] in \<open>simp add: meta_def fs_def\<close>)
  have old: "list_all2 (table_file env (st_sstConfig s) fs) (mf_sstables (mf_state (st_manifest s))) tables"
  proof (rule list.rel_mono_strong)
    show "list_all2 (table_file env (st_sstConfig s) (dk_files d)) (mf_sstables (mf_state (st_manifest s))) tables"
      using assms(1,2) by (simp add: store_inv_parts disk_tables_def)
    fix x es assume "x \<in> set (mf_sstables (mf_state (st_manifest s)))"
    then have "sm_fileNumber x \<noteq> ?next" using assms(1) by (auto simp: store_inv_parts manifest_inv_def)
    then show "table_file env (st_sstConfig s) (dk_files d) x es \<Longrightarrow> table_file env (st_sstConfig s) fs x es"
      unfolding fs_def by (rule table_file_write [rotated])
  qed
  have "sm_fileNumber meta = ?next" by (simp add: meta_def table_meta_def)
  then show ?thesis
    using assms(1,2) m(1) tfile old
    by (simp add: step store_inv_parts flush_ok_def disk_tables_def store_view_def memory_layers_def)
qed

lemma record_step_inv:
  assumes "store_inv env s d tables" "st_flush s = Built meta" "flush_step env now s d = (s', d')"
  obtains m where "st_immutable s = Some m" "store_inv env s' d' tables" "disk_tables s' tables = flush_entries m # tables"
    "st_active s' = st_active s" "st_immutable s' = Some m" "st_flush s' = Recorded meta" "dk_logs d' = dk_logs d"
proof -
  obtain m where m: "st_immutable s = Some m"
    "table_file env (st_sstConfig s) (dk_files d) meta (flush_entries m)"
    "sm_fileNumber meta = mf_nextFileNumber (mf_state (st_manifest s))"
    using assms(1,2) by (auto simp: store_inv_def flush_ok_def)
  obtain mf where mf: "addSSTable meta (st_manifest s) = Inr (mf, manifest_save mf)" "mf_loaded mf"
    "mf_sstables (mf_state mf) = meta # mf_sstables (mf_state (st_manifest s))" "manifest_inv (mf_state mf)"
    by (rule addSSTable_ok [of "st_manifest s" meta]) (use assms(1) m(3) in \<open>simp_all add: store_inv_parts\<close>)
  have step: "s' = s\<lparr>st_manifest := mf, st_flush := Recorded meta\<rparr>" "d' = d\<lparr>dk_manifest := manifest_save mf\<rparr>"
    using assms(3) mf(1) by (auto simp: flush_step_def assms(2))
  have old: "list_all2 (table_file env (st_sstConfig s) (dk_files d)) (mf_sstables (mf_state (st_manifest s))) tables"
    using assms(1,2) by (simp add: store_inv_parts disk_tables_def)
  show thesis
  proof (rule that [OF m(1)])
    show "store_inv env s' d' tables"
      using assms(1) m old mf by (simp add: step store_inv_parts flush_ok_def disk_tables_def)
  qed (simp_all add: step disk_tables_def m)
qed

lemma open_step_inv:
  assumes "store_inv env s d tables" "st_flush s = Recorded meta" "flush_step env now s d = (s', d')"
  obtains m where "st_immutable s = Some m" "store_inv env s' d' (flush_entries m # tables)"
    "store_view s' (flush_entries m # tables) = store_view s tables"
    "disk_tables s' (flush_entries m # tables) = disk_tables s tables"
    "st_active s' = st_active s" "st_immutable s' = Some m" "st_flush s' = Opened" "dk_logs d' = dk_logs d"
proof -
  obtain m where m: "st_immutable s = Some m"
    "table_file env (st_sstConfig s) (dk_files d) meta (flush_entries m)"
    using assms(1,2) by (auto simp: store_inv_def flush_ok_def)
  have lim: "2147483647 \<le> env_limit env" using assms(1) by (simp add: store_inv_def)
  obtain r where r: "openFile env (dk_files d) (sm_filePath meta) = Inr r" "table_open env (meta, r) (flush_entries m)"
    by (rule table_file_open [OF m(2) lim])
  have step: "s' = s\<lparr>st_sstables := (meta, r) # st_sstables s, st_flush := Opened\<rparr>" "d' = d"
    using assms(3) r(1) by (auto simp: flush_step_def assms(2))
  have "mt_invar m" using assms(1) m by (simp add: store_inv_parts mem_storable_def)
  then have layer: "table_layer (flush_entries m) = mem_layer m" by (rule table_layer_flush)
  show thesis
  proof (rule that [OF m(1)])
    show "store_inv env s' d' (flush_entries m # tables)"
      using assms(1,2) m r(2)
      by (simp add: step store_inv_parts flush_ok_def disk_tables_def tables_open_def)
    show "store_view s' (flush_entries m # tables) = store_view s tables"
      using m(1) layer by (simp add: step store_view_def memory_layers_def view_Cons_cong [OF view_shadow])
  qed (use assms(2) m in \<open>simp_all add: step disk_tables_def\<close>)
qed

lemma finish_writes_flushing:
  "st_flush s \<noteq> NoFlush \<Longrightarrow> st_flush (fold (finish_write now) es s) = st_flush s \<and>
     st_immutable (fold (finish_write now) es s) = st_immutable s"
  by (induction es arbitrary: s) (simp_all add: finish_write_def maybeFlush_def)

lemma checkpoint_step_inv:
  assumes "store_inv env s d tables" "st_flush s = Opened" "wal_currentLogFile (st_wal s) < log_name now"
    "now \<le> 2 ^ 53" "checkpoint (env_mem env) now (st_wal s) (dk_logs d) = (err, acked, w, logs)"
    "flush_step env now s d = (s', d')"
  shows "store_inv env s' d' tables \<and> store_view s' tables = fold view_effect acked (store_view s tables) \<and>
    disk_tables s' tables = disk_tables s tables"
proof -
  note log = store_inv_log [OF assms(1)]
  note acked = checkpoint_acked [OF log(1) assms(5)]
  obtain m rest where m: "st_immutable s = Some m" "tables = flush_entries m # rest"
    using assms(1,2) by (auto simp: store_inv_def flush_ok_def)
  have inv: "store_inv env (s\<lparr>st_wal := w\<rparr>) (d\<lparr>dk_logs := logs\<rparr>) tables"
    by (rule set_wal_inv [OF assms(1) checkpoint_inv [OF log(1) assms(5,3)]]) (use acked log(2) in auto)
  have "\<forall>e\<in>set acked. storable_body (log_body.truncate e)"
    using acked log(2) acceptable_storable by blast
  note fin = finish_writes_inv [OF inv this assms(4)]
  define s1 where "s1 = fold (finish_write now) acked (s\<lparr>st_wal := w\<rparr>)"
  have s1: "store_inv env s1 (d\<lparr>dk_logs := logs\<rparr>) tables" "st_flush s1 = Opened" "st_immutable s1 = Some m"
    "store_view s1 tables = fold view_effect acked (store_view s tables)"
    using fin finish_writes_flushing [of "s\<lparr>st_wal := w\<rparr>" now acked] assms(2) m by (simp_all add: s1_def)
  have step: "d' = d\<lparr>dk_logs := logs\<rparr>"
    "s' = (if err = None then s1\<lparr>st_immutable := None, st_flush := NoFlush\<rparr> else s1\<lparr>st_flush := NoFlush\<rparr>)"
    using assms(5,6) by (auto simp: flush_step_def assms(2) s1_def Let_def)
  have "mt_invar m" using s1(1,3) by (simp add: store_inv_parts mem_storable_def)
  then have layer: "table_layer (flush_entries m) = mem_layer m" by (rule table_layer_flush)
  have "store_inv env s' d' tables"
    using s1(1-3) m by (auto simp: step store_inv_parts flush_ok_def disk_tables_def)
  moreover have "store_view s' tables = store_view s1 tables"
    using s1(3) m layer by (auto simp: step store_view_def memory_layers_def view_Cons_cong [OF view_shadow])
  moreover have "disk_tables s' tables = disk_tables s tables"
    using assms(2) m by (simp add: step disk_tables_def)
  ultimately show ?thesis using s1(4) by simp
qed

section \<open>The simulation\<close>

text \<open>Two states: the store with its disk, and the map it stands for.\<close>

definition store_sim :: "read_env \<Rightarrow> store \<times> disk \<Rightarrow> (jstring \<rightharpoonup> jstring) \<Rightarrow> bool" where
  "store_sim env c m \<longleftrightarrow> (\<exists>tables. store_inv env (fst c) (snd c) tables \<and> store_view (fst c) tables = m)"

lemma record_view:
  assumes "store_inv env s d tables" "st_flush s = Built meta" "flush_step env now s d = (s', d')"
  shows "store_view s' tables = store_view s tables"
  using record_step_inv [OF assms] by (metis store_view_def memory_layers_def)

lemma store_step_sim:
  assumes "store_step env c acked c'" "store_sim env c m"
  shows "store_sim env c' (fold view_effect acked m)"
  using assms
proof (cases rule: store_step.cases)
  case (step_write s body now d r s' d')
  then show ?thesis using assms(2) write_step_inv unfolding store_sim_def by fastforce
next
  case (step_enqueue s body now s' trigger d)
  then show ?thesis using assms(2) enqueue_step_inv unfolding store_sim_def by fastforce
next
  case (step_commit s d err w logs now)
  obtain s' d' where c': "store_flushBatch (env_mem env) now s d = (s', d')" by fastforce
  show ?thesis
    using assms(2) commit_step_inv [OF _ step_commit(4,3) c'] step_commit(1,2) c' unfolding store_sim_def by fastforce
next
  case (step_build s w now d)
  obtain s' d' where c': "flush_step env now s d = (s', d')" by fastforce
  show ?thesis
    using assms(2) build_step_inv [OF _ step_build(4,5) c'] step_build(1-3) c' unfolding store_sim_def by fastforce
next
  case (step_record s meta d now)
  obtain s' d' where c': "flush_step env now s d = (s', d')" by fastforce
  obtain tables where t: "store_inv env s d tables" "store_view s tables = m"
    using assms(2) step_record(1) by (auto simp: store_sim_def)
  have "store_inv env s' d' tables" by (rule record_step_inv [OF t(1) step_record(4) c'])
  then show ?thesis
    using record_view [OF t(1) step_record(4) c'] t(2) step_record(1-3) c' unfolding store_sim_def by auto
next
  case (step_open s meta d now)
  obtain s' d' where c': "flush_step env now s d = (s', d')" by fastforce
  obtain tables where t: "store_inv env s d tables" "store_view s tables = m"
    using assms(2) step_open(1) by (auto simp: store_sim_def)
  obtain mt where "store_inv env s' d' (flush_entries mt # tables)"
    "store_view s' (flush_entries mt # tables) = store_view s tables"
    by (rule open_step_inv [OF t(1) step_open(4) c'])
  then show ?thesis using t(2) step_open(1-3) c' unfolding store_sim_def by auto
next
  case (step_checkpoint s now d err w logs)
  obtain s' d' where c': "flush_step env now s d = (s', d')" by fastforce
  show ?thesis
    using assms(2) checkpoint_step_inv [OF _ step_checkpoint(3-6) c'] step_checkpoint(1,2) c'
    unfolding store_sim_def by fastforce
qed

end
