(* ===== verification/Store_Recovery.thy ===== *)
theory Store_Recovery
  imports Store_Steps
begin

text \<open>
  What a crash leaves and what the next start makes of it. As long as no flush ends while
  newer writes are in memory, the log replays to what the memtables hold, and a restart gives
  the same store; a flush that ends with newer writes in memory drops them from the log.
\<close>

section \<open>The log as a layer\<close>

definition replay_layer :: "log_dir \<Rightarrow> layer" where
  "replay_layer logs = fold op_effect (wal_replay logs) Map.empty"

lemma op_effect_first_hit: "first_hit (op_effect e l # ls) = op_effect e (first_hit (l # ls))"
proof -
  have upd: "first_hit (l(k \<mapsto> x) # ls) = (first_hit (l # ls))(k \<mapsto> x)" for l k x
    by (auto simp: fun_eq_iff)
  have "first_hit (fold (\<lambda>(k, v) l. l(k \<mapsto> Some v)) kvs l # ls) =
      fold (\<lambda>(k, v) l. l(k \<mapsto> Some v)) kvs (first_hit (l # ls))" for kvs
    by (induction kvs arbitrary: l) (auto simp: upd)
  then show ?thesis by (cases "le_op e") (simp_all add: op_effect_def upd del: first_hit.simps(2))
qed

text \<open>At recovery an entry has the effect the write had: storable keys are not empty.\<close>

lemma applyLogEntry_write:
  assumes "storable_body (log_body.truncate e)"
  shows "applyLogEntry now e m = write_memtable now e m"
proof -
  define b where "b = log_body.truncate e"
  have ap: "applyLogEntry now e m = applyLogEntry now b m"
    by (cases "le_op e") (simp_all add: applyLogEntry_def b_def log_body.defs)
  have skip: "fold (\<lambda>(k, v) m. if k \<noteq> empty_string then mt_put now k v False m else m) kvs m =
      fold (\<lambda>(k, v). mt_put now k v False) kvs m" if "\<forall>p\<in>set kvs. fst p \<noteq> empty_string" for kvs m
    using that by (induction kvs arbitrary: m) auto
  have "applyLogEntry now b m = write_memtable now b m"
    using assms unfolding b_def [symmetric] storable_body_def
  proof (elim disjE exE conjE)
    fix ks vs assume b: "b = batch_body ks vs" "\<forall>k\<in>set ks. storable_key k"
    then have "\<forall>p\<in>set (zip ks vs). fst p \<noteq> empty_string"
      using storable_key_ne by (auto dest: set_zip_leftD)
    then show ?thesis by (simp add: b(1) applyLogEntry_def write_memtable_def skip)
  qed (use storable_key_ne in \<open>auto simp: applyLogEntry_def write_memtable_def falsy_def\<close>)
  then show ?thesis using ap write_memtable_truncate [of now e m] by (simp add: b_def)
qed

lemma apply_entries:
  assumes "mem_storable m" "\<forall>e\<in>set es. storable_body (log_body.truncate e)" "now \<le> 2 ^ 53"
  shows "mem_storable (fold (applyLogEntry now) es m) \<and>
    mem_layer (fold (applyLogEntry now) es m) = fold op_effect es (mem_layer m)"
  using assms
proof (induction es arbitrary: m)
  case (Cons e es)
  have "mem_storable (write_memtable now e m)"
    using mem_storable_write [of m "log_body.truncate e" now] Cons.prems by (simp add: write_memtable_truncate)
  moreover have "mem_layer (write_memtable now e m) = op_effect e (mem_layer m)"
    using Cons.prems(1) by (intro write_memtable_layer) (simp add: mem_storable_def)
  ultimately show ?case
    using Cons.IH [of "write_memtable now e m"] Cons.prems by (simp add: applyLogEntry_write)
qed simp

section \<open>Opening after a crash\<close>

lemma dir_put_same: "ordered_by fst dir \<Longrightarrow> map_of dir name = Some c \<Longrightarrow> dir_put name c dir = dir"
proof (induction dir)
  case (Cons p dir)
  show ?case
  proof (cases "fst p = name")
    case False
    then have "(name, c) \<in> set dir" using Cons.prems(2) by (auto dest: map_of_SomeD split: if_splits)
    then have "\<not> name < fst p" using Cons.prems(1) by fastforce
    then show ?thesis using Cons False by (cases p) (auto split: if_splits)
  qed (use Cons in \<open>cases p, auto\<close>)
qed simp

lemma wal_open_replay:
  assumes "ordered_by fst dir"
  shows "wal_replay (snd (wal_open now w dir)) = wal_replay dir"
proof (cases "log_files dir = []")
  case True
  have "map_of dir (log_name now) = None"
    using log_files_lookup [OF is_log_file_name, of dir now] True by simp
  then have "snd (wal_open now w dir) = dir_put (log_name now) [] dir"
    using True by (simp add: wal_open_def Let_def append_file_def rotateLog_def)
  moreover have "readLogFile [] = []" using readLogFile_all [of "[]"] by simp
  ultimately show ?thesis
    using True by (simp add: wal_replay_def log_files_put [OF is_log_file_name assms])
next
  case False
  have "last (log_files dir) \<in> set dir" using last_in_set [OF False] by (auto simp: log_files_def)
  then have "map_of dir (fst (last (log_files dir))) = Some (snd (last (log_files dir)))"
    using map_of_ordered [OF assms] by (metis prod.collapse)
  then have "append_file (fst (last (log_files dir))) [] dir = dir"
    using dir_put_same [OF assms] by (simp add: append_file_def)
  then show ?thesis using False by (simp add: wal_open_def Let_def)
qed

lemma loadSSTables_ok:
  assumes "list_all2 (table_file env cfg (dk_files d)) metas tabs" "2147483647 \<le> env_limit env"
  shows "\<exists>ts. loadSSTables env metas s d = Inr (s\<lparr>st_sstables := st_sstables s @ ts\<rparr>, d) \<and>
    tables_open env ts tabs"
  using assms
proof (induction metas tabs arbitrary: s rule: list_all2_induct)
  case Nil
  show ?case by (simp add: tables_open_def)
next
  case (Cons meta metas es tabs)
  obtain r where r: "openFile env (dk_files d) (sm_filePath meta) = Inr r" "table_open env (meta, r) es"
    by (rule table_file_open [OF Cons.hyps(1) assms(2)])
  obtain ts where "loadSSTables env metas (s\<lparr>st_sstables := st_sstables s @ [(meta, r)]\<rparr>) d =
      Inr (s\<lparr>st_sstables := (st_sstables s @ [(meta, r)]) @ ts\<rparr>, d)" "tables_open env ts tabs"
    using Cons.IH [OF assms(2), of "s\<lparr>st_sstables := st_sstables s @ [(meta, r)]\<rparr>"] by auto
  then show ?case
    using r by (intro exI [of _ "(meta, r) # ts"]) (simp add: tables_open_def)
qed

text \<open>What \<open>initialize\<close> does on a disk whose manifest and tables agree.\<close>

definition disk_holds :: "read_env \<Rightarrow> sst_config \<Rightarrow> disk \<Rightarrow> manifest_state \<Rightarrow> sst_entry list list \<Rightarrow> bool" where
  "disk_holds env cfg d st tabs \<longleftrightarrow>
     (dk_manifest d = manifest_save \<lparr>mf_state = st, mf_loaded = True\<rparr> \<or>
      dk_manifest d = NoManifest \<and> mf_sstables st = []) \<and>
     list_all2 (table_file env cfg (dk_files d)) (mf_sstables st) tabs"

lemma recover:
  assumes "disk_holds env cfg d st tabs" "2147483647 \<le> env_limit env" "ordered_by fst (dk_logs d)"
    "\<forall>e\<in>set (wal_replay (dk_logs d)). storable_body (log_body.truncate e)" "now \<le> 2 ^ 53"
  obtains ts m active where
    "store_initialize env now (new_store policy limit cfg t) d =
       Inr ((new_store policy limit cfg t)\<lparr>st_manifest := m, st_sstables := ts,
           st_wal := fst (wal_open now (new_wal policy) (dk_logs d)), st_active := active, st_initialized := True\<rparr>,
         d\<lparr>dk_logs := snd (wal_open now (new_wal policy) (dk_logs d))\<rparr>)"
    "tables_open env ts tabs" "mem_storable active" "mem_layer active = replay_layer (dk_logs d)"
    "mf_loaded m" "mf_state m = (if dk_manifest d = NoManifest then EMPTY_MANIFEST_STATE now else st)"
proof -
  define m where "m = \<lparr>mf_state = (if dk_manifest d = NoManifest then EMPTY_MANIFEST_STATE now else st),
    mf_loaded = True\<rparr>"
  let ?s = "new_store policy limit cfg t"
  have load: "manifest_load now (dk_manifest d) (new_manifest t) = Inr m"
    using assms(1) unfolding disk_holds_def
    by (auto simp: m_def manifest_load_def manifest_save_def new_manifest_def)
  have ss: "mf_sstables (mf_state m) = mf_sstables st"
    using assms(1) by (auto simp: m_def disk_holds_def EMPTY_MANIFEST_STATE_def manifest_save_def)
  obtain ts where ts: "loadSSTables env (mf_sstables st) (?s\<lparr>st_manifest := m\<rparr>) d =
      Inr (?s\<lparr>st_manifest := m, st_sstables := ts\<rparr>, d)" "tables_open env ts tabs"
    using loadSSTables_ok [OF _ assms(2), of cfg d "mf_sstables st" tabs "?s\<lparr>st_manifest := m\<rparr>"] assms(1)
    by (auto simp: disk_holds_def new_store_def)
  let ?open = "wal_open now (new_wal policy) (dk_logs d)"
  define active where "active = fold (applyLogEntry now) (wal_replay (snd ?open)) (new_mem_table limit)"
  have replay: "wal_replay (snd ?open) = wal_replay (dk_logs d)" by (rule wal_open_replay [OF assms(3)])
  have act: "mem_storable active" "mem_layer active = replay_layer (dk_logs d)"
    using apply_entries [OF mem_storable_new assms(4,5), of limit]
    by (simp_all add: active_def replay replay_layer_def)
  show thesis
  proof (rule that [OF _ ts(2) act])
    show "store_initialize env now ?s d =
       Inr (?s\<lparr>st_manifest := m, st_sstables := ts, st_wal := fst ?open, st_active := active, st_initialized := True\<rparr>,
         d\<lparr>dk_logs := snd ?open\<rparr>)"
      using load ss ts(1)
      by (simp add: store_initialize_def new_store_def getSSTables_def ensureLoaded_def m_def active_def
          case_prod_unfold Let_def)
  qed (simp_all add: m_def)
qed

section \<open>The log keeps up with the memtables\<close>

definition durable :: "read_env \<Rightarrow> store \<Rightarrow> disk \<Rightarrow> sst_entry list list \<Rightarrow> bool" where
  "durable env s d tables \<longleftrightarrow> store_inv env s d tables \<and>
     (\<forall>e\<in>set (wal_replay (dk_logs d)). storable_body (log_body.truncate e)) \<and>
     (st_flush s = NoFlush \<longrightarrow> st_immutable s = None) \<and>
     first_hit (memory_layers s) = replay_layer (dk_logs d)"

text \<open>
  The next step loses nothing: a flush that is about to drop the old logs finds nothing newer in
  memory or in the queue. A batch with an entry that the log refuses is rejected as a whole,
  although the entries before it are written; \<open>refused\<close> has the entries of such batches.
\<close>

definition cautious :: "log_entry set \<Rightarrow> store \<Rightarrow> bool" where
  "cautious refused s \<longleftrightarrow>
     ((\<exists>e\<in>set (wal_pendingWrites (st_wal s)). \<not> entry_ok e) \<longrightarrow> set (wal_pendingWrites (st_wal s)) \<subseteq> refused) \<and>
     (st_flush s = Opened \<longrightarrow> mt_getAllSorted (st_active s) = [] \<and> wal_pendingWrites (st_wal s) = [])"

text \<open>The tables without the one that is still in memory, too.\<close>

definition older :: "store \<Rightarrow> sst_entry list list \<Rightarrow> sst_entry list list" where
  "older s tables = (if st_flush s = Opened then tl tables else tables)"

text \<open>
  Of the acknowledged entries \<open>es\<close>, those of \<open>es2\<close> are in memory; the log has them in order, and
  between them entries of batches that were refused.
\<close>

definition traced ::
  "read_env \<Rightarrow> log_entry set \<Rightarrow> log_entry list \<Rightarrow> store \<Rightarrow> disk \<Rightarrow> sst_entry list list \<Rightarrow> bool" where
  "traced env refused es s d tables \<longleftrightarrow> store_inv env s d tables \<and>
     (\<forall>e\<in>set (wal_replay (dk_logs d)). storable_body (log_body.truncate e)) \<and>
     (st_flush s = NoFlush \<longrightarrow> st_immutable s = None) \<and>
     store_view s tables = fold view_effect es Map.empty \<and>
     (\<exists>es1 es2 xs. es = es1 @ es2 \<and> set xs \<subseteq> refused \<and> wal_replay (dk_logs d) \<in> shuffles es2 xs \<and>
        first_hit (memory_layers s) = fold op_effect es2 Map.empty \<and>
        view (map table_layer (older s tables)) = fold view_effect es1 Map.empty)"

lemma traced_inv: "traced env refused es s d tables \<Longrightarrow> store_inv env s d tables"
  by (simp add: traced_def)

lemma shuffles_concat: "ys @ us \<in> shuffles us ys"
  by (induction ys) (auto simp: Cons_in_shuffles_rightI)

lemma shuffles_append: "zs \<in> shuffles xs ys \<Longrightarrow> zs @ us \<in> shuffles (xs @ us) ys"
  by (induction xs ys arbitrary: zs rule: shuffles.induct) (auto simp: shuffles_concat Cons_in_shuffles_leftI)

lemma shuffles_append_right: "zs \<in> shuffles xs ys \<Longrightarrow> zs @ us \<in> shuffles xs (ys @ us)"
  using shuffles_append [of zs ys xs us] by (simp add: shuffles_commutes)

lemma shuffles_prepend: "zs \<in> shuffles xs ys \<Longrightarrow> us @ zs \<in> shuffles (us @ xs) ys"
  by (induction us) (auto simp: Cons_in_shuffles_leftI)

lemma append_sync_replay:
  assumes "log_inv \<lparr>lg_wal = w, lg_dir = dir, lg_acked = a\<rparr>" "loggable (stamp body (wal_sequenceId w) now)"
    "append_sync mem now body w dir = (r, w', dir', new)"
  shows "wal_replay dir' = wal_replay dir @ new"
proof -
  let ?w = "w\<lparr>wal_sequenceId := wal_sequenceId w + 1\<rparr>" and ?e = "stamp body (wal_sequenceId w) now"
  obtain old es where "log_ready w dir old es" using assms(1) by (auto simp: log_inv_def)
  then have ready: "log_ready ?w dir old es" by (rule log_ready_wal) simp_all
  show ?thesis
  proof (cases "writeEntry mem ?e ?w dir")
    case (Inr d)
    then show ?thesis
      using assms(3) writeEntry_ready [OF ready assms(2) Inr] log_ready_replay [OF ready] log_ready_replay
      by (auto simp: append_sync_def Let_def)
  qed (use assms(3) in \<open>auto simp: append_sync_def Let_def\<close>)
qed

lemma write_batch_total:
  assumes "wal_fileHandle w" "\<forall>e\<in>set batch. entry_ok e"
  shows "\<exists>dir'. write_batch mem batch w dir = (None, dir')"
  using assms by (induction batch arbitrary: dir) (simp_all add: writeEntry_def serializeEntry_ok)

text \<open>
  A flush of a batch writes all of it and acknowledges it, or writes some of it and refuses it,
  because of an entry that cannot be written.
\<close>

lemma flushBatchUnlocked_replay:
  assumes "log_inv \<lparr>lg_wal = w, lg_dir = dir, lg_acked = a\<rparr>"
    "flushBatchUnlocked mem w dir = (err, new, w', dir')"
  obtains ws where "wal_replay dir' = wal_replay dir @ ws" "prefix ws (wal_pendingWrites w)" "\<forall>e\<in>set ws. entry_ok e"
    "wal_pendingWrites w' = []"
    "err = None \<and> new = ws \<or> err \<noteq> None \<and> new = [] \<and> (\<exists>e\<in>set (wal_pendingWrites w). \<not> entry_ok e)"
proof (cases "wal_pendingWrites w = []")
  case True
  then show thesis using assms(2) that [of "[]"] by (auto simp: flushBatchUnlocked_def)
next
  case False
  obtain old es where inv: "log_ready w dir old es" "\<forall>e\<in>set (wal_pendingWrites w). loggable e"
    using assms(1) by (auto simp: log_inv_def)
  let ?w = "w\<lparr>wal_pendingWrites := []\<rparr>"
  have ready: "log_ready ?w dir old es" by (rule log_ready_wal [OF inv(1)]) simp_all
  have handle: "wal_fileHandle ?w" using inv(1) by (simp add: log_ready_def)
  obtain e1 d where wb: "write_batch mem (wal_pendingWrites w) ?w dir = (e1, d)" by fastforce
  obtain dn rest where dn: "wal_pendingWrites w = dn @ rest" "log_ready ?w d old (es @ dn)" "e1 = None \<longrightarrow> rest = []"
    using write_batch_ready [OF ready inv(2) wb] by blast
  have bad: "\<exists>e\<in>set (wal_pendingWrites w). \<not> entry_ok e" if "e1 \<noteq> None"
    using write_batch_total [OF handle, of "wal_pendingWrites w" mem dir] wb that by auto
  have "wal_replay d = wal_replay dir @ dn"
    using dn(2) log_ready_replay [OF ready] log_ready_replay by fastforce
  moreover have "\<forall>e\<in>set dn. entry_ok e" using dn(2) by (simp add: log_ready_def)
  moreover have "dir' = d" "wal_pendingWrites w' = []"
    "err = None \<and> new = dn \<or> err \<noteq> None \<and> new = [] \<and> e1 \<noteq> None"
    using assms(2) wb handle False dn(1,3) by (cases e1; auto simp: flushBatchUnlocked_def Let_def)+
  ultimately show thesis using dn(1) bad that [of dn] by auto
qed

lemma checkpoint_replay:
  assumes "log_inv \<lparr>lg_wal = w, lg_dir = dir, lg_acked = a\<rparr>" "wal_pendingWrites w = []"
    "wal_currentLogFile w < log_name now" "checkpoint mem now w dir = (err, new, w', dir')"
  shows "err = None" "new = []" "wal_replay dir' = []"
proof -
  obtain old es where ready: "log_ready w dir old es" using assms(1) by (auto simp: log_inv_def)
  show "err = None" "new = []" "wal_replay dir' = []"
    using assms(2,4) checkpoint_empties(2) [OF ready assms(3) refl, of False]
    by (auto simp: checkpoint_def Let_def)
qed

lemma replay_layer_append:
  "wal_replay logs' = wal_replay logs @ es \<Longrightarrow> replay_layer logs' = fold op_effect es (replay_layer logs)"
  by (simp add: replay_layer_def)

lemma op_effect_stamp [simp]: "op_effect (stamp b i t) = op_effect b"
  by (rule ext) (cases "le_op b", simp_all add: op_effect_def)

lemma maybeFlush_layers:
  assumes "store_inv env s d tables" "st_flush s = NoFlush \<longrightarrow> st_immutable s = None"
  shows "first_hit (memory_layers (maybeFlush s)) = first_hit (memory_layers s)"
    and "st_flush (maybeFlush s) = NoFlush \<longrightarrow> st_immutable (maybeFlush s) = None"
proof -
  have "first_hit (memory_layers (maybeFlush s)) = first_hit (memory_layers s) \<and>
    (st_flush (maybeFlush s) = NoFlush \<longrightarrow> st_immutable (maybeFlush s) = None)"
  proof (cases "mt_isFull (st_active s) \<and> st_flush s = NoFlush")
    case False
    then show ?thesis using assms(2) by (simp add: maybeFlush_def)
  next
    case True
    have loaded: "mf_loaded (st_manifest s)" and inv: "mt_invar (st_active s)"
      using assms(1) by (simp_all add: store_inv_parts mem_storable_def)
    have tr: "maybeFlush s = triggerFlush s" and imm: "st_immutable s = None"
      using True assms(2) by (simp_all add: maybeFlush_def)
    show ?thesis
      using loaded inv
    proof (cases rule: triggerFlush_cases)
      case empty
      then show ?thesis
        using flush_entries_empty [OF inv] by (simp add: tr imm memory_layers_def fun_eq_iff)
    next
      case (build w)
      then show ?thesis by (simp add: tr imm memory_layers_def fun_eq_iff)
    qed
  qed
  then show "first_hit (memory_layers (maybeFlush s)) = first_hit (memory_layers s)"
    "st_flush (maybeFlush s) = NoFlush \<longrightarrow> st_immutable (maybeFlush s) = None" by blast+
qed

lemma finish_write_layers:
  assumes "store_inv env s d tables" "storable_body (log_body.truncate e)" "now \<le> 2 ^ 53"
    "st_flush s = NoFlush \<longrightarrow> st_immutable s = None"
  shows "first_hit (memory_layers (finish_write now e s)) = op_effect e (first_hit (memory_layers s))"
    and "st_flush (finish_write now e s) = NoFlush \<longrightarrow> st_immutable (finish_write now e s) = None"
proof -
  have act: "mem_storable (st_active s)" "mt_invar (st_active s)"
    using assms(1) by (auto simp: store_inv_parts mem_storable_def)
  have "mem_storable (write_memtable now e (st_active s))"
    using mem_storable_write [OF act(1) assms(2,3)] by (simp add: write_memtable_truncate)
  note inv = set_active_inv [OF assms(1) this]
  have clean: "st_flush (s\<lparr>st_active := write_memtable now e (st_active s)\<rparr>) = NoFlush \<longrightarrow>
      st_immutable (s\<lparr>st_active := write_memtable now e (st_active s)\<rparr>) = None"
    using assms(4) by simp
  show "first_hit (memory_layers (finish_write now e s)) = op_effect e (first_hit (memory_layers s))"
    unfolding finish_write_def maybeFlush_layers(1) [OF inv clean]
    by (simp add: memory_layers_def write_memtable_layer(2) [OF act(2)] op_effect_first_hit
        del: first_hit.simps(2))
  show "st_flush (finish_write now e s) = NoFlush \<longrightarrow> st_immutable (finish_write now e s) = None"
    unfolding finish_write_def by (rule maybeFlush_layers(2) [OF inv clean])
qed

lemma finish_writes_layers:
  assumes "store_inv env s d tables" "\<forall>e\<in>set es. storable_body (log_body.truncate e)" "now \<le> 2 ^ 53"
    "st_flush s = NoFlush \<longrightarrow> st_immutable s = None"
  shows "first_hit (memory_layers (fold (finish_write now) es s)) =
      fold op_effect es (first_hit (memory_layers s)) \<and>
    (st_flush (fold (finish_write now) es s) = NoFlush \<longrightarrow> st_immutable (fold (finish_write now) es s) = None)"
  using assms
proof (induction es arbitrary: s)
  case (Cons e es)
  then show ?case
    using finish_write_inv(1) [of env s d tables e now] finish_write_layers [of env s d tables e now] by simp
qed simp

lemma memory_layers_wal [simp]: "memory_layers (s\<lparr>st_wal := w\<rparr>) = memory_layers s"
  by (simp add: memory_layers_def)

lemma finish_writes_opened: "st_flush (fold (finish_write now) es s) = Opened \<longleftrightarrow> st_flush s = Opened"
proof (induction es arbitrary: s)
  case (Cons e es)
  have "st_flush (finish_write now e s) = Opened \<longleftrightarrow> st_flush s = Opened"
    by (simp add: finish_write_def maybeFlush_def triggerFlush_def Let_def split: sum.split)
  then show ?case using Cons.IH by simp
qed simp

text \<open>A step that acknowledges \<open>acked\<close> and appends \<open>ws\<close> to the log.\<close>

lemma traced_write:
  assumes "traced env refused es s d tables" "store_inv env s' d' tables"
    "wal_replay (dk_logs d') = wal_replay (dk_logs d) @ ws" "ws = acked \<or> acked = [] \<and> set ws \<subseteq> refused"
    "\<forall>e\<in>set ws. storable_body (log_body.truncate e)" "st_flush s' = NoFlush \<longrightarrow> st_immutable s' = None"
    "first_hit (memory_layers s') = fold op_effect acked (first_hit (memory_layers s))"
    "store_view s' tables = fold view_effect acked (store_view s tables)" "st_flush s' = Opened \<longleftrightarrow> st_flush s = Opened"
  shows "traced env refused (es @ acked) s' d' tables"
proof -
  obtain es1 es2 xs where t: "es = es1 @ es2" "set xs \<subseteq> refused" "wal_replay (dk_logs d) \<in> shuffles es2 xs"
    "first_hit (memory_layers s) = fold op_effect es2 Map.empty"
    "view (map table_layer (older s tables)) = fold view_effect es1 Map.empty"
    using assms(1) unfolding traced_def by blast
  have "\<exists>xs'. set xs' \<subseteq> refused \<and> wal_replay (dk_logs d') \<in> shuffles (es2 @ acked) xs'"
    using assms(4)
  proof
    assume "ws = acked"
    then show ?thesis using t(2) shuffles_append [OF t(3)] assms(3) by auto
  next
    assume "acked = [] \<and> set ws \<subseteq> refused"
    then show ?thesis
      using t(2) shuffles_append_right [OF t(3), of ws] assms(3) by (intro exI [of _ "xs @ ws"]) simp
  qed
  then obtain xs' where x: "set xs' \<subseteq> refused" "wal_replay (dk_logs d') \<in> shuffles (es2 @ acked) xs'" by blast
  have "older s' tables = older s tables" using assms(9) by (simp add: older_def)
  then have "es @ acked = es1 @ (es2 @ acked) \<and> set xs' \<subseteq> refused \<and> wal_replay (dk_logs d') \<in> shuffles (es2 @ acked) xs' \<and>
      first_hit (memory_layers s') = fold op_effect (es2 @ acked) Map.empty \<and>
      view (map table_layer (older s' tables)) = fold view_effect es1 Map.empty"
    using t x assms(7) by simp
  moreover have "store_view s' tables = fold view_effect (es @ acked) Map.empty"
    using assms(1,8) by (simp add: traced_def)
  moreover have "\<forall>e\<in>set (wal_replay (dk_logs d')). storable_body (log_body.truncate e)"
    using assms(1,3,5) by (auto simp: traced_def)
  ultimately show ?thesis using assms(2,6) unfolding traced_def by blast
qed

lemma write_step_traced:
  assumes "traced env refused es s d tables" "wal_syncPolicy (st_wal s) = SYNC_EVERY_WRITE"
    "acceptable (stamp body (wal_sequenceId (st_wal s)) now)" "now \<le> 2 ^ 53"
    "store_write (env_mem env) now body s d = (r, s', d')"
  shows "traced env refused
    (es @ (if r = Inr () then [stamp body (wal_sequenceId (st_wal s)) now] else [])) s' d' tables"
proof -
  have inv: "store_inv env s d tables" and clean: "st_flush s = NoFlush \<longrightarrow> st_immutable s = None"
    using assms(1) by (simp_all add: traced_def)
  note log = store_inv_log [OF inv]
  let ?e = "stamp body (wal_sequenceId (st_wal s)) now"
  have ok: "loggable ?e" using assms(3) by (simp add: acceptable_def)
  obtain r1 w logs new where a: "append_sync (env_mem env) now body (st_wal s) (dk_logs d) = (r1, w, logs, new)"
    by (metis prod_cases4)
  note acked = append_sync_acked [OF log(1) ok a] and replay = append_sync_replay [OF log(1) ok a]
  note inv' = write_step_inv [OF inv assms(2-5)]
  show ?thesis
  proof (cases r1)
    case (Inl err)
    then have c: "r = Inl err" "s' = s\<lparr>st_wal := w\<rparr>" "d' = d\<lparr>dk_logs := logs\<rparr>" "new = []"
      using assms(5) a log(3) acked by (auto simp: store_write_def ensureInitialized_def)
    show ?thesis
      by (rule traced_write [OF assms(1), where ws = "[]"]) (use inv' replay clean c in simp_all)
  next
    case (Inr u)
    then have s': "r = Inr ()" "s' = finish_write now body (s\<lparr>st_wal := w\<rparr>)" "d' = d\<lparr>dk_logs := logs\<rparr>" "new = [?e]" "entry_ok ?e"
      using assms(5) a log(3) acked by (auto simp: store_write_def ensureInitialized_def)
    have body: "storable_body (log_body.truncate ?e)"
      using acceptable_storable [OF assms(3) s'(5)] .
    have "log_inv \<lparr>lg_wal = w, lg_dir = logs, lg_acked = [] @ new\<rparr>"
      by (rule append_sync_inv [OF log(1) ok a log(4) [OF assms(2)]])
    then have inv1: "store_inv env (s\<lparr>st_wal := w\<rparr>) (d\<lparr>dk_logs := logs\<rparr>) tables"
      by (rule set_wal_inv [OF inv]) (use acked log(2) in simp)
    have same: "finish_write now body s1 = finish_write now ?e s1" for s1
      using write_memtable_truncate [of now ?e] by (simp add: finish_write_def)
    have fin: "first_hit (memory_layers s') = op_effect ?e (first_hit (memory_layers s))"
      "st_flush s' = NoFlush \<longrightarrow> st_immutable s' = None"
      using finish_write_layers [OF inv1 body assms(4)] clean unfolding s'(2) same by simp_all
    have opened: "st_flush s' = Opened \<longleftrightarrow> st_flush s = Opened"
      using finish_writes_opened [of now "[?e]" "s\<lparr>st_wal := w\<rparr>"] unfolding s'(2) same by simp
    show ?thesis
      by (rule traced_write [OF assms(1), where ws = "[?e]"]) (use inv' replay body fin opened s'(1,3,4) in simp_all)
  qed
qed

lemma enqueue_step_traced:
  assumes "traced env refused es s d tables" "wal_syncPolicy (st_wal s) \<noteq> SYNC_EVERY_WRITE"
    "acceptable (stamp body (wal_sequenceId (st_wal s)) now)"
    "store_enqueue now body s = Inr (s', trigger)"
  shows "traced env refused es s' d tables"
proof -
  have inv: "store_inv env s d tables" and clean: "st_flush s = NoFlush \<longrightarrow> st_immutable s = None"
    using assms(1) by (simp_all add: traced_def)
  have "s' = s\<lparr>st_wal := fst (append_queue now body (st_wal s))\<rparr>"
    using assms(4) store_inv_log(3) [OF inv] by (auto simp: store_enqueue_def ensureInitialized_def case_prod_unfold Let_def)
  then have "traced env refused (es @ []) s' d tables"
    using enqueue_step_inv [OF inv assms(2-4)] clean by (intro traced_write [OF assms(1), where ws = "[]"]) simp_all
  then show ?thesis by simp
qed

lemma commit_step_traced:
  assumes "traced env refused es s d tables" "cautious refused s" "now \<le> 2 ^ 53"
    "flushBatch (env_mem env) (st_wal s) (dk_logs d) = (err, acked, w, logs)"
    "store_flushBatch (env_mem env) now s d = (s', d')"
  shows "traced env refused (es @ acked) s' d' tables"
proof -
  have inv: "store_inv env s d tables" and clean: "st_flush s = NoFlush \<longrightarrow> st_immutable s = None"
    using assms(1) by (simp_all add: traced_def)
  note log = store_inv_log [OF inv]
  have f: "flushBatchUnlocked (env_mem env) (st_wal s) (dk_logs d) = (err, acked, w, logs)"
    using assms(4) by (simp add: flushBatch_unlocked)
  obtain ws where ws: "wal_replay logs = wal_replay (dk_logs d) @ ws" "prefix ws (wal_pendingWrites (st_wal s))"
    "\<forall>e\<in>set ws. entry_ok e"
    "err = None \<and> acked = ws \<or> err \<noteq> None \<and> acked = [] \<and> (\<exists>e\<in>set (wal_pendingWrites (st_wal s)). \<not> entry_ok e)"
    by (rule flushBatchUnlocked_replay [OF log(1) f])
  have sub: "set ws \<subseteq> set (wal_pendingWrites (st_wal s))" using ws(2) by (rule set_mono_prefix)
  then have bodies: "\<forall>e\<in>set ws. storable_body (log_body.truncate e)"
    using ws(3) log(2) acceptable_storable by blast
  then have bodies': "\<forall>e\<in>set acked. storable_body (log_body.truncate e)" using ws(4) by auto
  have choice: "ws = acked \<or> acked = [] \<and> set ws \<subseteq> refused" using ws(4) sub assms(2) by (auto simp: cautious_def)
  have inv1: "store_inv env (s\<lparr>st_wal := w\<rparr>) (d\<lparr>dk_logs := logs\<rparr>) tables"
    by (rule set_wal_inv [OF inv flushBatchUnlocked_inv(1) [OF log(1) f]])
      (use flushBatchUnlocked_acked [OF log(1) f] log(2) in auto)
  have c: "s' = fold (finish_write now) acked (s\<lparr>st_wal := w\<rparr>)" "d' = d\<lparr>dk_logs := logs\<rparr>"
    using assms(4,5) by (auto simp: store_flushBatch_def)
  have opened: "st_flush s' = Opened \<longleftrightarrow> st_flush s = Opened" by (simp add: c(1) finish_writes_opened)
  have fin: "first_hit (memory_layers s') = fold op_effect acked (first_hit (memory_layers s))"
    "st_flush s' = NoFlush \<longrightarrow> st_immutable s' = None"
    using finish_writes_layers [OF inv1 bodies' assms(3)] clean unfolding c(1) by simp_all
  show ?thesis
    by (rule traced_write [OF assms(1), where ws = ws]) (use commit_step_inv [OF inv assms(3-5)] ws(1) choice bodies fin opened c(2) in simp_all)
qed

lemma flush_step_traced:
  assumes "traced env refused es s d tables" "store_inv env s' d' tables'" "dk_logs d' = dk_logs d"
    "st_active s' = st_active s" "st_immutable s' = st_immutable s" "st_flush s' \<noteq> NoFlush"
    "older s' tables' = older s tables" "store_view s' tables' = store_view s tables"
  shows "traced env refused es s' d' tables'"
  using assms by (simp add: traced_def memory_layers_def)

lemma empty_memtable_layer: "mt_invar m \<Longrightarrow> mt_getAllSorted m = [] \<Longrightarrow> mem_layer m = Map.empty"
  by (intro flush_entries_empty) (simp_all add: flush_entries_def)

lemma checkpoint_step_traced:
  assumes "traced env refused es s d tables" "cautious refused s" "st_flush s = Opened"
    "wal_currentLogFile (st_wal s) < log_name now" "now \<le> 2 ^ 53"
    "checkpoint (env_mem env) now (st_wal s) (dk_logs d) = (err, acked, w, logs)"
    "flush_step env now s d = (s', d')"
  shows "traced env refused es s' d' tables" "acked = []"
proof -
  have inv: "store_inv env s d tables" using assms(1) by (simp add: traced_def)
  have idle: "mt_getAllSorted (st_active s) = []" "wal_pendingWrites (st_wal s) = []"
    using assms(2,3) by (simp_all add: cautious_def)
  note ck = checkpoint_replay [OF store_inv_log(1) [OF inv] idle(2) assms(4,6)]
  show "acked = []" by (rule ck(2))
  have step: "s' = s\<lparr>st_wal := w, st_immutable := None, st_flush := NoFlush\<rparr>" "d' = d\<lparr>dk_logs := logs\<rparr>"
    using assms(6,7) ck by (auto simp: flush_step_def assms(3) Let_def)
  have active: "mem_layer (st_active s) = Map.empty"
    using inv idle(1) by (intro empty_memtable_layer) (simp_all add: store_inv_parts mem_storable_def)
  note inv' = checkpoint_step_inv [OF inv assms(3-7)]
  have view: "store_view s' tables = fold view_effect es Map.empty"
    using inv' ck(2) assms(1) by (simp add: traced_def)
  moreover have "store_view s' tables = view (map table_layer tables)"
    by (simp add: store_view_def memory_layers_def step active)
  ultimately show "traced env refused es s' d' tables"
    unfolding traced_def
    by (intro conjI exI [of _ es] exI [of _ "[]"])
      (use inv' ck(3) in \<open>simp_all add: step memory_layers_def active older_def fun_eq_iff\<close>)
qed

lemma store_step_traced:
  assumes "store_step env c acked c'" "traced env refused es (fst c) (snd c) tables" "cautious refused (fst c)"
  shows "\<exists>tables'. traced env refused (es @ acked) (fst c') (snd c') tables'"
  using assms
proof (cases rule: store_step.cases)
  case (step_write s body now d r s' d')
  then show ?thesis
    using assms(2) write_step_traced [of env refused es s d tables, OF _ step_write(4-7)] by (intro exI [of _ tables]) simp
next
  case (step_enqueue s body now s' trigger d)
  then show ?thesis
    using assms(2) enqueue_step_traced [of env refused es s d tables, OF _ step_enqueue(4-6)] by (intro exI [of _ tables]) simp
next
  case (step_commit s d err w logs now)
  obtain s' d' where c': "store_flushBatch (env_mem env) now s d = (s', d')" by fastforce
  show ?thesis
    using assms(2,3) commit_step_traced [OF _ _ step_commit(4,3) c'] step_commit(1,2) c' by auto
next
  case (step_build s w now d)
  obtain s' d' where c': "flush_step env now s d = (s', d')" by fastforce
  have tr: "traced env refused es s d tables" using assms(2) step_build(1) by simp
  note b = build_step_inv [OF traced_inv [OF tr] step_build(4,5) c']
  have "dk_logs d' = dk_logs d" "st_active s' = st_active s" "st_immutable s' = st_immutable s"
    using c' step_build(4) by (auto simp: flush_step_def split: prod.splits sum.splits)
  then have "traced env refused es s' d' tables"
    using b step_build(4) by (intro flush_step_traced [OF tr]) (auto simp: older_def)
  then show ?thesis using c' step_build(1-3) by auto
next
  case (step_record s meta d now)
  obtain s' d' where c': "flush_step env now s d = (s', d')" by fastforce
  have tr: "traced env refused es s d tables" using assms(2) step_record(1) by simp
  obtain mm where r: "st_immutable s = Some mm" "store_inv env s' d' tables" "st_active s' = st_active s"
    "st_immutable s' = Some mm" "st_flush s' = Recorded meta" "dk_logs d' = dk_logs d"
    by (rule record_step_inv [OF traced_inv [OF tr] step_record(4) c'])
  have "traced env refused es s' d' tables"
    by (rule flush_step_traced [OF tr])
      (use r step_record(4) record_view [OF traced_inv [OF tr] step_record(4) c'] in \<open>simp_all add: older_def\<close>)
  then show ?thesis using c' step_record(1-3) by auto
next
  case (step_open s meta d now)
  obtain s' d' where c': "flush_step env now s d = (s', d')" by fastforce
  have tr: "traced env refused es s d tables" using assms(2) step_open(1) by simp
  obtain mm where r: "st_immutable s = Some mm" "store_inv env s' d' (flush_entries mm # tables)"
    "store_view s' (flush_entries mm # tables) = store_view s tables" "st_active s' = st_active s"
    "st_immutable s' = Some mm" "st_flush s' = Opened" "dk_logs d' = dk_logs d"
    by (rule open_step_inv [OF traced_inv [OF tr] step_open(4) c'])
  have "traced env refused es s' d' (flush_entries mm # tables)"
    by (rule flush_step_traced [OF tr]) (use r step_open(4) in \<open>simp_all add: older_def\<close>)
  then show ?thesis using c' step_open(1-3) by auto
next
  case (step_checkpoint s now d err w logs)
  obtain s' d' where c': "flush_step env now s d = (s', d')" by fastforce
  have "traced env refused es s d tables" "cautious refused s" using assms(2,3) step_checkpoint(1) by simp_all
  then show ?thesis
    using checkpoint_step_traced [OF _ _ step_checkpoint(3-6) c'] c' step_checkpoint(1,2) by auto
qed

section \<open>Runs\<close>

text \<open>
  A run from one state to another, each state left satisfying \<open>P\<close>, with the entries
  acknowledged on the way.
\<close>

inductive store_run :: "read_env \<Rightarrow> (store \<Rightarrow> bool) \<Rightarrow> store \<times> disk \<Rightarrow> log_entry list \<Rightarrow> store \<times> disk \<Rightarrow> bool"
  for env P where
  run_refl: "store_run env P c [] c"
| run_step: "store_run env P c es c' \<Longrightarrow> P (fst c') \<Longrightarrow> store_step env c' acked c'' \<Longrightarrow> store_run env P c (es @ acked) c''"

definition empty_disk :: disk where
  "empty_disk = \<lparr>dk_files = Map.empty, dk_logs = [], dk_manifest = NoManifest\<rparr>"

lemma finish_write_config [simp]: "st_sstConfig (finish_write now e s) = st_sstConfig s"
  by (simp add: finish_write_def maybeFlush_def triggerFlush_def Let_def split: sum.split)

lemma finish_writes_config [simp]: "st_sstConfig (fold (finish_write now) es s) = st_sstConfig s"
  by (induction es arbitrary: s) simp_all

lemma store_step_config: "store_step env c acked c' \<Longrightarrow> st_sstConfig (fst c') = st_sstConfig (fst c)"
  by (induction rule: store_step.induct)
    (auto simp: store_write_def ensureInitialized_def store_enqueue_def bind_res_eq_Inr Let_def
      store_flushBatch_def flush_step_def case_prod_unfold split: sum.splits prod.splits if_splits)

lemma store_run_sim:
  assumes "store_run env P c es c'" "store_sim env c m"
  shows "store_sim env c' (fold view_effect es m)"
  using assms
proof (induction rule: store_run.induct)
  case (run_step c es c' acked c'')
  then show ?case using store_step_sim by fastforce
qed simp

section \<open>Recovery\<close>

lemma view_first_hit: "view (ls @ ts) = view (first_hit ls # ts)"
  by (rule view_cong) (simp add: first_hit_append)

lemma durable_view:
  assumes "durable env s d tables"
  shows "view (replay_layer (dk_logs d) # map table_layer (disk_tables s tables)) = store_view s tables"
proof -
  have inv: "store_inv env s d tables" and hit: "first_hit (memory_layers s) = replay_layer (dk_logs d)"
    using assms by (simp_all add: durable_def)
  show ?thesis
  proof (cases "disk_tables s tables = tables")
    case True
    then show ?thesis by (simp add: store_view_def view_first_hit [of "memory_layers s"] hit)
  next
    case False
    then obtain meta m where m: "st_flush s = Recorded meta" "st_immutable s = Some m"
      "disk_tables s tables = flush_entries m # tables"
      by (auto simp: disk_tables_def split: flush_phase.splits option.splits)
    have "mt_invar m" using inv m(2) by (simp add: store_inv_parts mem_storable_def)
    then have layer: "table_layer (flush_entries m) = mem_layer m" by (rule table_layer_flush)
    have "view (first_hit (memory_layers s) # mem_layer m # map table_layer tables) =
        view (memory_layers s @ mem_layer m # map table_layer tables)"
      by (rule view_first_hit [symmetric])
    also have "\<dots> = store_view s tables"
      using m(2) by (simp add: store_view_def memory_layers_def view_Cons_cong [OF view_shadow])
    finally show ?thesis by (simp add: hit m(3) layer)
  qed
qed

lemma view_fold: "view (fold op_effect es l # ls) = fold view_effect es (view (l # ls))"
  by (induction es arbitrary: l) (simp_all add: view_effect_layer)

lemma op_effect_dom: "dom (op_effect e l) = dom l \<union> dom (op_effect e Map.empty)"
proof -
  have "dom (fold (\<lambda>(k, v) l. l(k \<mapsto> Some v)) kvs l) = dom l \<union> fst ` set kvs" for kvs and l :: layer
    by (induction kvs arbitrary: l) auto
  then show ?thesis by (cases "le_op e") (auto simp: op_effect_def)
qed

lemma fold_effect_dom: "dom (fold op_effect es l) = dom l \<union> (\<Union>e\<in>set es. dom (op_effect e Map.empty))"
proof (induction es arbitrary: l)
  case (Cons e es)
  then show ?case using op_effect_dom [of e l] by auto
qed simp

lemma first_hit_dom: "l \<in> set ls \<Longrightarrow> dom l \<subseteq> dom (first_hit ls)"
proof (induction ls)
  case (Cons a ls)
  then show ?case by (auto simp: dom_def split: option.splits)
qed simp

lemma view_covered: "dom t \<subseteq> dom l \<Longrightarrow> view (l # t # ts) = view (l # ts)"
  by (auto simp: fun_eq_iff view_Cons split: option.split)

text \<open>What a restart reads: the acknowledged entries, and between them refused ones.\<close>

lemma traced_view:
  assumes "traced env refused es s d tables"
  obtains xs rs where "set xs \<subseteq> refused" "rs \<in> shuffles es xs"
    "view (replay_layer (dk_logs d) # map table_layer (disk_tables s tables)) = fold view_effect rs Map.empty"
proof -
  obtain es1 es2 xs where t: "es = es1 @ es2" "set xs \<subseteq> refused" "wal_replay (dk_logs d) \<in> shuffles es2 xs"
    "first_hit (memory_layers s) = fold op_effect es2 Map.empty"
    "view (map table_layer (older s tables)) = fold view_effect es1 Map.empty"
    and inv: "store_inv env s d tables"
    using assms unfolding traced_def by blast
  let ?l = "replay_layer (dk_logs d)"
  have dom: "dom (mem_layer m) \<subseteq> dom ?l" if "st_immutable s = Some m" for m
  proof -
    have "dom (mem_layer m) \<subseteq> dom (first_hit (memory_layers s))"
      using that by (intro first_hit_dom) (simp add: memory_layers_def)
    also have "\<dots> \<subseteq> dom ?l"
      using set_shuffles [OF t(3)] by (auto simp: t(4) replay_layer_def fold_effect_dom)
    finally show ?thesis .
  qed
  have layer: "table_layer (flush_entries m) = mem_layer m" if "st_immutable s = Some m" for m
    using that inv by (intro table_layer_flush) (simp add: store_inv_parts mem_storable_def)
  have "view (?l # map table_layer (disk_tables s tables)) = view (?l # map table_layer (older s tables))"
  proof (cases "st_flush s")
    case (Recorded meta)
    then obtain m where "st_immutable s = Some m" using inv by (auto simp: store_inv_def flush_ok_def)
    then show ?thesis using Recorded layer dom by (simp add: disk_tables_def older_def view_covered)
  next
    case Opened
    then obtain m rest where "st_immutable s = Some m" "tables = flush_entries m # rest"
      using inv by (auto simp: store_inv_def flush_ok_def)
    then show ?thesis using Opened layer dom by (simp add: disk_tables_def older_def view_covered)
  qed (simp_all add: disk_tables_def older_def)
  also have "\<dots> = fold view_effect (wal_replay (dk_logs d)) (fold view_effect es1 Map.empty)"
    unfolding replay_layer_def view_fold by (simp add: t(5))
  also have "\<dots> = fold view_effect (es1 @ wal_replay (dk_logs d)) Map.empty" by simp
  finally show thesis using that [OF t(2)] shuffles_prepend [OF t(3), of es1] t(1) by blast
qed

text \<open>
  What a crash leaves. Temporary files may hold anything. The append under way, of one entry or of
  a batch, may have written the records \<open>us\<close> completely, which nobody has acknowledged yet, and one
  more in part. In a checkpoint the new log may be there before the old one is gone.
\<close>

definition in_flight :: "wal \<Rightarrow> log_entry list \<Rightarrow> bool" where
  "in_flight w us \<longleftrightarrow> (\<forall>e\<in>set us. acceptable e \<and> entry_ok e) \<and>
     (if wal_syncPolicy w = SYNC_EVERY_WRITE then length us \<le> 1 else prefix us (wal_pendingWrites w))"

definition torn_record :: "byte list \<Rightarrow> bool" where
  "torn_record t \<longleftrightarrow> t = [] \<or> (\<exists>e n. entry_ok e \<and> n < length (entry_bytes e) \<and> t = take n (entry_bytes e))"

definition crash_image :: "store \<Rightarrow> log_entry list \<Rightarrow> disk \<Rightarrow> disk \<Rightarrow> bool" where
  "crash_image s us d d' \<longleftrightarrow> dk_manifest d' = dk_manifest d \<and>
     (\<forall>p. (\<forall>q. p \<noteq> temp_path q) \<longrightarrow> dk_files d' p = dk_files d p) \<and> in_flight (st_wal s) us \<and>
     (us = [] \<and> dk_logs d' = dk_logs d \<or>
      us = [] \<and> st_flush s = Opened \<and> (\<exists>t. wal_currentLogFile (st_wal s) < log_name t \<and>
        dk_logs d' = append_file (log_name t) [] (dk_logs d)) \<or>
      (\<exists>t. torn_record t \<and>
         dk_logs d' = append_file (wal_currentLogFile (st_wal s)) (concat (map entry_bytes us) @ t) (dk_logs d)))"

lemma crash_image_same: "crash_image s [] d d"
  by (simp add: crash_image_def in_flight_def)

lemma torn_replay:
  assumes "log_ready w dir old es" "\<forall>e\<in>set us. entry_ok e" "torn_record t"
  shows "wal_replay (append_file (wal_currentLogFile w) (concat (map entry_bytes us) @ t) dir) = wal_replay dir @ us"
    and "ordered_by fst (append_file (wal_currentLogFile w) (concat (map entry_bytes us) @ t) dir)"
proof -
  let ?cur = "wal_currentLogFile w" and ?c = "concat (map entry_bytes es)" and ?t = "concat (map entry_bytes us) @ t"
  obtain pre where pre: "log_files dir = pre @ [(?cur, ?c)]"
    "old = concat (map (\<lambda>p. readLogFile (snd p)) pre)"
    using assms(1) by (auto simp: log_ready_def)
  have r: "ordered_by fst dir" "is_log_file ?cur" "\<forall>e\<in>set es. entry_ok e"
    using assms(1) by (auto simp: log_ready_def)
  have ord: "ordered_by fst (pre @ [(?cur, ?c)])"
    using log_files_ordered [OF r(1)] pre(1) by simp
  have "map_of dir ?cur = Some ?c"
    using log_files_lookup [OF r(2), of dir] map_of_ordered [OF ord, of ?cur ?c] pre(1) by simp
  then have content: "append_file ?cur ?t dir = dir_put ?cur (?c @ ?t) dir"
    by (simp add: append_file_def)
  have files: "log_files (dir_put ?cur (?c @ ?t) dir) = pre @ [(?cur, ?c @ ?t)]"
    by (simp only: log_files_put r(1,2) pre(1) dir_put_last [OF ord])
  have ok: "\<forall>e\<in>set (es @ us). entry_ok e" using r(3) assms(2) by auto
  have "readLogFile (concat (map entry_bytes (es @ us)) @ t) = es @ us"
    using assms(3) readLogFile_all [OF ok] readLogFile_torn [OF ok] by (auto simp: torn_record_def)
  then have read: "readLogFile (?c @ ?t) = es @ us" by simp
  show "wal_replay (append_file ?cur ?t dir) = wal_replay dir @ us"
    using log_ready_replay [OF assms(1)] by (simp only: content wal_replay_def files) (simp add: read pre(2))
  show "ordered_by fst (append_file ?cur ?t dir)"
    unfolding content by (rule dir_put_ordered [OF r(1)])
qed

lemma new_log_replay:
  assumes "log_ready w dir old es" "wal_currentLogFile w < log_name t"
  shows "wal_replay (append_file (log_name t) [] dir) = wal_replay dir" "ordered_by fst (append_file (log_name t) [] dir)"
proof -
  obtain pre c where pre: "log_files dir = pre @ [(wal_currentLogFile w, c)]" and ord: "ordered_by fst dir"
    using assms(1) by (auto simp: log_ready_def)
  have "ordered_by fst (pre @ [(wal_currentLogFile w, c)])" using log_files_ordered [OF ord] pre by simp
  then have new: "\<forall>p\<in>set (log_files dir). fst p < log_name t"
    using assms(2) by (auto simp: pre ordered_by_append intro: less_trans)
  have "map_of dir (log_name t) = None"
    using log_files_lookup [OF is_log_file_name, of dir t] new by (metis less_irrefl map_of_SomeD not_None_eq fst_conv)
  then have put: "append_file (log_name t) [] dir = dir_put (log_name t) [] dir" by (simp add: append_file_def)
  have "readLogFile [] = []" using readLogFile_all [of "[]"] by simp
  then show "wal_replay (append_file (log_name t) [] dir) = wal_replay dir"
    by (simp add: put wal_replay_def log_files_put [OF is_log_file_name ord] dir_put_new [OF new])
  show "ordered_by fst (append_file (log_name t) [] dir)" unfolding put by (rule dir_put_ordered [OF ord])
qed

lemma crash_logs:
  assumes "log_ready (st_wal s) (dk_logs d) old es" "crash_image s us d d'"
  shows "wal_replay (dk_logs d') = wal_replay (dk_logs d) @ us \<and> ordered_by fst (dk_logs d') \<and>
    (\<forall>e\<in>set us. storable_body (log_body.truncate e))"
proof -
  have us: "\<forall>e\<in>set us. entry_ok e" "\<forall>e\<in>set us. storable_body (log_body.truncate e)"
    using assms(2) acceptable_storable by (auto simp: crash_image_def in_flight_def)
  have "ordered_by fst (dk_logs d)" using assms(1) by (simp add: log_ready_def)
  then show ?thesis
    using assms(2) us torn_replay [OF assms(1) us(1)] new_log_replay [OF assms(1)] by (auto simp: crash_image_def)
qed

lemma table_file_image:
  assumes "table_file env cfg fs meta es" "\<forall>p. (\<forall>q. p \<noteq> temp_path q) \<longrightarrow> fs' p = fs p"
  shows "table_file env cfg fs' meta es"
proof -
  have "fs' (sst_path dir n) = fs (sst_path dir n)" for dir n using assms(2) by simp
  then show ?thesis using assms(1) by (simp add: table_file_def)
qed

lemma disk_holds_image:
  assumes "disk_holds env cfg d st tabs" "crash_image s us d d'"
  shows "disk_holds env cfg d' st tabs"
proof -
  have files: "\<forall>p. (\<forall>q. p \<noteq> temp_path q) \<longrightarrow> dk_files d' p = dk_files d p" "dk_manifest d' = dk_manifest d"
    using assms(2) by (simp_all add: crash_image_def)
  have "list_all2 (table_file env cfg (dk_files d')) (mf_sstables st) tabs"
  proof (rule list.rel_mono_strong)
    show "list_all2 (table_file env cfg (dk_files d)) (mf_sstables st) tabs"
      using assms(1) by (simp add: disk_holds_def)
  qed (rule table_file_image [OF _ files(1)])
  then show ?thesis using assms(1) files(2) by (simp add: disk_holds_def)
qed

text \<open>A restart from what a crash has left, of a store that is given by its log and its manifest.\<close>

lemma crash_restart:
  assumes "disk_holds env cfg d st tabs" "crash_image s us d d'" "log_ready (st_wal s) (dk_logs d) old es"
    "\<forall>e\<in>set (wal_replay (dk_logs d)). storable_body (log_body.truncate e)" "2147483647 \<le> env_limit env" "now \<le> 2 ^ 53"
  obtains s1 d1 where "store_initialize env now (new_store policy limit cfg t) d' = Inr (s1, d1)"
    "st_initialized s1" "memory_ok s1" "tables_open env (st_sstables s1) tabs"
    "store_view s1 tabs = fold view_effect us (view (replay_layer (dk_logs d) # map table_layer tabs))"
proof -
  note logs = crash_logs [OF assms(3,2)]
  obtain ts m active where r: "store_initialize env now (new_store policy limit cfg t) d' =
       Inr ((new_store policy limit cfg t)\<lparr>st_manifest := m, st_sstables := ts,
           st_wal := fst (wal_open now (new_wal policy) (dk_logs d')), st_active := active, st_initialized := True\<rparr>,
         d'\<lparr>dk_logs := snd (wal_open now (new_wal policy) (dk_logs d'))\<rparr>)"
    "tables_open env ts tabs" "mem_storable active" "mem_layer active = replay_layer (dk_logs d')"
    by (rule recover [OF disk_holds_image [OF assms(1,2)] assms(5) _ _ assms(6)]) (use assms(4) logs in auto)
  have "view (replay_layer (dk_logs d') # map table_layer tabs) =
      fold view_effect us (view (replay_layer (dk_logs d) # map table_layer tabs))"
    using logs by (simp add: replay_layer_append view_fold)
  then show thesis
    using r
    by (intro that [OF r(1)])
      (simp_all add: new_store_def memory_ok_def mem_storable_def store_view_def memory_layers_def)
qed

lemma crash_recover:
  assumes "store_inv env s d tables" "\<forall>e\<in>set (wal_replay (dk_logs d)). storable_body (log_body.truncate e)"
    "crash_image s us d d'" "now \<le> 2 ^ 53"
  obtains s1 d1 where "store_initialize env now (new_store policy limit (st_sstConfig s) t) d' = Inr (s1, d1)"
    "st_initialized s1" "memory_ok s1" "tables_open env (st_sstables s1) (disk_tables s tables)"
    "store_view s1 (disk_tables s tables) =
       fold view_effect us (view (replay_layer (dk_logs d) # map table_layer (disk_tables s tables)))"
proof -
  obtain old es where ready: "log_ready (st_wal s) (dk_logs d) old es"
    using store_inv_log(1) [OF assms(1)] by (auto simp: log_inv_def)
  have holds: "disk_holds env (st_sstConfig s) d (mf_state (st_manifest s)) (disk_tables s tables)"
    using assms(1) by (auto simp: disk_holds_def store_inv_parts manifest_save_def)
  have "2147483647 \<le> env_limit env" using assms(1) by (simp add: store_inv_def)
  from crash_restart [OF holds assms(3) ready assms(2) this assms(4)] that show thesis by metis
qed

lemma fresh_start:
  assumes "2147483647 \<le> env_limit env" "cf_falsePositiveRate cfg < 1" "now \<le> 2 ^ 53"
  obtains s d where "store_initialize env now (new_store policy limit cfg t) empty_disk = Inr (s, d)"
    "durable env s d []" "store_view s [] = Map.empty" "st_sstConfig s = cfg"
    "wal_sequenceId (st_wal s) = 0" "wal_syncPolicy (st_wal s) = policy" "wal_replay (dk_logs d) = []"
    "wal_pendingWrites (st_wal s) = []"
proof -
  have holds: "disk_holds env cfg empty_disk (EMPTY_MANIFEST_STATE now) []"
    by (simp add: disk_holds_def empty_disk_def EMPTY_MANIFEST_STATE_def)
  have replay: "wal_replay (dk_logs empty_disk) = []"
    by (simp add: empty_disk_def wal_replay_def log_files_def)
  let ?open = "wal_open now (new_wal policy) (dk_logs empty_disk)"
  obtain ts m active where r: "store_initialize env now (new_store policy limit cfg t) empty_disk =
       Inr ((new_store policy limit cfg t)\<lparr>st_manifest := m, st_sstables := ts,
           st_wal := fst ?open, st_active := active, st_initialized := True\<rparr>,
         empty_disk\<lparr>dk_logs := snd ?open\<rparr>)"
    "tables_open env ts []" "mem_storable active" "mem_layer active = replay_layer (dk_logs empty_disk)"
    "mf_loaded m" "mf_state m = (if dk_manifest empty_disk = NoManifest then EMPTY_MANIFEST_STATE now
       else EMPTY_MANIFEST_STATE now)"
    by (rule recover [OF holds assms(1) _ _ assms(3)]) (simp_all add: replay, simp add: empty_disk_def)
  have ready: "log_ready (fst ?open) (snd ?open) [] []" "wal_pendingWrites (fst ?open) = []"
    "wal_sequenceId (fst ?open) = 0" "wal_syncPolicy (fst ?open) = policy"
    using wal_open_new [of "[]" now "new_wal policy" "fst ?open" "snd ?open"]
    by (simp_all add: empty_disk_def log_files_def new_wal_def)
  have log: "log_inv \<lparr>lg_wal = fst ?open, lg_dir = snd ?open, lg_acked = []\<rparr>"
    by (rule log_invI [OF ready(1)]) (simp_all add: ready(2))
  have layer: "mem_layer active = Map.empty" using r(4) by (simp add: replay_layer_def replay)
  have ts: "ts = []" using r(2) by (simp add: tables_open_def)
  have replay': "wal_replay (snd ?open) = []" using log_ready_replay [OF ready(1)] by simp
  have mf: "manifest_inv (mf_state m)" "mf_sstables (mf_state m) = []"
    using r(6) manifest_inv_empty [of now] by (simp_all add: EMPTY_MANIFEST_STATE_def)
  let ?s = "(new_store policy limit cfg t)\<lparr>st_manifest := m, st_sstables := ts,
      st_wal := fst ?open, st_active := active, st_initialized := True\<rparr>"
  show thesis
  proof (rule that [OF r(1)])
    show "durable env ?s (empty_disk\<lparr>dk_logs := snd ?open\<rparr>) []"
      using r(3,5) mf assms(1,2) log ready(2) replay' layer
      by (simp add: durable_def store_inv_parts new_store_def ts tables_open_def flush_ok_def disk_tables_def
          memory_layers_def replay_layer_def fun_eq_iff empty_disk_def)
    show "store_view ?s [] = Map.empty"
      using layer by (simp add: store_view_def memory_layers_def new_store_def) (simp add: view_def fun_eq_iff)
  qed (simp_all add: new_store_def ready replay')
qed

lemma store_write_total:
  assumes "store_inv env s d tables" "entry_ok (stamp body (wal_sequenceId (st_wal s)) now)"
  shows "\<exists>s' d'. store_write mem now body s d = (Inr (), s', d')"
proof -
  have "wal_fileHandle (st_wal s)"
    using store_inv_log(1) [OF assms(1)] by (auto simp: log_inv_def log_ready_def)
  then show ?thesis
    using assms by (simp add: store_write_def ensureInitialized_def store_inv_def append_sync_def Let_def
        writeEntry_def serializeEntry_ok)
qed

text \<open>Two stores that stand for the same map answer range queries alike.\<close>

lemma same_ranges:
  assumes "st_initialized s" "memory_ok s" "tables_open env (st_sstables s) ts"
    "st_initialized s'" "memory_ok s'" "tables_open env' (st_sstables s') ts'"
    "store_view s' ts' = store_view s ts"
  shows "readKeyRange env' a b n s' = readKeyRange env a b n s"
proof -
  obtain ps where ps: "readKeyRange env a b n s = Inr (limited n ps)" "ordered_by fst ps"
    "\<forall>k. map_of ps k = (if a \<le> k \<and> k \<le> b then store_view s ts k else None)"
    by (rule readKeyRange_ok [OF assms(1-3), where a = a and b = b and limit = n])
  obtain qs where qs: "readKeyRange env' a b n s' = Inr (limited n qs)" "ordered_by fst qs"
    "\<forall>k. map_of qs k = (if a \<le> k \<and> k \<le> b then store_view s' ts' k else None)"
    by (rule readKeyRange_ok [OF assms(4-6), where a = a and b = b and limit = n])
  have "map_of qs = map_of ps" using ps(3) qs(3) assms(7) by (simp add: fun_eq_iff)
  then have "qs = ps" by (rule ordered_map_of_eq [OF qs(2) ps(2)])
  then show ?thesis using ps(1) qs(1) by simp
qed

text \<open>A checkpoint drops what is only in the active memtable from the disk.\<close>

lemma forgetful_checkpoint:
  assumes "store_inv env s d tables" "st_flush s = Opened" "wal_pendingWrites (st_wal s) = []"
    "wal_currentLogFile (st_wal s) < log_name now" "now \<le> 2 ^ 53" "flush_step env now s d = (s1, d1)"
    "now' \<le> 2 ^ 53"
  obtains s2 d2 where "store_view s1 tables = store_view s tables" "store_inv env s1 d1 tables"
    "st_active s1 = st_active s"
    "store_initialize env now' (new_store policy limit (st_sstConfig s) t) d1 = Inr (s2, d2)"
    "st_initialized s2" "tables_open env (st_sstables s2) tables" "store_view s2 tables = view (map table_layer tables)"
proof -
  obtain err acked w logs where ck: "checkpoint (env_mem env) now (st_wal s) (dk_logs d) = (err, acked, w, logs)"
    by (metis prod_cases4)
  note r = checkpoint_replay [OF store_inv_log(1) [OF assms(1)] assms(3,4) ck]
  note inv1 = checkpoint_step_inv [OF assms(1,2,4,5) ck assms(6)]
  have step: "s1 = s\<lparr>st_wal := w, st_immutable := None, st_flush := NoFlush\<rparr>" "d1 = d\<lparr>dk_logs := logs\<rparr>"
    using assms(6) ck r by (auto simp: flush_step_def assms(2) Let_def)
  have inv: "store_inv env s1 d1 tables" using inv1 by simp
  have tabs: "disk_tables s1 tables = tables" by (simp add: step disk_tables_def)
  have holds: "disk_holds env (st_sstConfig s) d1 (mf_state (st_manifest s1)) tables"
    using inv tabs by (auto simp: disk_holds_def store_inv_parts manifest_save_def step)
  have ord: "ordered_by fst (dk_logs d1)"
    using store_inv_log(1) [OF inv] by (auto simp: log_inv_def log_ready_def)
  have replay: "wal_replay (dk_logs d1) = []" using r(3) by (simp add: step)
  obtain ts m active where "store_initialize env now' (new_store policy limit (st_sstConfig s) t) d1 =
       Inr ((new_store policy limit (st_sstConfig s) t)\<lparr>st_manifest := m, st_sstables := ts,
           st_wal := fst (wal_open now' (new_wal policy) (dk_logs d1)), st_active := active, st_initialized := True\<rparr>,
         d1\<lparr>dk_logs := snd (wal_open now' (new_wal policy) (dk_logs d1))\<rparr>)"
    "tables_open env ts tables" "mem_storable active" "mem_layer active = replay_layer (dk_logs d1)"
    by (rule recover [OF holds _ ord _ assms(7)]) (use assms(1) replay in \<open>auto simp: store_inv_def\<close>)
  then show thesis
    using inv1 r(2) inv replay
    by (intro that) (auto simp: step new_store_def store_view_def memory_layers_def replay_layer_def)
qed

section \<open>A store in the last phase of a flush\<close>

lemma bloom_exists:
  obtains f where "bf_invar f" "bf_numBits f < 4294967296" "bf_numHashFunctions f < 4294967296"
    "\<forall>e\<in>set es. mightContain f (se_key e)"
proof -
  obtain f where f: "bf_invar f" "bf_numBits f \<le> 28" "bf_numHashFunctions f \<le> 28"
    using bf_create_ok [of "1 / 2" 1] by auto
  have "bf_numBits (fold bf_add ks f) = bf_numBits f \<and>
      bf_numHashFunctions (fold bf_add ks f) = bf_numHashFunctions f" for ks f
    by (induction ks arbitrary: f) auto
  then show thesis
    using f bloom.add_all [OF f(1)] by (intro that [of "fold bf_add (map se_key es) f"]) simp_all
qed

lemma opened_store_exists:
  fixes k v k' v' cfg env
  defines "e \<equiv> \<lparr>se_key = js k, se_value = js v, se_time = 4, se_deleted = False\<rparr>"
  assumes "storable_key (js k)" "storable_value (js v)" "storable_key (js k')" "storable_value (js v')"
    "cf_falsePositiveRate cfg < 1" "2147483647 \<le> env_limit env" "length (data_bytes [e]) \<le> 2 ^ 52"
  obtains s d where "store_inv env s d [[e]]" "st_flush s = Opened" "wal_pendingWrites (st_wal s) = []"
    "wal_currentLogFile (st_wal s) = log_name 1" "st_active s = mt_put 5 (js k') (js v') False (new_mem_table 100)"
    "st_sstConfig s = cfg"
proof -
  let ?imm = "mt_put 4 (js k) (js v) False (new_mem_table 100)"
  let ?path = "sst_path (cf_dataDir cfg) 1"
  obtain f where f: "bf_invar f" "bf_numBits f < 4294967296" "bf_numHashFunctions f < 4294967296"
    "\<forall>x\<in>set [e]. mightContain f (se_key x)"
    by (rule bloom_exists)
  have parts: "table_parts [e] [] f"
    using f by (auto simp: table_parts_def intro!: exI [of _ 0])
  have "mt_getAllSorted ?imm = [(js k, \<lparr>mt_value = js v, mt_time = 4, mt_deleted = False\<rparr>)]"
    by (simp add: mt_getAllSorted_def mt_put_def forget_size_def new_mem_table_def sm_entries_def sm_set_def
        new_map_def sm_get_def Let_def)
  then have fl: "flush_entries ?imm = [e]" by (simp add: flush_entries_def to_sst_entry_def e_def)
  have imm: "mem_storable ?imm" and act: "mem_storable (mt_put 5 (js k') (js v') False (new_mem_table 100))"
    using assms(2-5) by (simp_all add: mem_storable_put)
  have rd: "\<forall>x\<in>set [e]. readable env x"
    using flush_entries_readable [OF imm assms(7)] fl by simp
  then have tok: "table_ok 1 4 [e]"
    using assms(8) by (simp add: table_ok_def readable_def)
  define meta where "meta = table_meta 1 4 [e] [] f ?path"
  define w dir where "w = fst (wal_open 1 (new_wal SYNC_EVERY_WRITE) [])"
    and "dir = snd (wal_open 1 (new_wal SYNC_EVERY_WRITE) [])"
  have log: "log_ready w dir [] []" "wal_pendingWrites w = []" "wal_currentLogFile w = log_name 1"
    using wal_open_new [of "[]" 1 "new_wal SYNC_EVERY_WRITE" w dir]
    by (simp_all add: w_def dir_def log_files_def new_wal_def wal_open_def Let_def rotateLog_def)
  define st where "st = \<lparr>mf_sstables = [meta], mf_nextFileNumber = 2, mf_lastFlushedSequence = 0,
      mf_version = 1, mf_createdAt = 0\<rparr>"
  define s where "s = \<lparr>st_active = mt_put 5 (js k') (js v') False (new_mem_table 100), st_immutable = Some ?imm,
      st_sstables = [(meta, opened_reader ?path 1 4 [e] [] f)], st_wal = w,
      st_manifest = \<lparr>mf_state = st, mf_loaded = True\<rparr>, st_flush = Opened, st_memTableSizeLimit = 100,
      st_sstConfig = cfg, st_initialized = True\<rparr>"
  define d where "d = \<lparr>dk_files = [?path \<mapsto> table_bytes 1 4 [e] [] f], dk_logs = dir,
      dk_manifest = manifest_save \<lparr>mf_state = st, mf_loaded = True\<rparr>\<rparr>"
  have tf: "table_file env cfg [?path \<mapsto> table_bytes 1 4 [e] [] f] meta [e]"
    unfolding table_file_def meta_def using tok parts rd
    by (intro exI [of _ 1] exI [of _ 4] exI [of _ "[]"] exI [of _ f]) simp
  have to: "table_open env (meta, opened_reader ?path 1 4 [e] [] f) [e]"
  proof -
    have "represents env (opened_reader ?path 1 4 [e] [] f) [e]"
      unfolding represents_def using tok parts rd by blast
    then show ?thesis by (simp add: table_open_def meta_def table_meta_def)
  qed
  have mi: "manifest_inv st"
    by (simp add: manifest_inv_def st_def newest_sorted_def meta_def table_meta_def)
  have li: "log_inv \<lparr>lg_wal = w, lg_dir = dir, lg_acked = []\<rparr>"
    by (rule log_invI [OF log(1)]) (simp_all add: log(2))
  have "store_inv env s d [[e]]"
    using assms(6,7) imm act tf to mi li log(2) fl
    by (simp add: store_inv_parts s_def d_def tables_open_def disk_tables_def flush_ok_def st_def)
  then show thesis
    by (rule that) (simp_all add: s_def log)
qed

end
