(* ===== verification/Compaction.thy ===== *)
theory Compaction
  imports Store_Recovery
begin

text \<open>
  The compaction of src/src/engine/compaction/CompactionManager.ts: all tables of the manifest
  are merged into one without tombstones, the manifest is switched over, the old files are
  deleted and the engine swaps its readers (\<open>handleCompactionComplete\<close> of LSMStore.ts). Every
  stretch between two awaits that others can see is one step, with the phase in the state.
\<close>

section \<open>State\<close>

text \<open>
  The metas are the tables being compacted. \<open>TablesRemoved\<close> has no new table when every entry
  was a tombstone; in \<open>Swapping\<close> the old readers are closed and the new one is being opened,
  with the tables to keep.
\<close>

datatype compact_phase =
  NoCompaction
| Selected "sst_meta list"
| Merged "sst_meta list" sst_writer
| TableBuilt "sst_meta list" sst_meta nat
| TableAdded "sst_meta list" sst_meta nat
| TablesRemoved "sst_meta list" "(sst_meta \<times> nat) option"
| OldDeleted "sst_meta list" sst_meta
| Swapping sst_meta "(sst_meta \<times> sst_reader) list"

record compactor =
  cm_threshold :: nat
  cm_config :: sst_config
  cm_running :: bool
  cm_timer :: bool
  cm_phase :: compact_phase
  cm_totalCompactions :: nat
  cm_totalEntriesCompacted :: nat
  cm_totalEntriesRemoved :: int
  cm_lastCompactionTime :: "nat option"

record compaction_stats =
  cs_totalCompactions :: nat
  cs_totalEntriesCompacted :: nat
  cs_totalEntriesRemoved :: int
  cs_isCompacting :: bool
  cs_lastCompactionTime :: "nat option"

definition new_compactor :: "nat \<Rightarrow> sst_config \<Rightarrow> compactor" where
  "new_compactor threshold cfg =
     \<lparr>cm_threshold = threshold, cm_config = cfg, cm_running = False, cm_timer = False,
      cm_phase = NoCompaction, cm_totalCompactions = 0, cm_totalEntriesCompacted = 0,
      cm_totalEntriesRemoved = 0, cm_lastCompactionTime = None\<rparr>"

definition isCompacting :: "compactor \<Rightarrow> bool" where
  "isCompacting c \<longleftrightarrow> cm_phase c \<noteq> NoCompaction"

definition compaction_getStats :: "compactor \<Rightarrow> compaction_stats" where
  "compaction_getStats c =
     \<lparr>cs_totalCompactions = cm_totalCompactions c, cs_totalEntriesCompacted = cm_totalEntriesCompacted c,
      cs_totalEntriesRemoved = cm_totalEntriesRemoved c, cs_isCompacting = isCompacting c,
      cs_lastCompactionTime = cm_lastCompactionTime c\<rparr>"

section \<open>When a compaction starts\<close>

text \<open>\<open>doCompaction\<close> with \<open>executeCompaction\<close> up to its first await.\<close>

definition doCompaction :: "manifest \<Rightarrow> compactor \<Rightarrow> compactor" where
  "doCompaction m c =
     (if isCompacting c then c
      else
        (case getState m of
           Inl err \<Rightarrow> c
         | Inr st \<Rightarrow>
             if length (mf_sstables st) < 2 then c else c\<lparr>cm_phase := Selected (mf_sstables st)\<rparr>))"

definition checkAndTrigger :: "manifest \<Rightarrow> compactor \<Rightarrow> compactor" where
  "checkAndTrigger m c =
     (if isCompacting c \<or> \<not> cm_running c then c
      else
        (case getState m of
           Inl err \<Rightarrow> c
         | Inr st \<Rightarrow> if cm_threshold c \<le> length (mf_sstables st) then doCompaction m c else c))"

definition compaction_start :: "manifest \<Rightarrow> compactor \<Rightarrow> compactor" where
  "compaction_start m c =
     (if cm_running c then c
      else (checkAndTrigger m (c\<lparr>cm_running := True\<rparr>))\<lparr>cm_timer := True\<rparr>)"

text \<open>\<open>stop\<close> up to the point where it waits for a running compaction.\<close>

definition compaction_stop :: "compactor \<Rightarrow> compactor" where
  "compaction_stop c = (if \<not> cm_running c then c else c\<lparr>cm_running := False, cm_timer := False\<rparr>)"

definition triggerCompaction :: "manifest \<Rightarrow> compactor \<Rightarrow> compactor res" where
  "triggerCompaction m c =
     (if isCompacting c then Inr c
      else bind_res (getState m) (\<lambda>st.
        if length (mf_sstables st) < 2 then Inr c else Inr (doCompaction m c)))"

text \<open>\<open>LSMStore.triggerCompaction\<close>; the compaction manager may be missing.\<close>

definition store_triggerCompaction :: "manifest \<Rightarrow> compactor option \<Rightarrow> compactor res" where
  "store_triggerCompaction m cm =
     (case cm of None \<Rightarrow> Inl CompactionNotAvailable | Some c \<Rightarrow> triggerCompaction m c)"

text \<open>The end of \<open>LSMStore.initialize\<close>: unless one was given, a compactor with threshold 4 is made.\<close>

definition start_compaction :: "bool \<Rightarrow> sst_config \<Rightarrow> manifest \<Rightarrow> compactor option \<Rightarrow> compactor option" where
  "start_compaction useCompaction cfg m cm =
     map_option (compaction_start m) (if useCompaction \<and> cm = None then Some (new_compactor 4 cfg) else cm)"

section \<open>The steps of a compaction\<close>

definition readerToAsyncIterable :: "read_env \<Rightarrow> sst_reader \<Rightarrow> merge_entry list res" where
  "readerToAsyncIterable env reader =
     (case reader_iterate env reader None None of
        (es, None) \<Rightarrow> Inr (map sst_merge_entry es)
      | (es, Some err) \<Rightarrow> Inl err)"

text \<open>The entries of the new table; \<open>clock i\<close> is the time at which the pair \<open>i\<close> is added.\<close>

definition compacted_entries :: "(nat \<Rightarrow> nat) \<Rightarrow> (jstring \<times> jstring) list \<Rightarrow> sst_entry list" where
  "compacted_entries clock pairs =
     map (\<lambda>(i, key, v). \<lparr>se_key = key, se_value = v, se_time = clock i, se_deleted = False\<rparr>)
       (enumerate 0 pairs)"

definition compact_merge ::
  "read_env \<Rightarrow> (nat \<Rightarrow> nat) \<Rightarrow> sst_config \<Rightarrow> sst_meta list \<Rightarrow> manifest \<Rightarrow> files \<Rightarrow> sst_writer res" where
  "compact_merge env clock cfg metas m fs =
     bind_res (map_res (\<lambda>meta. openFile env fs (sm_filePath meta)) metas) (\<lambda>readers.
     bind_res (getNextFileNumber m) (\<lambda>newFileNumber.
     bind_res (map_res (readerToAsyncIterable env) readers) (\<lambda>asyncSources.
     sw_add_all (compacted_entries clock (iterate False (new_merge asyncSources)))
       (new_writer newFileNumber cfg))))"

definition deleteOldFiles :: "sst_meta list \<Rightarrow> files \<Rightarrow> files" where
  "deleteOldFiles = fold (\<lambda>meta fs. fs(sm_filePath meta := None))"

definition updateStats :: "nat \<Rightarrow> nat \<Rightarrow> int \<Rightarrow> compactor \<Rightarrow> compactor" where
  "updateStats now entriesCompacted entriesRemoved c =
     c\<lparr>cm_totalCompactions := cm_totalCompactions c + 1,
       cm_totalEntriesCompacted := cm_totalEntriesCompacted c + entriesCompacted,
       cm_totalEntriesRemoved := cm_totalEntriesRemoved c + entriesRemoved,
       cm_lastCompactionTime := Some now\<rparr>"

text \<open>
  \<open>handleCompactionComplete\<close>: first the readers of the compacted tables are closed and the
  others noted; when the new table is open, the noted ones and it become the tables.
\<close>

definition close_compacted ::
  "nat list \<Rightarrow> (sst_meta \<times> sst_reader) list \<Rightarrow> (sst_meta \<times> sst_reader) list \<times> (sst_meta \<times> sst_reader) list" where
  "close_compacted compacted ts =
     (map (\<lambda>(meta, r). if sm_fileNumber meta \<in> set compacted then (meta, reader_close r) else (meta, r)) ts,
      filter (\<lambda>(meta, r). sm_fileNumber meta \<notin> set compacted) ts)"

definition swap_tables ::
  "read_env \<Rightarrow> files \<Rightarrow> sst_meta \<Rightarrow> (sst_meta \<times> sst_reader) list \<Rightarrow> (sst_meta \<times> sst_reader) list res" where
  "swap_tables env fs newSSTable newSSTables =
     bind_res (openFile env fs (sm_filePath newSSTable)) (\<lambda>newReader.
     Inr (sort_key (\<lambda>t. - int (sm_fileNumber (fst t))) (newSSTables @ [(newSSTable, newReader)])))"

definition total_entries :: "sst_meta list \<Rightarrow> int" where
  "total_entries metas = int (sum_list (map sm_entryCount metas))"

definition compact_step ::
  "read_env \<Rightarrow> (nat \<Rightarrow> nat) \<Rightarrow> nat \<Rightarrow> compactor \<times> store \<times> disk \<Rightarrow> compactor \<times> store \<times> disk" where
  "compact_step env clock now = (\<lambda>(c, s, d).
     case cm_phase c of
       NoCompaction \<Rightarrow> (c, s, d)
     | Selected metas \<Rightarrow>
         (case compact_merge env clock (cm_config c) metas (st_manifest s) (dk_files d) of
            Inl err \<Rightarrow> (c\<lparr>cm_phase := NoCompaction\<rparr>, s, d)
          | Inr writer \<Rightarrow> (c\<lparr>cm_phase := Merged metas writer\<rparr>, s, d))
     | Merged metas writer \<Rightarrow>
         if sw_entries writer = [] then
           (case removeSSTables (map sm_fileNumber metas) (st_manifest s) of
              Inl err \<Rightarrow> (c\<lparr>cm_phase := NoCompaction\<rparr>, s, d)
            | Inr (m, disk) \<Rightarrow>
                (c\<lparr>cm_phase := TablesRemoved metas None\<rparr>, s\<lparr>st_manifest := m\<rparr>, d\<lparr>dk_manifest := disk\<rparr>))
         else
           (case sw_build (env_mem env) now writer (dk_files d) of
              (Inl err, w, fs) \<Rightarrow> (c\<lparr>cm_phase := NoCompaction\<rparr>, s, d\<lparr>dk_files := fs\<rparr>)
            | (Inr newMetadata, w, fs) \<Rightarrow>
                (c\<lparr>cm_phase := TableBuilt metas newMetadata (length (sw_entries writer))\<rparr>, s,
                 d\<lparr>dk_files := fs\<rparr>))
     | TableBuilt metas newMetadata n \<Rightarrow>
         (case addSSTable newMetadata (st_manifest s) of
            Inl err \<Rightarrow> (c\<lparr>cm_phase := NoCompaction\<rparr>, s, d)
          | Inr (m, disk) \<Rightarrow>
              (c\<lparr>cm_phase := TableAdded metas newMetadata n\<rparr>, s\<lparr>st_manifest := m\<rparr>, d\<lparr>dk_manifest := disk\<rparr>))
     | TableAdded metas newMetadata n \<Rightarrow>
         (case removeSSTables (map sm_fileNumber metas) (st_manifest s) of
            Inl err \<Rightarrow> (c\<lparr>cm_phase := NoCompaction\<rparr>, s, d)
          | Inr (m, disk) \<Rightarrow>
              (c\<lparr>cm_phase := TablesRemoved metas (Some (newMetadata, n))\<rparr>, s\<lparr>st_manifest := m\<rparr>,
               d\<lparr>dk_manifest := disk\<rparr>))
     | TablesRemoved metas None \<Rightarrow>
         (updateStats now 0 (total_entries metas) (c\<lparr>cm_phase := NoCompaction\<rparr>), s,
          d\<lparr>dk_files := deleteOldFiles metas (dk_files d)\<rparr>)
     | TablesRemoved metas (Some (newMetadata, n)) \<Rightarrow>
         (updateStats now n (total_entries metas - int n) (c\<lparr>cm_phase := OldDeleted metas newMetadata\<rparr>), s,
          d\<lparr>dk_files := deleteOldFiles metas (dk_files d)\<rparr>)
     | OldDeleted metas newMetadata \<Rightarrow>
         (case close_compacted (map sm_fileNumber metas) (st_sstables s) of
            (ts, kept) \<Rightarrow> (c\<lparr>cm_phase := Swapping newMetadata kept\<rparr>, s\<lparr>st_sstables := ts\<rparr>, d))
     | Swapping newMetadata kept \<Rightarrow>
         (case swap_tables env (dk_files d) newMetadata kept of
            Inl err \<Rightarrow> (c\<lparr>cm_phase := NoCompaction\<rparr>, s, d)
          | Inr ts \<Rightarrow> (c\<lparr>cm_phase := NoCompaction\<rparr>, s\<lparr>st_sstables := ts\<rparr>, d)))"

text \<open>
  The error with which a step ends the compaction; \<open>currentCompaction\<close> is rejected with it.
\<close>

definition thrown :: "'a res \<Rightarrow> js_error option" where
  "thrown r = (case r of Inl err \<Rightarrow> Some err | Inr x \<Rightarrow> None)"

definition compaction_error ::
  "read_env \<Rightarrow> (nat \<Rightarrow> nat) \<Rightarrow> nat \<Rightarrow> compactor \<times> store \<times> disk \<Rightarrow> js_error option" where
  "compaction_error env clock now = (\<lambda>(c, s, d).
     case cm_phase c of
       Selected metas \<Rightarrow> thrown (compact_merge env clock (cm_config c) metas (st_manifest s) (dk_files d))
     | Merged metas writer \<Rightarrow>
         if sw_entries writer = [] then thrown (removeSSTables (map sm_fileNumber metas) (st_manifest s))
         else thrown (fst (sw_build (env_mem env) now writer (dk_files d)))
     | TableBuilt metas newMetadata n \<Rightarrow> thrown (addSSTable newMetadata (st_manifest s))
     | TableAdded metas newMetadata n \<Rightarrow> thrown (removeSSTables (map sm_fileNumber metas) (st_manifest s))
     | Swapping newMetadata kept \<Rightarrow> thrown (swap_tables env (dk_files d) newMetadata kept)
     | _ \<Rightarrow> None)"

lemma compaction_error_ends:
  "compaction_error env clock now (c, s, d) = Some err \<Longrightarrow> cm_phase (fst (compact_step env clock now (c, s, d))) = NoCompaction"
  by (auto simp: compaction_error_def compact_step_def thrown_def split: compact_phase.splits sum.splits prod.splits if_splits)

text \<open>A compaction from its first step on: one time for each step.\<close>

definition compact_run ::
  "read_env \<Rightarrow> (nat \<Rightarrow> nat) \<Rightarrow> nat list \<Rightarrow> compactor \<times> store \<times> disk \<Rightarrow> compactor \<times> store \<times> disk" where
  "compact_run env clock = fold (compact_step env clock)"

section \<open>Statistics of the store\<close>

record store_stats =
  ss_activeMemTableSize :: int
  ss_immutableMemTableSize :: "int option"
  ss_sstableCount :: nat
  ss_isFlushing :: bool
  ss_manifestVersion :: nat
  ss_compaction :: "compaction_stats option"

definition store_getStats :: "compactor option \<Rightarrow> store \<Rightarrow> store_stats res" where
  "store_getStats cm s =
     bind_res (getState (st_manifest s)) (\<lambda>st.
     Inr \<lparr>ss_activeMemTableSize = mt_size (st_active s),
       ss_immutableMemTableSize = map_option mt_size (st_immutable s),
       ss_sstableCount = length (st_sstables s), ss_isFlushing = (st_flush s \<noteq> NoFlush),
       ss_manifestVersion = mf_version st, ss_compaction = map_option compaction_getStats cm\<rparr>)"

end
