(* ===== verification/Compaction_Proofs.thy ===== *)
theory Compaction_Proofs
  imports Compaction
begin

text \<open>
  A compaction keeps the content of the store: the new table says of every key what the old
  tables said, at every step the disk still holds the content, and at the end the readers are
  those of the one new table.
\<close>

section \<open>The entries of the new table\<close>

definition compacted :: "(nat \<Rightarrow> nat) \<Rightarrow> sst_entry list list \<Rightarrow> sst_entry list" where
  "compacted clock tables =
     compacted_entries clock (yielded False (merged (map (map sst_merge_entry) tables)))"

lemma compacted_entries_keys:
  "map se_key (compacted_entries clock ps) = map fst ps"
  by (simp add: compacted_entries_def comp_def case_prod_unfold flip: map_map [unfolded comp_def])

lemma ordered_by_keys: "ordered_by f xs = sorted_wrt (<) (map f xs)"
  by (simp add: ordered_by_def sorted_wrt_map)

lemma compacted_entries_layer:
  "table_layer (compacted_entries clock ps) k = map_option Some (map_of ps k)"
proof -
  have "table_layer (map (\<lambda>(i, key, v). \<lparr>se_key = key, se_value = v, se_time = clock i, se_deleted = False\<rparr>)
      (enumerate n ps)) k = map_option Some (map_of ps k)" for n
    by (induction ps arbitrary: n) (auto simp: table_layer_def sst_value_def)
  then show ?thesis by (simp add: compacted_entries_def)
qed

lemma merge_layer: "source_layer (map sst_merge_entry es) = table_layer es"
  by (simp add: fun_eq_iff source_layer_def table_layer_def entry_of_sst option.map_comp comp_def)

lemma compacted_layer:
  "view (table_layer (compacted clock tables) # ls) k =
   (case view (map table_layer tables) k of Some v \<Rightarrow> Some v | None \<Rightarrow> view ls k)"
  and compacted_single: "view [table_layer (compacted clock tables)] = view (map table_layer tables)"
proof -
  let ?srcs = "map (map sst_merge_entry) tables"
  have "map_of (yielded False (merged ?srcs)) k = view (map table_layer tables) k" for k
    unfolding yielded_lookup view_def
    using newest_layers [of ?srcs k, symmetric]
    by (simp add: comp_def merge_layer merge_value_def split: option.split)
  then have layer: "table_layer (compacted clock tables) k = map_option Some (view (map table_layer tables) k)" for k
    by (simp add: compacted_def compacted_entries_layer)
  show "view (table_layer (compacted clock tables) # ls) k =
      (case view (map table_layer tables) k of Some v \<Rightarrow> Some v | None \<Rightarrow> view ls k)"
    by (simp add: view_Cons layer split: option.split)
  show "view [table_layer (compacted clock tables)] = view (map table_layer tables)"
    by (simp add: fun_eq_iff view_Cons layer view_def [of "[]"] split: option.split)
qed

lemma compacted_above: "view (table_layer (compacted clock tables) # map table_layer tables) = view (map table_layer tables)"
  by (simp add: fun_eq_iff compacted_layer split: option.split)

lemma ordered_compacted: "ordered_by se_key (compacted clock tables)"
  using ordered_yielded by (simp add: ordered_by_keys compacted_def compacted_entries_keys)

text \<open>An entry of the new table is one of an old table with a new time.\<close>

lemma compacted_from:
  assumes "e \<in> set (compacted clock tables)"
  obtains x i where "x \<in> \<Union>(set ` set tables)" "e = x\<lparr>se_time := clock i\<rparr>" "\<not> se_deleted x"
proof -
  define srcs where "srcs = map (map sst_merge_entry) tables"
  obtain i k v where e: "(i, k, v) \<in> set (enumerate 0 (yielded False (merged srcs)))"
    "e = \<lparr>se_key = k, se_value = v, se_time = clock i, se_deleted = False\<rparr>"
    using assms by (auto simp: compacted_def compacted_entries_def srcs_def)
  have "(k, v) \<in> set (yielded False (merged srcs))"
    using e(1) by (auto simp: enumerate_eq_zip dest: set_zip_rightD)
  then obtain m where m0: "m \<in> set (merged srcs)" "me_key m = k" "\<not> me_deleted m" "me_value m = v"
    unfolding yielded_def by fastforce
  then have m: "newest srcs k = Some m" "\<not> me_deleted m" "me_value m = v" by (simp_all add: set_merged)
  have "me_key m = k" "\<exists>es\<in>set srcs. m \<in> set es" using newest_Some [OF m(1)] by auto
  then obtain es x where x: "es \<in> set tables" "x \<in> set es" "m = sst_merge_entry x"
    by (auto simp: srcs_def)
  have "e = x\<lparr>se_time := clock i\<rparr>" "\<not> se_deleted x"
    using m(2,3) \<open>me_key m = k\<close> e(2) by (auto simp: x(3) sst_merge_entry_def)
  then show thesis using that x(1,2) by blast
qed

lemma readable_retime:
  assumes "readable env x" "t \<le> 2 ^ 53"
  shows "readable env (x\<lparr>se_time := t\<rparr>)"
proof -
  have pre: "take 4 (drop 2 (sst_entry_bytes (x\<lparr>se_time := t\<rparr>))) = take 4 (drop 2 (sst_entry_bytes x))"
    by (simp add: sst_entry_bytes_def sst_entry_writes_def)
  then show ?thesis
    using assms by (simp add: readable_def sst_entry_ok_def header_valueLen_def pre)
qed

section \<open>The merge\<close>

lemma reader_all:
  assumes "represents env r es"
  shows "readerToAsyncIterable env r = Inr (map sst_merge_entry es)"
proof (rule represents_state [OF assms])
  fix st post
  assume st: "rd_state r = Some st" "sm_firstKey (rs_metadata st) = se_key (hd es)"
    "sm_lastKey (rs_metadata st) = se_key (last es)" and ord: "ordered_by se_key es"
  have "reader_iterate env r None None = reader_iterate env r (Some (se_key (hd es))) (Some (se_key (last es)))"
    using st by (simp add: reader_iterate_def ensureOpen_def Let_def)
  also have "\<dots> = (filter (\<lambda>e. se_key (hd es) \<le> se_key e \<and> se_key e \<le> se_key (last es)) es, None)"
    by (rule reader_iterate_ok [OF assms])
  also have "filter (\<lambda>e. se_key (hd es) \<le> se_key e \<and> se_key e \<le> se_key (last es)) es = es"
    using represents_range [OF ord] by (auto simp: filter_id_conv)
  finally show ?thesis by (simp add: readerToAsyncIterable_def)
qed

lemma compact_readers:
  assumes "list_all2 (table_file env cfg fs) metas tables" "2147483647 \<le> env_limit env"
  obtains readers where "map_res (\<lambda>meta. openFile env fs (sm_filePath meta)) metas = Inr readers"
    "map_res (readerToAsyncIterable env) readers = Inr (map (map sst_merge_entry) tables)"
proof -
  have "\<exists>readers. map_res (\<lambda>meta. openFile env fs (sm_filePath meta)) metas = Inr readers \<and>
    map_res (readerToAsyncIterable env) readers = Inr (map (map sst_merge_entry) tables)"
    using assms
  proof (induction rule: list_all2_induct)
    case (Cons meta metas es tables)
    obtain r where r: "openFile env fs (sm_filePath meta) = Inr r" "table_open env (meta, r) es"
      by (rule table_file_open [OF Cons.hyps(1) assms(2)])
    then have "represents env r es" by (simp add: table_open_def)
    then show ?case using Cons.IH [OF assms(2)] r(1) reader_all by auto
  qed simp
  then show thesis using that by blast
qed

lemma table_file_ordered: "table_file env cfg fs meta es \<Longrightarrow> ordered_by se_key es"
  by (auto simp: table_file_def table_ok_def)

lemma compact_merge_ok:
  assumes "list_all2 (table_file env cfg fs) metas tables" "2147483647 \<le> env_limit env" "mf_loaded m"
  obtains w where "compact_merge env clock cfg metas m fs = Inr w" "sw_entries w = compacted clock tables"
    "\<not> sw_built w" "sw_sparseIndex w = []" "sw_config w = cfg"
    "sw_fileNumber w = mf_nextFileNumber (mf_state m)"
proof -
  obtain readers where r: "map_res (\<lambda>meta. openFile env fs (sm_filePath meta)) metas = Inr readers"
    "map_res (readerToAsyncIterable env) readers = Inr (map (map sst_merge_entry) tables)"
    by (rule compact_readers [OF assms(1,2)])
  have "\<forall>es\<in>set tables. ordered_by se_key es"
    using assms(1) by (induction rule: list_all2_induct) (auto dest: table_file_ordered)
  then have "\<forall>es\<in>set (map (map sst_merge_entry) tables). ordered_by me_key es"
    by (auto simp: comp_def)
  then have c: "compacted_entries clock (iterate False (new_merge (map (map sst_merge_entry) tables))) =
      compacted clock tables"
    by (simp add: compacted_def iterate_merged)
  define w where "w = (new_writer (mf_nextFileNumber (mf_state m)) cfg)\<lparr>sw_entries := compacted clock tables,
    sw_lastKey := (if compacted clock tables = [] then None else Some (se_key (last (compacted clock tables))))\<rparr>"
  have "sw_add_all (compacted clock tables) (new_writer (mf_nextFileNumber (mf_state m)) cfg) = Inr w"
    using sw_add_all_ok [of "new_writer (mf_nextFileNumber (mf_state m)) cfg" "compacted clock tables"]
      ordered_compacted [of clock tables] by (simp add: new_writer_def w_def)
  then have "compact_merge env clock cfg metas m fs = Inr w"
    using r c assms(3) by (simp add: compact_merge_def getNextFileNumber_def ensureLoaded_def)
  then show thesis
    by (rule that) (simp_all add: w_def new_writer_def)
qed

section \<open>The phases\<close>

text \<open>The tables that the manifest on disk lists in each phase; \<open>new\<close> is the merged table.\<close>

fun phase_tables :: "sst_entry list \<Rightarrow> sst_entry list list \<Rightarrow> compact_phase \<Rightarrow> sst_entry list list" where
  "phase_tables new tables (Selected metas) = tables"
| "phase_tables new tables (Merged metas w) = tables"
| "phase_tables new tables (TableBuilt metas m n) = tables"
| "phase_tables new tables (TableAdded metas m n) = new # tables"
| "phase_tables new tables (TablesRemoved metas r) = (if new = [] then [] else [new])"
| "phase_tables new tables (OldDeleted metas m) = [new]"
| "phase_tables new tables (Swapping m kept) = [new]"
| "phase_tables new tables NoCompaction = (if new = [] then [] else [new])"

text \<open>
  What holds of the manifest, the tables of the engine and the new table in each phase; \<open>number\<close>
  is the file number of the new table.
\<close>

definition readers_of :: "read_env \<Rightarrow> store \<Rightarrow> sst_meta list \<Rightarrow> sst_entry list list \<Rightarrow> bool" where
  "readers_of env s metas tables \<longleftrightarrow> tables_open env (st_sstables s) tables \<and> map fst (st_sstables s) = metas"

fun phase_ok :: "read_env \<Rightarrow> sst_config \<Rightarrow> nat \<Rightarrow> sst_meta list \<Rightarrow> sst_entry list list \<Rightarrow> sst_entry list \<Rightarrow>
    store \<Rightarrow> disk \<Rightarrow> compact_phase \<Rightarrow> bool" where
  "phase_ok env cfg number metas tables new s d (Selected ms) \<longleftrightarrow>
     ms = metas \<and> mf_sstables (mf_state (st_manifest s)) = metas \<and> readers_of env s metas tables \<and>
     mf_nextFileNumber (mf_state (st_manifest s)) = number"
| "phase_ok env cfg number metas tables new s d (Merged ms w) \<longleftrightarrow>
     ms = metas \<and> mf_sstables (mf_state (st_manifest s)) = metas \<and> readers_of env s metas tables \<and>
     mf_nextFileNumber (mf_state (st_manifest s)) = number \<and>
     sw_entries w = new \<and> \<not> sw_built w \<and> sw_sparseIndex w = [] \<and> sw_config w = cfg \<and> sw_fileNumber w = number"
| "phase_ok env cfg number metas tables new s d (TableBuilt ms m n) \<longleftrightarrow>
     ms = metas \<and> mf_sstables (mf_state (st_manifest s)) = metas \<and> readers_of env s metas tables \<and>
     mf_nextFileNumber (mf_state (st_manifest s)) = number \<and> new \<noteq> [] \<and>
     table_file env cfg (dk_files d) m new \<and> sm_fileNumber m = number"
| "phase_ok env cfg number metas tables new s d (TableAdded ms m n) \<longleftrightarrow>
     ms = metas \<and> mf_sstables (mf_state (st_manifest s)) = m # metas \<and> readers_of env s metas tables \<and>
     new \<noteq> [] \<and> sm_fileNumber m = number"
| "phase_ok env cfg number metas tables new s d (TablesRemoved ms r) \<longleftrightarrow>
     ms = metas \<and> readers_of env s metas tables \<and>
     (case r of
        None \<Rightarrow> new = [] \<and> mf_sstables (mf_state (st_manifest s)) = []
      | Some (m, n) \<Rightarrow> new \<noteq> [] \<and> mf_sstables (mf_state (st_manifest s)) = [m] \<and> sm_fileNumber m = number)"
| "phase_ok env cfg number metas tables new s d (OldDeleted ms m) \<longleftrightarrow>
     ms = metas \<and> readers_of env s metas tables \<and> new \<noteq> [] \<and> mf_sstables (mf_state (st_manifest s)) = [m]"
| "phase_ok env cfg number metas tables new s d (Swapping m kept) \<longleftrightarrow>
     kept = [] \<and> new \<noteq> [] \<and> mf_sstables (mf_state (st_manifest s)) = [m] \<and>
     map fst (st_sstables s) = metas \<and> (\<forall>t\<in>set (st_sstables s). rd_state (snd t) = None)"
| "phase_ok env cfg number metas tables new s d NoCompaction \<longleftrightarrow>
     (if new = [] then readers_of env s metas tables \<and> mf_sstables (mf_state (st_manifest s)) = []
      else readers_of env s (mf_sstables (mf_state (st_manifest s))) [new])"

definition compact_inv :: "read_env \<Rightarrow> (nat \<Rightarrow> nat) \<Rightarrow> nat \<Rightarrow> sst_meta list \<Rightarrow> sst_entry list list \<Rightarrow>
    compactor \<times> store \<times> disk \<Rightarrow> bool" where
  "compact_inv env clock number metas tables = (\<lambda>(c, s, d).
     let cfg = cm_config c; new = compacted clock tables in
     mf_loaded (st_manifest s) \<and> manifest_inv (mf_state (st_manifest s)) \<and>
     disk_holds env cfg d (mf_state (st_manifest s)) (phase_tables new tables (cm_phase c)) \<and>
     phase_ok env cfg number metas tables new s d (cm_phase c))"

text \<open>What a compaction assumes of its surroundings: the sizes of the new table fit its format.\<close>

definition compact_fits :: "read_env \<Rightarrow> (nat \<Rightarrow> nat) \<Rightarrow> nat \<Rightarrow> sst_config \<Rightarrow> sst_meta list \<Rightarrow> sst_entry list list \<Rightarrow> bool" where
  "compact_fits env clock number cfg metas tables \<longleftrightarrow>
     2147483647 \<le> env_limit env \<and> cf_falsePositiveRate cfg < 1 \<and> number < 4294967296 \<and>
     (\<forall>x\<in>set metas. sm_fileNumber x < number \<and> sm_filePath x = sst_path (cf_dataDir cfg) (sm_fileNumber x)) \<and>
     (\<forall>es\<in>set tables. \<forall>e\<in>set es. readable env e) \<and> (\<forall>i. clock i \<le> 2 ^ 53) \<and>
     28 * length (compacted clock tables) < 4294967296 \<and> length (data_bytes (compacted clock tables)) \<le> 2 ^ 52"

lemma compacted_table_ok:
  assumes "compact_fits env clock number cfg metas tables" "compacted clock tables \<noteq> []" "now \<le> 2 ^ 53"
  shows "table_ok number now (compacted clock tables)" "\<forall>e\<in>set (compacted clock tables). readable env e"
proof -
  show rd: "\<forall>e\<in>set (compacted clock tables). readable env e"
  proof
    fix e assume "e \<in> set (compacted clock tables)"
    then obtain x i where "x \<in> \<Union>(set ` set tables)" "e = x\<lparr>se_time := clock i\<rparr>"
      by (rule compacted_from)
    then show "readable env e" using assms(1) readable_retime by (auto simp: compact_fits_def)
  qed
  then show "table_ok number now (compacted clock tables)"
    using assms ordered_compacted [of clock tables] by (simp add: compact_fits_def table_ok_def readable_def)
qed

lemma disk_holds_save:
  "dk_manifest d = manifest_save m \<Longrightarrow> list_all2 (table_file env cfg (dk_files d)) (mf_sstables (mf_state m)) tabs \<Longrightarrow>
   disk_holds env cfg d (mf_state m) tabs"
  by (simp add: disk_holds_def manifest_save_def)

lemma merge_phase:
  assumes "compact_inv env clock number metas tables (c, s, d)" "cm_phase c = Selected ms"
    "compact_fits env clock number (cm_config c) metas tables"
  obtains w where "compact_step env clock now (c, s, d) = (c\<lparr>cm_phase := Merged metas w\<rparr>, s, d)"
    "compact_inv env clock number metas tables (c\<lparr>cm_phase := Merged metas w\<rparr>, s, d)"
proof -
  have inv: "list_all2 (table_file env (cm_config c) (dk_files d)) metas tables" "mf_loaded (st_manifest s)"
    using assms(1,2) by (auto simp: compact_inv_def disk_holds_def Let_def)
  have lim: "2147483647 \<le> env_limit env" using assms(3) by (simp add: compact_fits_def)
  obtain w where w: "compact_merge env clock (cm_config c) metas (st_manifest s) (dk_files d) = Inr w"
    "sw_entries w = compacted clock tables" "\<not> sw_built w" "sw_sparseIndex w = []" "sw_config w = cm_config c"
    "sw_fileNumber w = mf_nextFileNumber (mf_state (st_manifest s))"
    by (rule compact_merge_ok [OF inv(1) lim inv(2)])
  show thesis
    using assms(1,2) w by (intro that [of w]) (simp_all add: compact_step_def compact_inv_def Let_def)
qed

lemma build_phase:
  assumes "compact_inv env clock number metas tables (c, s, d)" "cm_phase c = Merged ms w"
    "compact_fits env clock number (cm_config c) metas tables" "compacted clock tables \<noteq> []" "now \<le> 2 ^ 53"
  obtains m n d' where "compact_step env clock now (c, s, d) = (c\<lparr>cm_phase := TableBuilt metas m n\<rparr>, s, d')"
    "compact_inv env clock number metas tables (c\<lparr>cm_phase := TableBuilt metas m n\<rparr>, s, d')"
    "dk_logs d' = dk_logs d"
proof -
  let ?new = "compacted clock tables" and ?cfg = "cm_config c"
  let ?path = "sst_path (cf_dataDir ?cfg) number"
  have inv: "list_all2 (table_file env ?cfg (dk_files d)) metas tables" "mf_sstables (mf_state (st_manifest s)) = metas"
    "sw_entries w = ?new" "\<not> sw_built w" "sw_sparseIndex w = []" "sw_config w = ?cfg" "sw_fileNumber w = number" "ms = metas"
    using assms(1,2) by (auto simp: compact_inv_def disk_holds_def Let_def)
  note ok = compacted_table_ok [OF assms(3-5)]
  have fpr: "cf_falsePositiveRate (sw_config w) < 1" using assms(3) inv(6) by (simp add: compact_fits_def)
  have tok: "table_ok (sw_fileNumber w) now (sw_entries w)" using ok(1) inv by simp
  obtain w' index bloom where parts: "table_parts (sw_entries w) index bloom" and b:
    "sw_build (env_mem env) now w (dk_files d) =
       (Inr (table_meta (sw_fileNumber w) now (sw_entries w) index bloom
          (sst_path (cf_dataDir (sw_config w)) (sw_fileNumber w))), w',
        (dk_files d)(temp_path (sst_path (cf_dataDir (sw_config w)) (sw_fileNumber w)) := None,
           sst_path (cf_dataDir (sw_config w)) (sw_fileNumber w) \<mapsto>
             table_bytes (sw_fileNumber w) now (sw_entries w) index bloom))"
    by (rule sw_build_ok [OF tok inv(5,4) fpr])
  define meta fs where "meta = table_meta number now ?new index bloom ?path"
    and "fs = (dk_files d)(temp_path ?path := None, ?path \<mapsto> table_bytes number now ?new index bloom)"
  have step: "compact_step env clock now (c, s, d) =
      (c\<lparr>cm_phase := TableBuilt metas meta (length ?new)\<rparr>, s, d\<lparr>dk_files := fs\<rparr>)"
    using b by (simp add: compact_step_def assms(2,4) inv meta_def fs_def)
  have tfile: "table_file env ?cfg fs meta ?new"
    unfolding table_file_def
    by (intro exI [of _ number] exI [of _ now] exI [of _ index] exI [of _ bloom])
      (use ok parts inv(3) in \<open>simp add: meta_def fs_def\<close>)
  have old: "list_all2 (table_file env ?cfg fs) metas tables"
  proof (rule list.rel_mono_strong [OF inv(1)])
    fix x es assume "x \<in> set metas"
    then have "sm_fileNumber x \<noteq> number" using assms(3) by (auto simp: compact_fits_def)
    then show "table_file env ?cfg (dk_files d) x es \<Longrightarrow> table_file env ?cfg fs x es"
      unfolding fs_def by (rule table_file_write [rotated])
  qed
  show thesis
  proof (rule that [OF step])
    show "compact_inv env clock number metas tables (c\<lparr>cm_phase := TableBuilt metas meta (length ?new)\<rparr>, s, d\<lparr>dk_files := fs\<rparr>)"
      using assms(1,2,4) tfile old by (auto simp: compact_inv_def disk_holds_def Let_def meta_def table_meta_def)
  qed simp
qed

lemma empty_phase:
  assumes "compact_inv env clock number metas tables (c, s, d)" "cm_phase c = Merged ms w"
    "compacted clock tables = []"
  obtains mf where "compact_step env clock now (c, s, d) = (c\<lparr>cm_phase := TablesRemoved metas None\<rparr>,
      s\<lparr>st_manifest := mf\<rparr>, d\<lparr>dk_manifest := manifest_save mf\<rparr>)"
    "compact_inv env clock number metas tables (c\<lparr>cm_phase := TablesRemoved metas None\<rparr>,
      s\<lparr>st_manifest := mf\<rparr>, d\<lparr>dk_manifest := manifest_save mf\<rparr>)"
proof -
  have inv: "mf_sstables (mf_state (st_manifest s)) = metas" "sw_entries w = []" "ms = metas"
    "mf_loaded (st_manifest s)" "manifest_inv (mf_state (st_manifest s))"
    using assms by (auto simp: compact_inv_def Let_def)
  obtain mf where mf: "removeSSTables (map sm_fileNumber metas) (st_manifest s) = Inr (mf, manifest_save mf)"
    "mf_loaded mf" "manifest_inv (mf_state mf)" "mf_sstables (mf_state mf) =
      filter (\<lambda>x. sm_fileNumber x \<notin> set (map sm_fileNumber metas)) (mf_sstables (mf_state (st_manifest s)))"
    by (rule removeSSTables_ok [OF inv(4,5)])
  have "mf_sstables (mf_state mf) = []" using mf(4) inv(1) by (auto simp: filter_empty_conv)
  then show thesis
    using assms mf(1-3) inv
    by (intro that [of mf])
      (auto simp: compact_step_def compact_inv_def Let_def readers_of_def intro: disk_holds_save)
qed

lemma add_phase:
  assumes "compact_inv env clock number metas tables (c, s, d)" "cm_phase c = TableBuilt ms m n"
  obtains mf where "compact_step env clock now (c, s, d) = (c\<lparr>cm_phase := TableAdded metas m n\<rparr>,
      s\<lparr>st_manifest := mf\<rparr>, d\<lparr>dk_manifest := manifest_save mf\<rparr>)"
    "compact_inv env clock number metas tables (c\<lparr>cm_phase := TableAdded metas m n\<rparr>,
      s\<lparr>st_manifest := mf\<rparr>, d\<lparr>dk_manifest := manifest_save mf\<rparr>)"
proof -
  have inv: "mf_sstables (mf_state (st_manifest s)) = metas" "ms = metas"
    "list_all2 (table_file env (cm_config c) (dk_files d)) metas tables"
    "table_file env (cm_config c) (dk_files d) m (compacted clock tables)"
    "mf_loaded (st_manifest s)" "manifest_inv (mf_state (st_manifest s))"
    "mf_nextFileNumber (mf_state (st_manifest s)) \<le> sm_fileNumber m"
    using assms by (auto simp: compact_inv_def disk_holds_def Let_def)
  obtain mf where mf: "addSSTable m (st_manifest s) = Inr (mf, manifest_save mf)" "mf_loaded mf"
    "mf_sstables (mf_state mf) = m # mf_sstables (mf_state (st_manifest s))" "manifest_inv (mf_state mf)"
    by (rule addSSTable_ok [OF inv(5-7)])
  show thesis
    using assms mf inv
    by (intro that [of mf])
      (auto simp: compact_step_def compact_inv_def Let_def readers_of_def intro: disk_holds_save)
qed

lemma remove_phase:
  assumes "compact_inv env clock number metas tables (c, s, d)" "cm_phase c = TableAdded ms m n"
    "compact_fits env clock number (cm_config c) metas tables"
  obtains mf where "compact_step env clock now (c, s, d) = (c\<lparr>cm_phase := TablesRemoved metas (Some (m, n))\<rparr>,
      s\<lparr>st_manifest := mf\<rparr>, d\<lparr>dk_manifest := manifest_save mf\<rparr>)"
    "compact_inv env clock number metas tables (c\<lparr>cm_phase := TablesRemoved metas (Some (m, n))\<rparr>,
      s\<lparr>st_manifest := mf\<rparr>, d\<lparr>dk_manifest := manifest_save mf\<rparr>)"
proof -
  have inv: "mf_sstables (mf_state (st_manifest s)) = m # metas" "ms = metas"
    "list_all2 (table_file env (cm_config c) (dk_files d)) (m # metas) (compacted clock tables # tables)"
    "mf_loaded (st_manifest s)" "manifest_inv (mf_state (st_manifest s))" "sm_fileNumber m = number"
    using assms(1,2) by (auto simp: compact_inv_def disk_holds_def Let_def)
  obtain mf where mf: "removeSSTables (map sm_fileNumber metas) (st_manifest s) = Inr (mf, manifest_save mf)"
    "mf_loaded mf" "manifest_inv (mf_state mf)" "mf_sstables (mf_state mf) =
      filter (\<lambda>x. sm_fileNumber x \<notin> set (map sm_fileNumber metas)) (mf_sstables (mf_state (st_manifest s)))"
    by (rule removeSSTables_ok [OF inv(4,5)])
  have "sm_fileNumber m \<notin> set (map sm_fileNumber metas)" using assms(3) inv(6) by (auto simp: compact_fits_def)
  then have "mf_sstables (mf_state mf) = [m]" using mf(4) inv(1) by (auto simp: filter_empty_conv)
  then show thesis
    using assms(1,2) mf(1-3) inv
    by (intro that [of mf])
      (auto simp: compact_step_def compact_inv_def Let_def readers_of_def intro: disk_holds_save)
qed

lemma deleteOldFiles_other: "p \<notin> sm_filePath ` set metas \<Longrightarrow> deleteOldFiles metas fs p = fs p"
  unfolding deleteOldFiles_def by (induction metas arbitrary: fs) auto

lemma deleteOldFiles_gone: "p \<in> sm_filePath ` set metas \<Longrightarrow> deleteOldFiles metas fs p = None"
proof (induction metas arbitrary: fs)
  case (Cons m metas)
  then show ?case
    using deleteOldFiles_other [of p metas "fs(sm_filePath m := None)"]
    by (cases "p \<in> sm_filePath ` set metas") (auto simp: deleteOldFiles_def)
qed simp

lemma table_file_delete:
  assumes "table_file env cfg fs m es" "\<forall>x\<in>set metas. sm_fileNumber x < sm_fileNumber m \<and>
    sm_filePath x = sst_path (cf_dataDir cfg) (sm_fileNumber x)"
  shows "table_file env cfg (deleteOldFiles metas fs) m es"
proof -
  obtain n now index bloom where t: "m = table_meta n now es index bloom (sst_path (cf_dataDir cfg) n)"
    "fs (sst_path (cf_dataDir cfg) n) = Some (table_bytes n now es index bloom)"
    "table_ok n now es \<and> table_parts es index bloom \<and> (\<forall>e\<in>set es. readable env e)"
    using assms(1) by (auto simp: table_file_def)
  have "sst_path (cf_dataDir cfg) n \<notin> sm_filePath ` set metas"
    using assms(2) t(1) by (auto simp: table_meta_def)
  then show ?thesis using t deleteOldFiles_other unfolding table_file_def by metis
qed

lemma delete_phase:
  fixes c s d r
  assumes "compact_inv env clock number metas tables (c, s, d)" "cm_phase c = TablesRemoved ms r"
    "compact_fits env clock number (cm_config c) metas tables"
  defines "d' \<equiv> d\<lparr>dk_files := deleteOldFiles metas (dk_files d)\<rparr>"
  obtains c' where "compact_step env clock now (c, s, d) = (c', s, d')"
    "compact_inv env clock number metas tables (c', s, d')" "cm_config c' = cm_config c"
    "cm_phase c' = (case r of None \<Rightarrow> NoCompaction | Some (m, n) \<Rightarrow> OldDeleted metas m)"
proof (cases r)
  case None
  then show thesis
    using assms by (intro that [of "fst (compact_step env clock now (c, s, d))"])
      (auto simp: compact_step_def compact_inv_def Let_def updateStats_def disk_holds_def)
next
  case (Some p)
  obtain m n where r: "r = Some (m, n)" using Some by (cases p) auto
  have tf: "table_file env (cm_config c) (dk_files d) m (compacted clock tables)" "sm_fileNumber m = number" "ms = metas"
    using assms(1,2) r by (auto simp: compact_inv_def disk_holds_def Let_def split: if_splits)
  have "table_file env (cm_config c) (deleteOldFiles metas (dk_files d)) m (compacted clock tables)"
    using assms(3) tf(2) by (intro table_file_delete [OF tf(1)]) (simp add: compact_fits_def)
  then show thesis
    using assms r tf by (intro that [of "fst (compact_step env clock now (c, s, d))"])
      (auto simp: compact_step_def compact_inv_def Let_def updateStats_def disk_holds_def)
qed

lemma close_phase:
  fixes c s d
  assumes "compact_inv env clock number metas tables (c, s, d)" "cm_phase c = OldDeleted ms m"
  defines "s' \<equiv> s\<lparr>st_sstables := map (\<lambda>(meta, r). (meta, reader_close r)) (st_sstables s)\<rparr>"
  shows "compact_step env clock now (c, s, d) = (c\<lparr>cm_phase := Swapping m []\<rparr>, s', d)"
    and "compact_inv env clock number metas tables (c\<lparr>cm_phase := Swapping m []\<rparr>, s', d)"
proof -
  have "map fst (st_sstables s) = metas" "ms = metas"
    using assms(1,2) by (auto simp: compact_inv_def Let_def readers_of_def)
  then have all: "sm_fileNumber (fst t) \<in> set (map sm_fileNumber ms)" if "t \<in> set (st_sstables s)" for t
    using that by force
  have "close_compacted (map sm_fileNumber ms) (st_sstables s) =
      (map (\<lambda>(meta, r). (meta, reader_close r)) (st_sstables s), [])"
    using all by (fastforce simp: close_compacted_def filter_empty_conv)
  then show "compact_step env clock now (c, s, d) = (c\<lparr>cm_phase := Swapping m []\<rparr>, s', d)"
    by (simp add: compact_step_def assms(2) s'_def)
  show "compact_inv env clock number metas tables (c\<lparr>cm_phase := Swapping m []\<rparr>, s', d)"
    using assms by (auto simp: compact_inv_def Let_def reader_close_def readers_of_def)
qed

lemma open_phase:
  assumes "compact_inv env clock number metas tables (c, s, d)" "cm_phase c = Swapping m kept"
    "2147483647 \<le> env_limit env"
  obtains ts where "compact_step env clock now (c, s, d) = (c\<lparr>cm_phase := NoCompaction\<rparr>, s\<lparr>st_sstables := ts\<rparr>, d)"
    "compact_inv env clock number metas tables (c\<lparr>cm_phase := NoCompaction\<rparr>, s\<lparr>st_sstables := ts\<rparr>, d)"
proof -
  have inv: "kept = []" "table_file env (cm_config c) (dk_files d) m (compacted clock tables)"
    "mf_sstables (mf_state (st_manifest s)) = [m]" "compacted clock tables \<noteq> []"
    using assms(1,2) by (auto simp: compact_inv_def disk_holds_def Let_def)
  obtain r where r: "openFile env (dk_files d) (sm_filePath m) = Inr r" "table_open env (m, r) (compacted clock tables)"
    by (rule table_file_open [OF inv(2) assms(3)])
  show thesis
    using assms(1,2) r inv
    by (intro that [of "[(m, r)]"])
      (auto simp: compact_step_def compact_inv_def Let_def swap_tables_def readers_of_def tables_open_def)
qed

section \<open>Whole compactions\<close>

fun steps_left :: "compact_phase \<Rightarrow> nat" where
  "steps_left (Selected ms) = 7"
| "steps_left (Merged ms w) = 6"
| "steps_left (TableBuilt ms m n) = 5"
| "steps_left (TableAdded ms m n) = 4"
| "steps_left (TablesRemoved ms r) = 3"
| "steps_left (OldDeleted ms m) = 2"
| "steps_left (Swapping m kept) = 1"
| "steps_left NoCompaction = 0"

lemma steps_left_0 [simp]: "steps_left ph = 0 \<longleftrightarrow> ph = NoCompaction"
  by (cases ph) simp_all

text \<open>A compaction touches the tables and the manifest only.\<close>

definition same_memory :: "store \<Rightarrow> store \<Rightarrow> bool" where
  "same_memory s s' \<longleftrightarrow> s' = s\<lparr>st_manifest := st_manifest s', st_sstables := st_sstables s'\<rparr>"

lemma same_memory_simps:
  assumes "same_memory s s'"
  shows "st_active s' = st_active s" "st_immutable s' = st_immutable s" "st_wal s' = st_wal s"
    "st_flush s' = st_flush s" "st_sstConfig s' = st_sstConfig s" "st_initialized s' = st_initialized s"
    "memory_layers s' = memory_layers s"
  using arg_cong [OF assms [unfolded same_memory_def], of st_active]
    arg_cong [OF assms [unfolded same_memory_def], of st_immutable]
    arg_cong [OF assms [unfolded same_memory_def], of st_wal]
    arg_cong [OF assms [unfolded same_memory_def], of st_flush]
    arg_cong [OF assms [unfolded same_memory_def], of st_sstConfig]
    arg_cong [OF assms [unfolded same_memory_def], of st_initialized]
  by (simp_all add: memory_layers_def)

lemma same_memory_update [simp]:
  "same_memory s s" "same_memory s (s\<lparr>st_manifest := m\<rparr>)" "same_memory s (s\<lparr>st_sstables := ts\<rparr>)"
  by (simp_all add: same_memory_def)

lemma same_memory_trans: "same_memory a b \<Longrightarrow> same_memory b c \<Longrightarrow> same_memory a c"
  by (cases a; cases b; cases c) (simp add: same_memory_def)

lemma compact_step_inv:
  assumes "compact_inv env clock number metas tables (c, s, d)"
    "compact_fits env clock number (cm_config c) metas tables" "now \<le> 2 ^ 53"
    "compact_step env clock now (c, s, d) = (c', s', d')"
  shows "compact_inv env clock number metas tables (c', s', d') \<and> cm_config c' = cm_config c \<and>
    same_memory s s' \<and> dk_logs d' = dk_logs d \<and> steps_left (cm_phase c') \<le> steps_left (cm_phase c) - 1 \<and>
    (compacted clock tables \<noteq> [] \<longrightarrow> steps_left (cm_phase c') = steps_left (cm_phase c) - 1)"
proof (cases "cm_phase c")
  case NoCompaction
  then show ?thesis using assms by (simp add: compact_step_def)
next
  case (Selected ms)
  obtain w where "compact_step env clock now (c, s, d) = (c\<lparr>cm_phase := Merged metas w\<rparr>, s, d)"
    "compact_inv env clock number metas tables (c\<lparr>cm_phase := Merged metas w\<rparr>, s, d)"
    by (rule merge_phase [OF assms(1) Selected assms(2)])
  then show ?thesis using assms(4) Selected by auto
next
  case (Merged ms w)
  show ?thesis
  proof (cases "compacted clock tables = []")
    case True
    obtain mf where "compact_step env clock now (c, s, d) = (c\<lparr>cm_phase := TablesRemoved metas None\<rparr>,
      s\<lparr>st_manifest := mf\<rparr>, d\<lparr>dk_manifest := manifest_save mf\<rparr>)"
    "compact_inv env clock number metas tables (c\<lparr>cm_phase := TablesRemoved metas None\<rparr>,
      s\<lparr>st_manifest := mf\<rparr>, d\<lparr>dk_manifest := manifest_save mf\<rparr>)"
      by (rule empty_phase [OF assms(1) Merged True])
    then show ?thesis using assms(4) Merged True by auto
  next
    case False
    obtain m n e where "compact_step env clock now (c, s, d) = (c\<lparr>cm_phase := TableBuilt metas m n\<rparr>, s, e)"
      "compact_inv env clock number metas tables (c\<lparr>cm_phase := TableBuilt metas m n\<rparr>, s, e)"
      "dk_logs e = dk_logs d"
      by (rule build_phase [OF assms(1) Merged assms(2) False assms(3)])
    then show ?thesis using assms(4) Merged by auto
  qed
next
  case (TableBuilt ms m n)
  obtain mf where "compact_step env clock now (c, s, d) = (c\<lparr>cm_phase := TableAdded metas m n\<rparr>,
      s\<lparr>st_manifest := mf\<rparr>, d\<lparr>dk_manifest := manifest_save mf\<rparr>)"
    "compact_inv env clock number metas tables (c\<lparr>cm_phase := TableAdded metas m n\<rparr>,
      s\<lparr>st_manifest := mf\<rparr>, d\<lparr>dk_manifest := manifest_save mf\<rparr>)"
    by (rule add_phase [OF assms(1) TableBuilt])
  then show ?thesis using assms(4) TableBuilt by auto
next
  case (TableAdded ms m n)
  obtain mf where "compact_step env clock now (c, s, d) = (c\<lparr>cm_phase := TablesRemoved metas (Some (m, n))\<rparr>,
      s\<lparr>st_manifest := mf\<rparr>, d\<lparr>dk_manifest := manifest_save mf\<rparr>)"
    "compact_inv env clock number metas tables (c\<lparr>cm_phase := TablesRemoved metas (Some (m, n))\<rparr>,
      s\<lparr>st_manifest := mf\<rparr>, d\<lparr>dk_manifest := manifest_save mf\<rparr>)"
    by (rule remove_phase [OF assms(1) TableAdded assms(2)])
  then show ?thesis using assms(4) TableAdded by auto
next
  case (TablesRemoved ms r)
  obtain c1 where "compact_step env clock now (c, s, d) = (c1, s, d\<lparr>dk_files := deleteOldFiles metas (dk_files d)\<rparr>)"
    "compact_inv env clock number metas tables (c1, s, d\<lparr>dk_files := deleteOldFiles metas (dk_files d)\<rparr>)"
    "cm_config c1 = cm_config c" "cm_phase c1 = (case r of None \<Rightarrow> NoCompaction | Some (m, n) \<Rightarrow> OldDeleted metas m)"
    by (rule delete_phase [OF assms(1) TablesRemoved assms(2)])
  moreover have "r = None \<longrightarrow> compacted clock tables = []"
    using assms(1) TablesRemoved by (auto simp: compact_inv_def Let_def)
  ultimately show ?thesis using assms(4) TablesRemoved by (auto split: option.splits)
next
  case (OldDeleted ms m)
  show ?thesis
    using close_phase(1) [OF assms(1) OldDeleted, of now] close_phase(2) [OF assms(1) OldDeleted] assms(4) OldDeleted by auto
next
  case (Swapping m kept)
  have lim: "2147483647 \<le> env_limit env" using assms(2) by (simp add: compact_fits_def)
  obtain ts where "compact_step env clock now (c, s, d) = (c\<lparr>cm_phase := NoCompaction\<rparr>, s\<lparr>st_sstables := ts\<rparr>, d)"
    "compact_inv env clock number metas tables (c\<lparr>cm_phase := NoCompaction\<rparr>, s\<lparr>st_sstables := ts\<rparr>, d)"
    by (rule open_phase [OF assms(1) Swapping lim])
  then show ?thesis using assms(4) Swapping by auto
qed

lemma compact_run_inv:
  assumes "compact_inv env clock number metas tables (c, s, d)"
    "compact_fits env clock number (cm_config c) metas tables" "\<forall>now\<in>set nows. now \<le> 2 ^ 53"
    "compact_run env clock nows (c, s, d) = (c', s', d')"
  shows "compact_inv env clock number metas tables (c', s', d') \<and> cm_config c' = cm_config c \<and>
    same_memory s s' \<and> dk_logs d' = dk_logs d \<and> steps_left (cm_phase c') \<le> steps_left (cm_phase c) - length nows \<and>
    (compacted clock tables \<noteq> [] \<longrightarrow> steps_left (cm_phase c') = steps_left (cm_phase c) - length nows)"
  using assms
proof (induction nows arbitrary: c s d)
  case Nil
  then show ?case by (simp add: compact_run_def)
next
  case (Cons now nows)
  obtain c1 s1 d1 where step: "compact_step env clock now (c, s, d) = (c1, s1, d1)" by (metis prod_cases3)
  have now: "now \<le> 2 ^ 53" using Cons.prems(3) by simp
  note one = compact_step_inv [OF Cons.prems(1,2) now step]
  have "compact_run env clock nows (c1, s1, d1) = (c', s', d')"
    using Cons.prems(4) step by (simp add: compact_run_def)
  then have rest: "compact_inv env clock number metas tables (c', s', d') \<and> cm_config c' = cm_config c1 \<and>
    same_memory s1 s' \<and> dk_logs d' = dk_logs d1 \<and> steps_left (cm_phase c') \<le> steps_left (cm_phase c1) - length nows \<and>
    (compacted clock tables \<noteq> [] \<longrightarrow> steps_left (cm_phase c') = steps_left (cm_phase c1) - length nows)"
    using one Cons.prems(2,3) by (intro Cons.IH) simp_all
  have "same_memory s s'" using one rest same_memory_trans [of s s1 s'] by blast
  moreover have "steps_left (cm_phase c') \<le> steps_left (cm_phase c) - length (now # nows)"
    "compacted clock tables \<noteq> [] \<longrightarrow> steps_left (cm_phase c') = steps_left (cm_phase c) - length (now # nows)"
    using one rest by auto
  ultimately show ?case using one rest by (simp only:)
qed

text \<open>Where a compaction starts: the tables of the manifest are those of the engine.\<close>

definition tables_listed :: "store \<Rightarrow> bool" where
  "tables_listed s \<longleftrightarrow>
     (case st_flush s of
        Recorded meta \<Rightarrow> mf_sstables (mf_state (st_manifest s)) = meta # map fst (st_sstables s)
      | _ \<Rightarrow> mf_sstables (mf_state (st_manifest s)) = map fst (st_sstables s))"

text \<open>The sizes of the merged table and the times fit the format.\<close>

definition merge_fits :: "(nat \<Rightarrow> nat) \<Rightarrow> store \<Rightarrow> sst_entry list list \<Rightarrow> bool" where
  "merge_fits clock s tables \<longleftrightarrow> mf_nextFileNumber (mf_state (st_manifest s)) < 4294967296 \<and> (\<forall>i. clock i \<le> 2 ^ 53) \<and>
     28 * length (compacted clock tables) < 4294967296 \<and> length (data_bytes (compacted clock tables)) \<le> 2 ^ 52"

lemma table_file_path: "table_file env cfg fs m es \<Longrightarrow> sm_filePath m = sst_path (cf_dataDir cfg) (sm_fileNumber m)"
  by (auto simp: table_file_def table_meta_def)

lemma compaction_begin:
  assumes "store_inv env s d tables" "\<forall>meta. st_flush s \<noteq> Recorded meta" "tables_listed s" "merge_fits clock s tables"
    "cm_phase c = NoCompaction" "cm_config c = st_sstConfig s" "2 \<le> length (st_sstables s)"
  obtains "doCompaction (st_manifest s) c = c\<lparr>cm_phase := Selected (map fst (st_sstables s))\<rparr>"
    "compact_inv env clock (mf_nextFileNumber (mf_state (st_manifest s))) (map fst (st_sstables s)) tables
       (c\<lparr>cm_phase := Selected (map fst (st_sstables s))\<rparr>, s, d)"
    "compact_fits env clock (mf_nextFileNumber (mf_state (st_manifest s))) (cm_config c) (map fst (st_sstables s)) tables"
proof
  let ?metas = "map fst (st_sstables s)"
  have listed: "mf_sstables (mf_state (st_manifest s)) = ?metas" using assms(2,3) by (auto simp: tables_listed_def split: flush_phase.splits)
  have "disk_tables s tables = tables" using assms(2) by (auto simp: disk_tables_def split: flush_phase.splits option.splits)
  then have inv: "mf_loaded (st_manifest s)" "manifest_inv (mf_state (st_manifest s))" "tables_open env (st_sstables s) tables"
    "2147483647 \<le> env_limit env" "cf_falsePositiveRate (st_sstConfig s) < 1"
    "list_all2 (table_file env (st_sstConfig s) (dk_files d)) ?metas tables"
    using assms(1) listed by (simp_all add: store_inv_parts)
  have saved: "dk_manifest d = manifest_save (st_manifest s)"
    using assms(1,7) listed by (auto simp: store_inv_parts)
  show "doCompaction (st_manifest s) c = c\<lparr>cm_phase := Selected ?metas\<rparr>"
    using assms(5,7) inv(1) listed
    by (simp add: doCompaction_def isCompacting_def getState_def ensureLoaded_def)
  show "compact_inv env clock (mf_nextFileNumber (mf_state (st_manifest s))) ?metas tables
       (c\<lparr>cm_phase := Selected ?metas\<rparr>, s, d)"
    using inv saved listed assms(6)
    by (auto simp: compact_inv_def Let_def readers_of_def intro: disk_holds_save)
  have "\<forall>x\<in>set ?metas. sm_fileNumber x < mf_nextFileNumber (mf_state (st_manifest s))"
    using inv(2) listed by (simp add: manifest_inv_def)
  moreover have "(\<forall>x\<in>set ?metas. sm_filePath x = sst_path (cf_dataDir (st_sstConfig s)) (sm_fileNumber x)) \<and>
      (\<forall>es\<in>set tables. \<forall>e\<in>set es. readable env e)"
    using inv(6)
  proof (induction rule: list_all2_induct)
    case (Cons m metas es tables)
    then show ?case using table_file_path [OF Cons.hyps(1)] by (auto simp: table_file_def)
  qed simp
  ultimately show "compact_fits env clock (mf_nextFileNumber (mf_state (st_manifest s))) (cm_config c) ?metas tables"
    using inv(4,5) assms(4,6) by (auto simp: compact_fits_def merge_fits_def)
qed

lemma phase_view:
  assumes "new = compacted clock tables"
  shows "view (ls @ map table_layer (phase_tables new tables ph)) = view (ls @ map table_layer tables)"
proof (induction ls)
  case Nil
  have empty: "view [] = view (map table_layer tables)" if "new = []"
    using compacted_single [of clock tables] that assms by (simp add: table_layer_def [abs_def])
  have "view (map table_layer (phase_tables new tables ph)) = view (map table_layer tables)"
    using empty compacted_single [of clock tables] compacted_above [of clock tables] assms
    by (cases "(new, tables, ph)" rule: phase_tables.cases) auto
  then show ?case by simp
next
  case (Cons l ls)
  show ?case using view_Cons_cong [OF Cons.IH, of l] by simp
qed

text \<open>
  After the last step, in a store that is not flushing and whose memory and log are those of a
  good store.
\<close>

lemma compact_done:
  assumes "compact_inv env clock number metas tables (c, s, d)" "cm_phase c = NoCompaction"
    "compacted clock tables \<noteq> []" "cm_config c = st_sstConfig s" "st_flush s = NoFlush" "st_immutable s = None"
    "store_inv env s0 d0 tables0" "st_active s = st_active s0" "st_wal s = st_wal s0"
    "st_sstConfig s = st_sstConfig s0" "st_initialized s = st_initialized s0" "dk_logs d = dk_logs d0"
  shows "store_inv env s d [compacted clock tables] \<and> tables_listed s \<and>
    tables_open env (st_sstables s) [compacted clock tables]"
proof -
  let ?st = "mf_state (st_manifest s)" and ?new = "compacted clock tables"
  have t: "tables_open env (st_sstables s) [?new]" "map fst (st_sstables s) = mf_sstables ?st"
    "mf_loaded (st_manifest s)" "manifest_inv ?st"
    "dk_manifest d = manifest_save (st_manifest s) \<or> dk_manifest d = NoManifest \<and> mf_sstables ?st = []"
    "list_all2 (table_file env (st_sstConfig s) (dk_files d)) (mf_sstables ?st) [?new]"
    using assms(1-4) by (auto simp: compact_inv_def readers_of_def Let_def disk_holds_def manifest_save_def)
  have "store_inv env s d [?new]"
    using assms(5-12) t by (simp add: store_inv_parts disk_tables_def flush_ok_def)
  then show ?thesis using t assms(5) by (simp add: tables_listed_def)
qed

text \<open>A compaction that runs to its end.\<close>

lemma compaction_complete:
  assumes "store_inv env s d tables" "st_flush s = NoFlush" "tables_listed s" "merge_fits clock s tables"
    "cm_phase c = NoCompaction" "cm_config c = st_sstConfig s" "2 \<le> length (st_sstables s)"
    "\<forall>now\<in>set nows. now \<le> 2 ^ 53" "7 \<le> length nows" "st_immutable s = None"
    "compact_run env clock nows (doCompaction (st_manifest s) c, s, d) = (c', s', d')"
  obtains tables' where "cm_phase c' = NoCompaction" "same_memory s s'" "tables_open env (st_sstables s') tables'"
    "store_view s' tables' = store_view s tables"
    "compacted clock tables \<noteq> [] \<Longrightarrow> store_inv env s' d' tables' \<and> tables_listed s' \<and> tables' = [compacted clock tables]"
    "compacted clock tables = [] \<Longrightarrow> mf_sstables (mf_state (st_manifest s')) = [] \<and> map fst (st_sstables s') = map fst (st_sstables s)"
proof -
  obtain start: "doCompaction (st_manifest s) c = c\<lparr>cm_phase := Selected (map fst (st_sstables s))\<rparr>"
    and inv: "compact_inv env clock (mf_nextFileNumber (mf_state (st_manifest s))) (map fst (st_sstables s)) tables
       (c\<lparr>cm_phase := Selected (map fst (st_sstables s))\<rparr>, s, d)"
    and fits: "compact_fits env clock (mf_nextFileNumber (mf_state (st_manifest s))) (cm_config c) (map fst (st_sstables s)) tables"
    by (rule compaction_begin [OF assms(1) _ assms(3-7)]) (simp add: assms(2))
  let ?metas = "map fst (st_sstables s)" and ?new = "compacted clock tables"
  have run: "compact_run env clock nows (c\<lparr>cm_phase := Selected ?metas\<rparr>, s, d) = (c', s', d')"
    using assms(11) unfolding start .
  have "compact_fits env clock (mf_nextFileNumber (mf_state (st_manifest s)))
      (cm_config (c\<lparr>cm_phase := Selected ?metas\<rparr>)) ?metas tables"
    using fits by simp
  note run' = compact_run_inv [OF inv this assms(8) run]
  have r: "compact_inv env clock (mf_nextFileNumber (mf_state (st_manifest s))) ?metas tables (c', s', d')"
    "cm_config c' = cm_config c" "same_memory s s'" "dk_logs d' = dk_logs d"
    using run' by simp_all
  have "steps_left (cm_phase c') = 0" using run' assms(9) by simp
  then have r5: "cm_phase c' = NoCompaction" by simp
  note same = same_memory_simps [OF r(3)]
  show thesis
  proof (cases "?new = []")
    case True
    have "tables_open env (st_sstables s') tables" "mf_sstables (mf_state (st_manifest s')) = []"
      "map fst (st_sstables s') = ?metas"
      using r(1) r5 True by (simp_all add: compact_inv_def readers_of_def)
    then show thesis using r(3) r5 True same by (intro that [of tables]) (simp_all add: store_view_def)
  next
    case False
    have flush: "st_flush s' = NoFlush" "st_immutable s' = None" using assms(2,10) same by simp_all
    have memory: "store_inv env s d tables" "st_active s' = st_active s" "st_wal s' = st_wal s"
      "st_sstConfig s' = st_sstConfig s" "st_initialized s' = st_initialized s"
      using assms(1) same by simp_all
    have cfg: "cm_config c' = st_sstConfig s'" using r(2) assms(6) same by simp
    have "store_inv env s' d' [?new] \<and> tables_listed s' \<and> tables_open env (st_sstables s') [?new]"
      by (rule compact_done [OF r(1) r5 False cfg flush memory r(4)])
    moreover have "store_view s' [?new] = store_view s tables"
      using phase_view [OF refl, of "memory_layers s" clock tables NoCompaction] False same
      by (simp add: store_view_def)
    ultimately show thesis using r(3) r5 False by (intro that [of "[?new]"]) simp_all
  qed
qed

section \<open>Crashes during a compaction\<close>

lemma compact_crash:
  assumes "compact_inv env clock number metas tables (c, s, d)" "cm_config c = st_sstConfig s"
    "store_inv env s0 d0 tables0" "\<forall>e\<in>set (wal_replay (dk_logs d)). storable_body (log_body.truncate e)"
    "st_wal s = st_wal s0" "dk_logs d = dk_logs d0" "crash_image s us d d'" "now \<le> 2 ^ 53"
  obtains s2 d2 tabs where "store_initialize env now (new_store policy limit (st_sstConfig s) t) d' = Inr (s2, d2)"
    "st_initialized s2" "memory_ok s2" "tables_open env (st_sstables s2) tabs"
    "store_view s2 tabs = fold view_effect us (view (replay_layer (dk_logs d) # map table_layer tables))"
proof -
  define tabs where "tabs = phase_tables (compacted clock tables) tables (cm_phase c)"
  have holds: "disk_holds env (st_sstConfig s) d (mf_state (st_manifest s)) tabs"
    using assms(1,2) by (auto simp: compact_inv_def Let_def tabs_def)
  obtain old es where ready: "log_ready (st_wal s) (dk_logs d) old es"
    using store_inv_log(1) [OF assms(3)] assms(5,6) by (auto simp: log_inv_def)
  have lim: "2147483647 \<le> env_limit env" using assms(3) by (simp add: store_inv_def)
  have "view (replay_layer (dk_logs d) # map table_layer tabs) = view (replay_layer (dk_logs d) # map table_layer tables)"
    using phase_view [OF refl, of "[replay_layer (dk_logs d)]" clock tables "cm_phase c"] by (simp add: tabs_def)
  then show thesis
    using crash_restart [OF holds assms(7) ready assms(4) lim assms(8)] that by metis
qed

lemma compaction_crash:
  assumes "durable env s d tables" "st_flush s = NoFlush" "tables_listed s" "merge_fits clock s tables"
    "cm_phase c = NoCompaction" "cm_config c = st_sstConfig s" "2 \<le> length (st_sstables s)"
    "\<forall>now\<in>set nows. now \<le> 2 ^ 53"
    "compact_run env clock nows (doCompaction (st_manifest s) c, s, d) = (c', s', d')"
    "crash_image s' us d' d''" "now \<le> 2 ^ 53"
  obtains s2 d2 tabs where "store_initialize env now (new_store policy limit (st_sstConfig s) t) d'' = Inr (s2, d2)"
    "st_initialized s2" "memory_ok s2" "tables_open env (st_sstables s2) tabs"
    "store_view s2 tabs = fold view_effect us (store_view s tables)"
proof -
  let ?metas = "map fst (st_sstables s)" and ?number = "mf_nextFileNumber (mf_state (st_manifest s))"
  have sinv: "store_inv env s d tables" using assms(1) by (simp add: durable_def)
  obtain start: "doCompaction (st_manifest s) c = c\<lparr>cm_phase := Selected ?metas\<rparr>"
    and inv: "compact_inv env clock ?number ?metas tables (c\<lparr>cm_phase := Selected ?metas\<rparr>, s, d)"
    and fits: "compact_fits env clock ?number (cm_config c) ?metas tables"
    by (rule compaction_begin [OF sinv _ assms(3-7)]) (simp add: assms(2))
  have run: "compact_run env clock nows (c\<lparr>cm_phase := Selected ?metas\<rparr>, s, d) = (c', s', d')"
    using assms(9) unfolding start .
  have "compact_fits env clock ?number (cm_config (c\<lparr>cm_phase := Selected ?metas\<rparr>)) ?metas tables"
    using fits by simp
  note r = compact_run_inv [OF inv this assms(8) run]
  then have same: "st_wal s' = st_wal s" "dk_logs d' = dk_logs d"
    and cfg: "st_sstConfig s' = st_sstConfig s" "cm_config c' = st_sstConfig s'"
    and inv': "compact_inv env clock ?number ?metas tables (c', s', d')"
    using same_memory_simps assms(6) by auto
  have replay: "\<forall>e\<in>set (wal_replay (dk_logs d')). storable_body (log_body.truncate e)"
    using assms(1) same(2) by (simp add: durable_def)
  have "disk_tables s tables = tables" using assms(2) by (simp add: disk_tables_def)
  then have "view (replay_layer (dk_logs d') # map table_layer tables) = store_view s tables"
    using durable_view [OF assms(1)] same(2) by simp
  then show thesis
    using compact_crash [OF inv' cfg(2) sinv replay same assms(10,11)] that cfg(1) by metis
qed

section \<open>Reads while the readers are swapped\<close>

lemma search_closed:
  assumes "ts \<noteq> []" "\<forall>t\<in>set ts. rd_state (snd t) = None"
  shows "search_tables env ts key = Inl ReaderNotOpen"
  using assms by (cases ts) (auto simp: isInRange_def ensureOpen_def)

lemma compaction_closes:
  assumes "store_inv env s d tables" "st_flush s = NoFlush" "tables_listed s" "merge_fits clock s tables"
    "cm_phase c = NoCompaction" "cm_config c = st_sstConfig s" "2 \<le> length (st_sstables s)"
    "\<forall>now\<in>set nows. now \<le> 2 ^ 53" "length nows = 6" "compacted clock tables \<noteq> []"
    "compact_run env clock nows (doCompaction (st_manifest s) c, s, d) = (c', s', d')"
    "first_hit (memory_layers s) key = None"
  shows "store_get env key s' = Inl ReaderNotOpen"
proof -
  let ?metas = "map fst (st_sstables s)" and ?number = "mf_nextFileNumber (mf_state (st_manifest s))"
  obtain start: "doCompaction (st_manifest s) c = c\<lparr>cm_phase := Selected ?metas\<rparr>"
    and inv: "compact_inv env clock ?number ?metas tables (c\<lparr>cm_phase := Selected ?metas\<rparr>, s, d)"
    and fits: "compact_fits env clock ?number (cm_config c) ?metas tables"
    by (rule compaction_begin [OF assms(1) _ assms(3-7)]) (simp add: assms(2))
  have run: "compact_run env clock nows (c\<lparr>cm_phase := Selected ?metas\<rparr>, s, d) = (c', s', d')"
    using assms(11) unfolding start .
  have "compact_fits env clock ?number (cm_config (c\<lparr>cm_phase := Selected ?metas\<rparr>)) ?metas tables"
    using fits by simp
  note r = compact_run_inv [OF inv this assms(8) run]
  have "steps_left (cm_phase c') = 1" using r assms(9,10) by simp
  then obtain m kept where "cm_phase c' = Swapping m kept" by (cases "cm_phase c'") simp_all
  then have closed: "map fst (st_sstables s') = ?metas" "\<forall>t\<in>set (st_sstables s'). rd_state (snd t) = None"
    using r by (auto simp: compact_inv_def Let_def)
  have "length (st_sstables s') = length (st_sstables s)" using arg_cong [OF closed(1), of length] by simp
  then have "st_sstables s' \<noteq> []" using assms(7) by auto
  note search = search_closed [OF this closed(2)]
  have same: "st_active s' = st_active s" "st_immutable s' = st_immutable s" "st_initialized s'"
    using r same_memory_simps assms(1) by (auto simp: store_inv_def)
  show ?thesis
    using assms(12) search same
    by (auto simp: store_get_def ensureInitialized_def memory_layers_def mem_layer_def split: option.splits)
qed

end
