(* ===== verification/Compaction_Races.thy ===== *)
theory Compaction_Races
  imports Compaction_Proofs
begin

text \<open>
  A compaction next to a flush. The steps of the store keep the tables of the engine those of
  the manifest; but the manifest hands out the same file number to a flush and a compaction
  that run together, and the table that is built later replaces the other one's file.
\<close>

section \<open>The tables of the engine are those of the manifest\<close>

lemma maybeFlush_listed: "tables_listed (maybeFlush s) = tables_listed s"
  by (auto simp: maybeFlush_def triggerFlush_def tables_listed_def Let_def split: sum.splits flush_phase.splits)

lemma finish_write_listed: "tables_listed (finish_write now e s) = tables_listed s"
  unfolding finish_write_def maybeFlush_listed by (simp add: tables_listed_def split: flush_phase.split)

lemma finish_writes_listed: "tables_listed (fold (finish_write now) es s) = tables_listed s"
  by (induction es arbitrary: s) (simp_all add: finish_write_listed)

lemma set_wal_listed [simp]: "tables_listed (s\<lparr>st_wal := w\<rparr>) = tables_listed s"
  by (simp add: tables_listed_def split: flush_phase.split)

lemma store_step_listed:
  assumes "store_step env c acked c'" "store_inv env (fst c) (snd c) tables" "tables_listed (fst c)"
  shows "tables_listed (fst c')"
  using assms(1)
proof (cases rule: store_step.cases)
  case (step_write s body now d r s' d')
  then show ?thesis
    using assms(3) by (auto simp: store_write_def finish_write_listed split: sum.splits prod.splits)
next
  case (step_enqueue s body now s' trigger d)
  then show ?thesis
    using assms(3) by (auto simp: store_enqueue_def bind_res_eq_Inr split: prod.splits)
next
  case (step_commit s d err w logs now)
  then show ?thesis
    using assms(3) by (simp add: store_flushBatch_def finish_writes_listed)
next
  case (step_build s w now d)
  then show ?thesis
    using assms(3) by (auto simp: flush_step_def tables_listed_def split: prod.splits sum.splits)
next
  case (step_record s meta d now)
  obtain s' d' where c': "flush_step env now s d = (s', d')" by fastforce
  have inv: "store_inv env s d tables" "tables_listed s" using assms step_record by simp_all
  obtain mf where "addSSTable meta (st_manifest s) = Inr (mf, manifest_save mf)"
    "mf_sstables (mf_state mf) = meta # mf_sstables (mf_state (st_manifest s))"
    by (rule addSSTable_ok [of "st_manifest s" meta])
      (use inv(1) step_record(4) in \<open>auto simp: store_inv_parts flush_ok_def\<close>)
  then show ?thesis
    using inv(2) step_record by (simp add: flush_step_def tables_listed_def)
next
  case (step_open s meta d now)
  have inv: "store_inv env s d tables" "tables_listed s" using assms step_open by simp_all
  obtain m where m: "table_file env (st_sstConfig s) (dk_files d) meta (flush_entries m)"
    using inv(1) step_open(4) by (auto simp: store_inv_def flush_ok_def)
  have lim: "2147483647 \<le> env_limit env" using inv(1) by (simp add: store_inv_def)
  obtain r where "openFile env (dk_files d) (sm_filePath meta) = Inr r"
    by (rule table_file_open [OF m lim])
  then show ?thesis
    using inv(2) step_open by (simp add: flush_step_def tables_listed_def)
next
  case (step_checkpoint s now d err w logs)
  have l: "tables_listed (s1\<lparr>st_immutable := x, st_flush := NoFlush\<rparr>)" "tables_listed (s1\<lparr>st_flush := NoFlush\<rparr>)"
    if "tables_listed s1" "st_flush s1 = Opened" for s1 x
    using that by (simp_all add: tables_listed_def)
  have "tables_listed (fold (finish_write now) acked (s\<lparr>st_wal := w\<rparr>))"
    using assms(3) step_checkpoint(1) by (simp add: finish_writes_listed)
  moreover have "st_flush (fold (finish_write now) acked (s\<lparr>st_wal := w\<rparr>)) = Opened"
    using finish_writes_flushing [of "s\<lparr>st_wal := w\<rparr>" now acked] step_checkpoint(3) by simp
  ultimately show ?thesis
    using step_checkpoint l by (simp add: flush_step_def Let_def)
qed

section \<open>The same file number twice\<close>

lemma same_file:
  assumes "table_file env cfg fs m es" "table_file env cfg fs m' es'" "sm_fileNumber m = sm_fileNumber m'"
    "openFile env fs (sm_filePath m) = Inr r" "2147483647 \<le> env_limit env"
  shows "represents env r es'"
proof -
  have "sm_filePath m = sm_filePath m'" using assms(1-3) by (simp add: table_file_path)
  moreover obtain r' where "openFile env fs (sm_filePath m') = Inr r'" "table_open env (m', r') es'"
    by (rule table_file_open [OF assms(2,5)])
  ultimately show ?thesis using assms(4) by (simp add: table_open_def)
qed

text \<open>
  A flush has built its table and not yet recorded it; a compaction merges and builds. The two
  tables have the same number, and the file of the flush now holds the compacted entries.
\<close>

lemma compaction_overwrites:
  assumes "store_inv env s d tables" "st_flush s = Built meta" "tables_listed s" "merge_fits clock s tables"
    "cm_phase c = NoCompaction" "cm_config c = st_sstConfig s" "2 \<le> length (st_sstables s)"
    "t1 \<le> 2 ^ 53" "t2 \<le> 2 ^ 53" "compacted clock tables \<noteq> []"
    "compact_run env clock [t1, t2] (doCompaction (st_manifest s) c, s, d) = (c', s', d')"
  obtains m' n r where "s' = s" "dk_logs d' = dk_logs d" "cm_phase c' = TableBuilt (map fst (st_sstables s)) m' n"
    "sm_fileNumber m' = sm_fileNumber meta" "openFile env (dk_files d') (sm_filePath meta) = Inr r"
    "represents env r (compacted clock tables)"
proof -
  let ?metas = "map fst (st_sstables s)" and ?number = "mf_nextFileNumber (mf_state (st_manifest s))"
  let ?c = "c\<lparr>cm_phase := Selected ?metas\<rparr>"
  obtain start: "doCompaction (st_manifest s) c = ?c"
    and inv: "compact_inv env clock ?number ?metas tables (?c, s, d)"
    and fits: "compact_fits env clock ?number (cm_config c) ?metas tables"
    by (rule compaction_begin [OF assms(1) _ assms(3-7)]) (simp add: assms(2))
  have fits1: "compact_fits env clock ?number (cm_config ?c) ?metas tables" using fits by simp
  obtain w where w: "compact_step env clock t1 (?c, s, d) = (?c\<lparr>cm_phase := Merged ?metas w\<rparr>, s, d)"
    "compact_inv env clock ?number ?metas tables (?c\<lparr>cm_phase := Merged ?metas w\<rparr>, s, d)"
    by (rule merge_phase [OF inv _ fits1, of "?metas"]) simp_all
  have fits2: "compact_fits env clock ?number (cm_config (?c\<lparr>cm_phase := Merged ?metas w\<rparr>)) ?metas tables"
    using fits by simp
  obtain m n e where b: "compact_step env clock t2 (?c\<lparr>cm_phase := Merged ?metas w\<rparr>, s, d) =
      (?c\<lparr>cm_phase := Merged ?metas w, cm_phase := TableBuilt ?metas m n\<rparr>, s, e)"
    "compact_inv env clock ?number ?metas tables (?c\<lparr>cm_phase := Merged ?metas w, cm_phase := TableBuilt ?metas m n\<rparr>, s, e)"
    "dk_logs e = dk_logs d"
    by (rule build_phase [OF w(2) _ fits2 assms(10,9), of ?metas w]) simp_all
  have c': "s' = s" "d' = e" "cm_phase c' = TableBuilt ?metas m n"
    using assms(11) w(1) b(1) by (simp_all add: start compact_run_def)
  have built: "table_file env (cm_config c) (dk_files e) m (compacted clock tables)" "sm_fileNumber m = ?number"
    using b(2) by (simp_all add: compact_inv_def Let_def)
  have old: "sm_fileNumber meta = ?number" "sm_filePath meta = sst_path (cf_dataDir (cm_config c)) (sm_fileNumber meta)"
    using assms(1,2,6) by (auto simp: store_inv_def flush_ok_def dest: table_file_path)
  have path: "sm_filePath meta = sm_filePath m"
    using old built(2) table_file_path [OF built(1)] by simp
  have lim: "2147483647 \<le> env_limit env" using assms(1) by (simp add: store_inv_def)
  obtain r where "openFile env (dk_files e) (sm_filePath m) = Inr r" "table_open env (m, r) (compacted clock tables)"
    by (rule table_file_open [OF built(1) lim])
  then show thesis
    using c' b old(1) built(2) path by (intro that [of m n r]) (simp_all add: table_open_def)
qed

text \<open>
  The flush then records the table, opens it and drops the log: what it was to save is in
  no table, and a lookup answers as if the immutable memtable had never been there.
\<close>

lemma flush_lost:
  assumes "store_inv env s d tables" "st_flush s = Built meta" "openFile env (dk_files d') (sm_filePath meta) = Inr r"
    "represents env r (compacted clock tables)" "dk_logs d' = dk_logs d"
    "wal_pendingWrites (st_wal s) = []" "wal_currentLogFile (st_wal s) < log_name n3"
    "flush_step env n1 s d' = (s1, d1)" "flush_step env n2 s1 d1 = (s2, d2)" "flush_step env n3 s2 d2 = (s3, d3)"
  shows "store_get env key s3 = Inr (view (mem_layer (st_active s) # map table_layer tables) key)"
    "wal_replay (dk_logs d3) = []" "st_immutable s3 = None"
proof -
  have inv: "mf_loaded (st_manifest s)" "manifest_inv (mf_state (st_manifest s))"
    "mf_nextFileNumber (mf_state (st_manifest s)) \<le> sm_fileNumber meta" "st_initialized s"
    "tables_open env (st_sstables s) tables"
    using assms(1,2) by (auto simp: store_inv_parts flush_ok_def)
  obtain mf where mf: "addSSTable meta (st_manifest s) = Inr (mf, manifest_save mf)"
    by (rule addSSTable_ok [OF inv(1-3)])
  have s1: "s1 = s\<lparr>st_manifest := mf, st_flush := Recorded meta\<rparr>" "dk_files d1 = dk_files d'" "dk_logs d1 = dk_logs d"
    using assms(5,8) mf by (auto simp: flush_step_def assms(2))
  have s2: "s2 = s1\<lparr>st_sstables := (meta, r) # st_sstables s, st_flush := Opened\<rparr>" "dk_logs d2 = dk_logs d"
    using assms(3,9) s1 by (auto simp: flush_step_def)
  obtain err acked w logs where ck: "checkpoint (env_mem env) n3 (st_wal s) (dk_logs d) = (err, acked, w, logs)"
    by (metis prod_cases4)
  note r = checkpoint_replay [OF store_inv_log(1) [OF assms(1)] assms(6,7) ck]
  have s3: "s3 = s2\<lparr>st_wal := w, st_immutable := None, st_flush := NoFlush\<rparr>" "dk_logs d3 = logs"
    using assms(10) ck r s1(1) s2 by (auto simp: flush_step_def Let_def)
  show "wal_replay (dk_logs d3) = []" "st_immutable s3 = None" using r s3 by simp_all
  have "store_get env key s3 = Inr (store_view s3 (compacted clock tables # tables) key)"
  proof (rule store_get_represents)
    show "list_all2 (\<lambda>t es. represents env (snd t) es) (st_sstables s3) (compacted clock tables # tables)"
      using assms(4) tables_open_represents [OF inv(5)] by (simp add: s3 s2)
  qed (use inv(4) in \<open>simp add: s3 s2 s1\<close>)
  also have "store_view s3 (compacted clock tables # tables) = view (mem_layer (st_active s) # map table_layer tables)"
    using view_Cons_cong [OF compacted_above [of clock tables], of "mem_layer (st_active s)"]
    by (simp add: store_view_def memory_layers_def s3 s2 s1)
  finally show "store_get env key s3 = Inr (view (mem_layer (st_active s) # map table_layer tables) key)" .
qed

end
