(* ===== verification/Compaction_Writes.thy ===== *)
theory Compaction_Writes
  imports Compaction_Races
begin

text \<open>
  A compaction while the store is written to. Between two steps of the compaction any number
  of writes and batch commits may come, as long as none of them starts a flush. Each of them
  is compared with the same step of the store as it was before the compaction: the two differ
  in their tables and manifest, which a write does not touch.
\<close>

section \<open>A store with other tables\<close>

definition with_tables :: "(sst_meta \<times> sst_reader) list \<Rightarrow> manifest \<Rightarrow> store \<Rightarrow> store" where
  "with_tables ts m s = s\<lparr>st_sstables := ts, st_manifest := m\<rparr>"

definition with_files :: "files \<Rightarrow> manifest_disk \<Rightarrow> disk \<Rightarrow> disk" where
  "with_files fs md d = d\<lparr>dk_files := fs, dk_manifest := md\<rparr>"

lemma with_tables_simps [simp]:
  "st_active (with_tables ts m s) = st_active s" "st_immutable (with_tables ts m s) = st_immutable s"
  "st_wal (with_tables ts m s) = st_wal s" "st_flush (with_tables ts m s) = st_flush s"
  "st_sstConfig (with_tables ts m s) = st_sstConfig s" "st_initialized (with_tables ts m s) = st_initialized s"
  "st_sstables (with_tables ts m s) = ts" "st_manifest (with_tables ts m s) = m"
  "st_memTableSizeLimit (with_tables ts m s) = st_memTableSizeLimit s"
  "memory_layers (with_tables ts m s) = memory_layers s"
  "store_view (with_tables ts m s) tables = store_view s tables"
  "cautious refused (with_tables ts m s) = cautious refused s"
  by (simp_all add: with_tables_def memory_layers_def store_view_def cautious_def)

lemma with_files_simps [simp]:
  "dk_logs (with_files fs md d) = dk_logs d" "dk_files (with_files fs md d) = fs"
  "dk_manifest (with_files fs md d) = md"
  by (simp_all add: with_files_def)

lemma with_same [simp]:
  "with_tables (st_sstables s) (st_manifest s) s = s" "with_files (dk_files d) (dk_manifest d) d = d"
  by (simp_all add: with_tables_def with_files_def)

lemma with_tables_memory: "same_memory s s' \<Longrightarrow> with_tables ts m s' = with_tables ts m s"
  by (cases s; cases s') (simp add: with_tables_def same_memory_def)

lemma with_files_logs: "dk_logs d' = dk_logs d \<Longrightarrow> with_files fs md d' = with_files fs md d"
  by (cases d; cases d') (simp add: with_files_def)

section \<open>Writes do not look at the tables\<close>

lemma triggerFlush_with:
  assumes "mf_loaded (st_manifest s)" "mf_loaded m" "st_flush (triggerFlush s) = NoFlush"
  shows "triggerFlush (with_tables ts m s) = with_tables ts m (triggerFlush s) \<and>
    st_sstables (triggerFlush s) = st_sstables s \<and> st_manifest (triggerFlush s) = st_manifest s"
proof (cases "mt_getAllSorted (st_active s) = []")
  case True
  then show ?thesis
    using assms(1,2) by (simp add: triggerFlush_def Let_def getNextFileNumber_def ensureLoaded_def with_tables_def)
next
  case False
  let ?es = "map to_sst_entry (mt_getAllSorted (st_active s))"
  have "\<not> ordered_by se_key ?es"
  proof
    assume "ordered_by se_key ?es"
    then obtain w where "sw_add_all ?es (new_writer (mf_nextFileNumber (mf_state (st_manifest s))) (st_sstConfig s)) = Inr w"
      using writer_rejects_unsorted by blast
    then show False
      using assms(1,3) False by (simp add: triggerFlush_def Let_def getNextFileNumber_def ensureLoaded_def)
  qed
  then have "sw_add_all ?es (new_writer n cfg) = Inl KeysNotSorted" for n cfg
    using writer_rejects_unsorted by blast
  then show ?thesis
    using assms(1,2) False by (simp add: triggerFlush_def Let_def getNextFileNumber_def ensureLoaded_def with_tables_def)
qed

lemma maybeFlush_with:
  assumes "mf_loaded (st_manifest s)" "mf_loaded m" "st_flush (maybeFlush s) = NoFlush"
  shows "maybeFlush (with_tables ts m s) = with_tables ts m (maybeFlush s) \<and>
    st_sstables (maybeFlush s) = st_sstables s \<and> st_manifest (maybeFlush s) = st_manifest s"
  using assms triggerFlush_with [OF assms(1,2)] by (simp add: maybeFlush_def split: if_splits)

lemma with_tables_update:
  "with_tables ts m (s\<lparr>st_wal := w\<rparr>) = (with_tables ts m s)\<lparr>st_wal := w\<rparr>"
  "with_tables ts m (s\<lparr>st_active := a\<rparr>) = (with_tables ts m s)\<lparr>st_active := a\<rparr>"
  by (simp_all add: with_tables_def)

lemma finish_write_with:
  assumes "mf_loaded (st_manifest s)" "mf_loaded m" "st_flush (finish_write now e s) = NoFlush"
  shows "finish_write now e (with_tables ts m s) = with_tables ts m (finish_write now e s) \<and>
    st_sstables (finish_write now e s) = st_sstables s \<and> st_manifest (finish_write now e s) = st_manifest s"
  using maybeFlush_with [of "s\<lparr>st_active := write_memtable now e (st_active s)\<rparr>" m ts] assms
  by (simp add: finish_write_def with_tables_update)

lemma finish_writes_with:
  assumes "mf_loaded (st_manifest s)" "mf_loaded m" "st_flush (fold (finish_write now) es s) = NoFlush"
  shows "fold (finish_write now) es (with_tables ts m s) = with_tables ts m (fold (finish_write now) es s) \<and>
    st_sstables (fold (finish_write now) es s) = st_sstables s \<and>
    st_manifest (fold (finish_write now) es s) = st_manifest s"
  using assms
proof (induction es arbitrary: s)
  case (Cons e es)
  have "st_flush (finish_write now e s) = NoFlush"
    using Cons.prems(3) finish_writes_flushing [of "finish_write now e s" now es]
    by (cases "st_flush (finish_write now e s) = NoFlush") auto
  note one = finish_write_with [OF Cons.prems(1,2) this, of ts]
  then show ?case using Cons.IH [of "finish_write now e s"] Cons.prems by simp
qed simp

lemma with_files_set: "with_files fs md (d\<lparr>dk_logs := logs\<rparr>) = (with_files fs md d)\<lparr>dk_logs := logs\<rparr>"
  by (simp add: with_files_def)

text \<open>
  A step of the store with no flush before and none after it is also a step of the store with
  other tables, and leaves tables, manifest and files alone.
\<close>

lemma store_step_with:
  assumes "store_step env (s, d) acked (s', d')" "st_flush s = NoFlush" "st_flush s' = NoFlush" "st_initialized s"
    "mf_loaded (st_manifest s)" "mf_loaded m"
  shows "store_step env (with_tables ts m s, with_files fs md d) acked (with_tables ts m s', with_files fs md d') \<and>
    st_sstables s' = st_sstables s \<and> st_manifest s' = st_manifest s \<and>
    dk_files d' = dk_files d \<and> dk_manifest d' = dk_manifest d"
  using assms(1)
proof (cases rule: store_step.cases)
  case (step_write body now r)
  obtain r1 w logs new where a: "append_sync (env_mem env) now body (st_wal s) (dk_logs d) = (r1, w, logs, new)"
    by (metis prod_cases4)
  show ?thesis
  proof (cases r1)
    case (Inl err)
    then have c: "r = Inl err" "s' = s\<lparr>st_wal := w\<rparr>" "d' = d\<lparr>dk_logs := logs\<rparr>"
      using step_write(5) a assms(4) by (auto simp: store_write_def ensureInitialized_def)
    have "store_write (env_mem env) now body (with_tables ts m s) (with_files fs md d) =
        (r, with_tables ts m s', with_files fs md d')"
      using a Inl c assms(4) by (simp add: store_write_def ensureInitialized_def with_tables_update with_files_set)
    then show ?thesis
      using store_step.step_write [of "with_tables ts m s" body now env "with_files fs md d"] step_write c by simp
  next
    case (Inr u)
    then have c: "r = Inr ()" "s' = finish_write now body (s\<lparr>st_wal := w\<rparr>)" "d' = d\<lparr>dk_logs := logs\<rparr>"
      using step_write(5) a assms(4) by (auto simp: store_write_def ensureInitialized_def)
    note f = finish_write_with [of "s\<lparr>st_wal := w\<rparr>" m now body ts]
    have "store_write (env_mem env) now body (with_tables ts m s) (with_files fs md d) =
        (r, with_tables ts m s', with_files fs md d')"
      using a Inr c f assms(3-6)
      by (simp add: store_write_def ensureInitialized_def with_tables_update with_files_set)
    then show ?thesis
      using store_step.step_write [of "with_tables ts m s" body now env "with_files fs md d"] step_write c f assms(3,5,6) by simp
  qed
next
  case (step_enqueue body now trigger)
  obtain w t where "append_queue now body (st_wal s) = (w, t)" by fastforce
  then have c: "s' = s\<lparr>st_wal := w\<rparr>"
    "store_enqueue now body (with_tables ts m s) = Inr (with_tables ts m s', trigger)"
    using step_enqueue(5) assms(4) by (auto simp: store_enqueue_def ensureInitialized_def with_tables_update)
  then show ?thesis
    using store_step.step_enqueue [of "with_tables ts m s" body now _ _ env "with_files fs md d"] step_enqueue c by simp
next
  case (step_commit err w logs now)
  have c: "s' = fold (finish_write now) acked (s\<lparr>st_wal := w\<rparr>)" "d' = d\<lparr>dk_logs := logs\<rparr>"
    using step_commit by (simp_all add: store_flushBatch_def)
  note f = finish_writes_with [of "s\<lparr>st_wal := w\<rparr>" m now acked ts]
  have "store_flushBatch (env_mem env) now (with_tables ts m s) (with_files fs md d) =
      (with_tables ts m s', with_files fs md d')"
    using step_commit c f assms(3-6) by (simp add: store_flushBatch_def with_tables_update with_files_set)
  then show ?thesis
    using store_step.step_commit [of env "with_tables ts m s" "with_files fs md d" err acked w logs now] step_commit c f assms(3,5,6) by simp
qed (use assms(2) in simp_all)

section \<open>Steps of the whole system\<close>

text \<open>No flush runs and none has failed.\<close>

definition quiet :: "store \<Rightarrow> bool" where
  "quiet s \<longleftrightarrow> st_flush s = NoFlush \<and> st_immutable s = None"

text \<open>The sizes and times of a merge that begins now fit the format of the tables.\<close>

definition merge_ready :: "read_env \<Rightarrow> (nat \<Rightarrow> nat) \<Rightarrow> store \<Rightarrow> disk \<Rightarrow> bool" where
  "merge_ready env clock s d \<longleftrightarrow> (\<forall>tables. store_inv env s d tables \<longrightarrow> merge_fits clock s tables)"

text \<open>The merge has found an entry that is alive.\<close>

definition live_merge :: "compactor \<Rightarrow> bool" where
  "live_merge c \<longleftrightarrow> (case cm_phase c of Merged metas w \<Rightarrow> sw_entries w \<noteq> [] | _ \<Rightarrow> True)"

text \<open>
  The store, its background flush and the compactor, interleaved. A compaction starts when no
  flush runs, and a write that comes between its steps does not start one; the table numbers
  of a flush and a compaction that overlap would collide (see \<open>compaction_overwrites\<close>).
\<close>

inductive system_step :: "read_env \<Rightarrow> compactor \<times> store \<times> disk \<Rightarrow> log_entry list \<Rightarrow> compactor \<times> store \<times> disk \<Rightarrow> bool"
  for env where
  sys_store:
    "store_step env (s, d) acked (s', d') \<Longrightarrow> cm_phase c = NoCompaction \<or> quiet s' \<Longrightarrow>
     system_step env (c, s, d) acked (c, s', d')"
| sys_start:
    "cm_phase c = NoCompaction \<Longrightarrow> quiet s \<Longrightarrow>
     system_step env (c, s, d) [] (doCompaction (st_manifest s) c, s, d)"
| sys_compact:
    "(\<forall>metas. cm_phase c = Selected metas \<longrightarrow> merge_ready env clock s d) \<Longrightarrow> now \<le> 2 ^ 53 \<Longrightarrow>
     compact_step env clock now (c, s, d) = (c', s', d') \<Longrightarrow> live_merge c' \<Longrightarrow>
     system_step env (c, s, d) [] (c', s', d')"

inductive system_run :: "read_env \<Rightarrow> (store \<Rightarrow> bool) \<Rightarrow> compactor \<times> store \<times> disk \<Rightarrow> log_entry list \<Rightarrow>
    compactor \<times> store \<times> disk \<Rightarrow> bool"
  for env P where
  sys_refl: "system_run env P x [] x"
| sys_step: "system_run env P x es y \<Longrightarrow> P (fst (snd y)) \<Longrightarrow> system_step env y acked z \<Longrightarrow>
    system_run env P x (es @ acked) z"

text \<open>The store alone, beside a compactor that is idle.\<close>

lemma store_run_system:
  assumes "store_run env P x es y" "cm_phase c = NoCompaction"
  shows "system_run env P (c, x) es (c, y)"
  using assms(1)
proof (induction rule: store_run.induct)
  case (run_step x es y acked z)
  then show ?case
    using sys_step [OF run_step.IH] sys_store [of env "fst y" "snd y" acked "fst z" "snd z" c] assms(2) by simp
qed (rule sys_refl)

lemma compact_step_config: "compact_step env clock now (c, s, d) = (c', s', d') \<Longrightarrow> st_sstConfig s' = st_sstConfig s"
  by (cases "cm_phase c") (auto simp: compact_step_def split: sum.splits prod.splits option.splits if_splits)

lemma system_run_config: "system_run env P x es y \<Longrightarrow> st_sstConfig (fst (snd y)) = st_sstConfig (fst (snd x))"
proof (induction rule: system_run.induct)
  case (sys_step x es y acked z)
  have "st_sstConfig (fst (snd z)) = st_sstConfig (fst (snd y))"
    using sys_step.hyps(3)
  proof (cases rule: system_step.cases)
    case (sys_store s d s' d' c)
    then show ?thesis using store_step_config [OF sys_store(3)] by simp
  next
    case (sys_compact c clock s d now c' s' d')
    then show ?thesis using compact_step_config [OF sys_compact(6)] by simp
  qed simp
  then show ?case using sys_step.IH by simp
qed simp

section \<open>The invariant of the system\<close>

text \<open>
  Between its steps a compaction is where \<open>compact_inv\<close> says; memory and log are those of a
  good store that still has the tables of before.
\<close>

type_synonym goodness = "store \<Rightarrow> disk \<Rightarrow> sst_entry list list \<Rightarrow> bool"

definition merging :: "read_env \<Rightarrow> goodness \<Rightarrow> sst_entry list list \<Rightarrow> compactor \<times> store \<times> disk \<Rightarrow> bool" where
  "merging env good tables = (\<lambda>(c, s, d). quiet s \<and>
     (\<exists>clock number metas ts mf fs md. compact_inv env clock number metas tables (c, s, d) \<and>
        compact_fits env clock number (cm_config c) metas tables \<and> compacted clock tables \<noteq> [] \<and>
        good (with_tables ts mf s) (with_files fs md d) tables))"

lemma mergingI:
  "quiet s \<Longrightarrow> compact_inv env clock number metas tables (c, s, d) \<Longrightarrow>
   compact_fits env clock number (cm_config c) metas tables \<Longrightarrow> compacted clock tables \<noteq> [] \<Longrightarrow>
   good (with_tables ts mf s) (with_files fs md d) tables \<Longrightarrow> merging env good tables (c, s, d)"
  unfolding merging_def by blast

definition system_good :: "read_env \<Rightarrow> goodness \<Rightarrow> (jstring \<rightharpoonup> jstring) \<Rightarrow> compactor \<times> store \<times> disk \<Rightarrow> bool" where
  "system_good env good m = (\<lambda>(c, s, d). cm_config c = st_sstConfig s \<and>
     (\<exists>tables. store_view s tables = m \<and>
       (case cm_phase c of
          NoCompaction \<Rightarrow> good s d tables \<and> tables_listed s
        | Selected metas \<Rightarrow> good s d tables \<and> tables_listed s \<and> quiet s \<and> metas = map fst (st_sstables s) \<and>
            2 \<le> length metas
        | _ \<Rightarrow> merging env good tables (c, s, d))))"

lemma system_goodE:
  assumes "system_good env good m (c, s, d)"
  obtains (none) tables where "cm_phase c = NoCompaction" "cm_config c = st_sstConfig s" "store_view s tables = m"
      "good s d tables" "tables_listed s"
    | (selected) tables where "cm_phase c = Selected (map fst (st_sstables s))" "cm_config c = st_sstConfig s"
      "store_view s tables = m" "good s d tables" "tables_listed s" "quiet s" "2 \<le> length (st_sstables s)"
    | (under_way) tables where "cm_phase c \<noteq> NoCompaction" "\<forall>ms. cm_phase c \<noteq> Selected ms"
      "cm_config c = st_sstConfig s" "store_view s tables = m" "merging env good tables (c, s, d)"
  using assms by (cases "cm_phase c") (auto simp: system_good_def)

lemma compact_inv_cong:
  assumes "compact_inv env clock number metas tables (c, s, d)" "st_sstables s' = st_sstables s"
    "st_manifest s' = st_manifest s" "dk_files d' = dk_files d" "dk_manifest d' = dk_manifest d"
  shows "compact_inv env clock number metas tables (c, s', d')"
proof -
  have "readers_of env s' = readers_of env s" using assms(2) by (simp add: readers_of_def fun_eq_iff)
  then have "compact_inv env clock number metas tables (c, s', d') = compact_inv env clock number metas tables (c, s, d)"
    using assms(2-5) by (cases "cm_phase c") (simp_all add: compact_inv_def Let_def disk_holds_def split: option.split)
  then show ?thesis using assms(1) by simp
qed

lemma compact_step_clock:
  "\<forall>metas. cm_phase c \<noteq> Selected metas \<Longrightarrow> compact_step env clock now (c, s, d) = compact_step env clock' now (c, s, d)"
  by (cases "cm_phase c") (simp_all add: compact_step_def split: option.splits)

lemma doCompaction_listed:
  assumes "cm_phase c = NoCompaction" "mf_loaded (st_manifest s)" "tables_listed s" "quiet s"
  shows "doCompaction (st_manifest s) c =
    (if length (st_sstables s) < 2 then c else c\<lparr>cm_phase := Selected (map fst (st_sstables s))\<rparr>)"
  using assms by (simp add: doCompaction_def isCompacting_def getState_def ensureLoaded_def tables_listed_def quiet_def)

text \<open>
  What the system needs of an invariant of the store: the steps keep it, those without a
  flush for the same tables, and it does not depend on how the tables came about.
\<close>

locale store_invariant =
  fixes env :: read_env and good :: "log_entry list \<Rightarrow> goodness" and fine :: "store \<Rightarrow> bool"
  assumes good_inv: "good es s d tables \<Longrightarrow> store_inv env s d tables"
    and good_step: "good es s d tables \<Longrightarrow> fine s \<Longrightarrow> store_step env (s, d) acked (s', d') \<Longrightarrow>
      \<exists>tables'. good (es @ acked) s' d' tables' \<and> store_view s' tables' = fold view_effect acked (store_view s tables)"
    and good_idle: "good es s d tables \<Longrightarrow> fine s \<Longrightarrow> store_step env (s, d) acked (s', d') \<Longrightarrow> st_flush s = NoFlush \<Longrightarrow>
      good (es @ acked) s' d' tables \<and> store_view s' tables = fold view_effect acked (store_view s tables)"
    and good_swap: "good es (with_tables ts mf s) (with_files fs md d) tables \<Longrightarrow> quiet s \<Longrightarrow>
      store_inv env s d tables' \<Longrightarrow> view (map table_layer tables') = view (map table_layer tables) \<Longrightarrow> good es s d tables'"
    and fine_with: "fine (with_tables ts mf s) = fine s"
begin

lemma merging_store:
  assumes "merging env (good es) tables (c, s, d)" "fine s" "store_step env (s, d) acked (s', d')" "quiet s'"
  shows "merging env (good (es @ acked)) tables (c, s', d') \<and> store_view s' tables = fold view_effect acked (store_view s tables)"
proof -
  obtain clock number metas ts mf fs md where inv: "compact_inv env clock number metas tables (c, s, d)"
    and fits: "compact_fits env clock number (cm_config c) metas tables" "compacted clock tables \<noteq> []"
    and g: "good es (with_tables ts mf s) (with_files fs md d) tables" and q: "quiet s"
    using assms(1) by (auto simp: merging_def)
  have loaded: "mf_loaded (st_manifest s)" "mf_loaded mf" "st_initialized s"
    using inv good_inv [OF g] by (simp_all add: compact_inv_def Let_def store_inv_parts)
  have "st_flush s = NoFlush" "st_flush s' = NoFlush" using q assms(4) by (simp_all add: quiet_def)
  note step = store_step_with [OF assms(3) this loaded(3,1,2), of ts fs md]
  have "good (es @ acked) (with_tables ts mf s') (with_files fs md d') tables \<and>
      store_view (with_tables ts mf s') tables = fold view_effect acked (store_view (with_tables ts mf s) tables)"
    using step q assms(2) by (intro good_idle [OF g]) (simp_all add: fine_with quiet_def)
  moreover have "compact_inv env clock number metas tables (c, s', d')"
    using step by (intro compact_inv_cong [OF inv]) simp_all
  ultimately show ?thesis using mergingI [where good = "good (es @ acked)", OF assms(4) _ fits] by auto
qed

lemma merging_compact:
  assumes "merging env (good es) tables (c, s, d)" "cm_config c = st_sstConfig s" "now \<le> 2 ^ 53"
    "compact_step env clock now (c, s, d) = (c', s', d')" "cm_phase c \<noteq> NoCompaction" "\<forall>ms. cm_phase c \<noteq> Selected ms"
  shows "system_good env (good es) (store_view s tables) (c', s', d')"
proof -
  obtain clk number metas ts mf fs md where inv: "compact_inv env clk number metas tables (c, s, d)"
    and fits: "compact_fits env clk number (cm_config c) metas tables" and live: "compacted clk tables \<noteq> []"
    and g: "good es (with_tables ts mf s) (with_files fs md d) tables" and q: "quiet s"
    using assms(1) by (auto simp: merging_def)
  have step: "compact_step env clk now (c, s, d) = (c', s', d')"
    using assms(4) compact_step_clock [OF assms(6), of env clk now s d clock] by simp
  note r = compact_step_inv [OF inv fits assms(3) step]
  then have mem: "same_memory s s'" "dk_logs d' = dk_logs d" "compact_inv env clk number metas tables (c', s', d')"
    and cfg: "cm_config c' = cm_config c" and left: "steps_left (cm_phase c') = steps_left (cm_phase c) - 1"
    using live by simp_all
  note same = same_memory_simps [OF mem(1)]
  have g': "good es (with_tables ts mf s') (with_files fs md d') tables"
    using g mem by (simp add: with_tables_memory [of s s'] with_files_logs [of d' d])
  have q': "quiet s'" using q same by (simp add: quiet_def)
  have cfg': "cm_config c' = st_sstConfig s'" using cfg same assms(2) by simp
  have six: "steps_left (cm_phase c') < 7" using left assms(5,6) by (cases "cm_phase c") simp_all
  have view: "store_view s' ts = store_view s ts" for ts using same by (simp add: store_view_def)
  show ?thesis
  proof (cases "cm_phase c' = NoCompaction")
    case True
    have "store_inv env s' d' [compacted clk tables] \<and> tables_listed s' \<and>
        tables_open env (st_sstables s') [compacted clk tables]"
      by (rule compact_done [OF mem(3) True live cfg' _ _ good_inv [OF g']]) (use q' in \<open>simp_all add: quiet_def\<close>)
    moreover have "view (map table_layer [compacted clk tables]) = view (map table_layer tables)"
      using phase_view [OF refl, of "[]" clk tables NoCompaction] live by simp
    ultimately have new: "good es s' d' [compacted clk tables]" "tables_listed s'"
      using good_swap [OF g' q'] by blast+
    have "store_view s' [compacted clk tables] = store_view s tables"
      using phase_view [OF refl, of "memory_layers s'" clk tables NoCompaction] live view [of tables]
      by (simp add: store_view_def)
    then show ?thesis using new True cfg' by (auto simp: system_good_def)
  next
    case False
    have "merging env (good es) tables (c', s', d')"
      by (rule mergingI [where good = "good es", OF q' mem(3) _ live g']) (use fits cfg in simp)
    then show ?thesis
      using False six cfg' view [of tables] by (cases "cm_phase c'") (auto simp: system_good_def)
  qed
qed

text \<open>The merge itself, the first step of a compaction.\<close>

lemma selected_compact:
  assumes "good es s d tables" "tables_listed s" "quiet s" "cm_phase c = Selected (map fst (st_sstables s))"
    "2 \<le> length (st_sstables s)" "cm_config c = st_sstConfig s" "merge_ready env clock s d" "now \<le> 2 ^ 53"
    "compact_step env clock now (c, s, d) = (c', s', d')" "live_merge c'"
  shows "system_good env (good es) (store_view s tables) (c', s', d')"
proof -
  let ?metas = "map fst (st_sstables s)" and ?number = "mf_nextFileNumber (mf_state (st_manifest s))"
  have sinv: "store_inv env s d tables" by (rule good_inv [OF assms(1)])
  have ready: "merge_fits clock s tables" using assms(7) sinv by (simp add: merge_ready_def)
  have c: "(c\<lparr>cm_phase := NoCompaction\<rparr>)\<lparr>cm_phase := Selected ?metas\<rparr> = c"
    using assms(4) by (cases c) simp
  have inv: "compact_inv env clock ?number ?metas tables (c, s, d)"
    and fits: "compact_fits env clock ?number (cm_config c) ?metas tables"
    using compaction_begin [of env s d tables clock "c\<lparr>cm_phase := NoCompaction\<rparr>"] sinv assms(2,3,5,6) ready
    by (simp_all add: quiet_def c)
  obtain w where w: "compact_step env clock now (c, s, d) = (c\<lparr>cm_phase := Merged ?metas w\<rparr>, s, d)"
    "compact_inv env clock ?number ?metas tables (c\<lparr>cm_phase := Merged ?metas w\<rparr>, s, d)"
    by (rule merge_phase [OF inv assms(4) fits])
  have eq: "c' = c\<lparr>cm_phase := Merged ?metas w\<rparr>" "s' = s" "d' = d" using w(1) assms(9) by simp_all
  have live: "compacted clock tables \<noteq> []"
    using w(2) assms(10) eq(1) by (simp add: compact_inv_def Let_def live_merge_def)
  have g: "good es (with_tables (st_sstables s) (st_manifest s) s) (with_files (dk_files d) (dk_manifest d) d) tables"
    using assms(1) by simp
  have "merging env (good es) tables (c', s', d')"
    unfolding eq by (rule mergingI [where good = "good es", OF assms(3) w(2) _ live g]) (use fits in simp)
  then show ?thesis using eq assms(6) by (auto simp: system_good_def)
qed

lemma system_step_good:
  assumes "system_good env (good es) m x" "fine (fst (snd x))" "system_step env x acked y"
  shows "system_good env (good (es @ acked)) (fold view_effect acked m) y"
  using assms(3)
proof (cases rule: system_step.cases)
  case (sys_store s d s' d' c)
  have fine: "fine s" using assms(2) sys_store(1) by simp
  have cfg: "st_sstConfig s' = st_sstConfig s" using store_step_config [OF sys_store(3)] by simp
  have listed: "tables_listed s'" if "good es s d tables" "tables_listed s" for tables
    using store_step_listed [OF sys_store(3), of tables] good_inv [OF that(1)] that(2) by simp
  show ?thesis
    using assms(1) unfolding sys_store(1)
  proof (cases rule: system_goodE)
    case (none tables)
    obtain tables' where "good (es @ acked) s' d' tables'" "store_view s' tables' = fold view_effect acked (store_view s tables)"
      using good_step [OF none(4) fine sys_store(3)] by blast
    then show ?thesis using none listed cfg sys_store(2) by (auto simp: system_good_def)
  next
    case (selected tables)
    have flush: "st_flush s = NoFlush" and q': "quiet s'"
      using selected(1,6) sys_store(4) by (simp_all add: quiet_def)
    have "st_initialized s" "mf_loaded (st_manifest s)" using good_inv [OF selected(4)] by (simp_all add: store_inv_parts)
    then have "st_sstables s' = st_sstables s"
      using store_step_with [OF sys_store(3) flush, of "st_manifest s"] q' by (simp add: quiet_def)
    then show ?thesis
      using selected good_idle [OF selected(4) fine sys_store(3) flush] listed cfg q' sys_store(2)
      by (auto simp: system_good_def)
  next
    case (under_way tables)
    then have "quiet s'" using sys_store(4) by simp
    note m = merging_store [OF under_way(5) fine sys_store(3) this]
    then show ?thesis
      using under_way cfg sys_store(2) by (cases "cm_phase c") (auto simp: system_good_def)
  qed
next
  case (sys_start c s d)
  then obtain tables where t: "cm_config c = st_sstConfig s" "store_view s tables = m" "good es s d tables" "tables_listed s"
    using assms(1) by (auto simp: system_good_def)
  have "mf_loaded (st_manifest s)" using good_inv [OF t(3)] by (simp add: store_inv_parts)
  then have "doCompaction (st_manifest s) c =
      (if length (st_sstables s) < 2 then c else c\<lparr>cm_phase := Selected (map fst (st_sstables s))\<rparr>)"
    by (intro doCompaction_listed) (use sys_start t in simp_all)
  then show ?thesis using sys_start t by (auto simp: system_good_def)
next
  case (sys_compact c clock s d now c' s' d')
  have "system_good env (good es) m (c', s', d')"
    using assms(1) unfolding sys_compact(1)
  proof (cases rule: system_goodE)
    case (none tables)
    then have "(c', s', d') = x" using sys_compact(1,6) by (simp add: compact_step_def)
    then show ?thesis using assms(1) by simp
  next
    case (selected tables)
    then have "merge_ready env clock s d" using sys_compact(4) by simp
    then have "system_good env (good es) (store_view s tables) (c', s', d')"
      by (rule selected_compact [OF selected(4-6,1,7,2) _ sys_compact(5-7)])
    then show ?thesis using selected(3) by simp
  next
    case (under_way tables)
    show ?thesis
      using merging_compact [OF under_way(5,3) sys_compact(5,6) under_way(1,2)] under_way(4) by simp
  qed
  then show ?thesis using sys_compact(2,3) by simp
qed

lemma system_run_good:
  assumes "system_run env fine x es y" "system_good env (good es0) m x"
  shows "system_good env (good (es0 @ es)) (fold view_effect es m) y"
  using assms
proof (induction rule: system_run.induct)
  case (sys_step x es y acked z)
  then show ?case using system_step_good [of "es0 @ es" "fold view_effect es m" y acked z] by simp
qed simp

text \<open>What a lookup finds, except between the closing of the old readers and the new one.\<close>

lemma system_reads:
  assumes "system_good env (good es) m (c, s, d)" "\<forall>meta kept. cm_phase c \<noteq> Swapping meta kept"
  obtains tables where "st_initialized s" "memory_ok s" "tables_open env (st_sstables s) tables" "store_view s tables = m"
proof -
  show thesis
    using assms(1)
  proof (cases rule: system_goodE)
    case (under_way tables)
    obtain clock number metas ts mf fs md where inv: "compact_inv env clock number metas tables (c, s, d)"
      and g: "good es (with_tables ts mf s) (with_files fs md d) tables"
      using under_way(5) by (auto simp: merging_def)
    have "tables_open env (st_sstables s) tables"
      using inv under_way(1) assms(2) by (cases "cm_phase c") (auto simp: compact_inv_def Let_def readers_of_def)
    moreover have "st_initialized s" "memory_ok s"
      using store_inv_reads [OF good_inv [OF g]] by (simp_all add: memory_ok_def)
    ultimately show thesis using that under_way(4) by blast
  qed (use store_inv_reads [OF good_inv] that in blast)+
qed

text \<open>Between the compactions the tables of the engine are those of the manifest.\<close>

lemma system_listed:
  assumes "system_good env (good es) m (c, s, d)" "cm_phase c = NoCompaction"
  shows "tables_listed s"
  using assms(1) by (cases rule: system_goodE) (use assms(2) in simp_all)

text \<open>The memory and the log are at any time those of a good store.\<close>

lemma system_memory:
  assumes "system_good env (good es) m (c, s, d)"
  obtains s0 d0 tables where "store_inv env s0 d0 tables" "st_wal s0 = st_wal s" "dk_logs d0 = dk_logs d"
    "st_initialized s0 = st_initialized s"
  using assms
proof (cases rule: system_goodE)
  case (under_way tables)
  obtain ts mf fs md where "good es (with_tables ts mf s) (with_files fs md d) tables"
    using under_way(5) by (auto simp: merging_def)
  from that [OF good_inv [OF this]] show thesis by simp
qed (use good_inv that in blast)+

end

section \<open>The invariants of the store\<close>

lemma idle_step_inv:
  assumes "store_inv env s d tables" "store_step env (s, d) acked (s', d')" "st_flush s = NoFlush"
  shows "store_inv env s' d' tables \<and> store_view s' tables = fold view_effect acked (store_view s tables)"
  using assms(2)
proof (cases rule: store_step.cases)
  case (step_write body now r)
  then show ?thesis using write_step_inv [OF assms(1) step_write(2-5)] by simp
next
  case (step_enqueue body now trigger)
  then show ?thesis using enqueue_step_inv [OF assms(1) step_enqueue(3-5)] by simp
next
  case (step_commit err w logs now)
  then show ?thesis using commit_step_inv [OF assms(1)] by metis
qed (use assms(3) in simp_all)

lemma idle_step_traced:
  assumes "traced env refused es s d tables" "cautious refused s" "store_step env (s, d) acked (s', d')" "st_flush s = NoFlush"
  shows "traced env refused (es @ acked) s' d' tables"
  using assms(3)
proof (cases rule: store_step.cases)
  case (step_write body now r)
  then show ?thesis using write_step_traced [OF assms(1) step_write(2-5)] by simp
next
  case (step_enqueue body now trigger)
  then show ?thesis using enqueue_step_traced [OF assms(1) step_enqueue(3-5)] by simp
next
  case (step_commit err w logs now)
  then show ?thesis using commit_step_traced [OF assms(1,2)] by metis
qed (use assms(4) in simp_all)

interpretation running: store_invariant env "\<lambda>es. store_inv env" "\<lambda>s. True"
proof
  fix s d tables acked s' d'
  assume inv: "store_inv env s d tables" and step: "store_step env (s, d) acked (s', d')"
  have "store_sim env (s, d) (store_view s tables)" using inv by (auto simp: store_sim_def)
  from store_step_sim [OF step this]
  show "\<exists>tables'. store_inv env s' d' tables' \<and> store_view s' tables' = fold view_effect acked (store_view s tables)"
    by (simp add: store_sim_def)
qed (use idle_step_inv in blast)+

lemma traced_store_view: "traced env refused es s d tables \<Longrightarrow> store_view s tables = fold view_effect es Map.empty"
  by (simp add: traced_def)

interpretation lasting: store_invariant env "traced env refused" "cautious refused"
proof
  fix es s d tables assume "traced env refused es s d tables"
  then show "store_inv env s d tables" by (rule traced_inv)
next
  fix es s d tables acked s' d'
  assume tr: "traced env refused es s d tables" and fine: "cautious refused s" and step: "store_step env (s, d) acked (s', d')"
  obtain tables' where new: "traced env refused (es @ acked) s' d' tables'"
    using store_step_traced [OF step, of refused es tables] tr fine by auto
  then show "\<exists>tables'. traced env refused (es @ acked) s' d' tables' \<and>
      store_view s' tables' = fold view_effect acked (store_view s tables)"
    using traced_store_view [OF new] traced_store_view [OF tr] by auto
next
  fix es s d tables acked s' d'
  assume tr: "traced env refused es s d tables" and fine: "cautious refused s" and step: "store_step env (s, d) acked (s', d')"
    and idle: "st_flush s = NoFlush"
  note new = idle_step_traced [OF tr fine step idle]
  then show "traced env refused (es @ acked) s' d' tables \<and>
      store_view s' tables = fold view_effect acked (store_view s tables)"
    using traced_store_view [OF new] traced_store_view [OF tr] by simp
next
  fix es ts mf s fs md d tables tables'
  assume tr: "traced env refused es (with_tables ts mf s) (with_files fs md d) tables" and quiet: "quiet s"
    and new: "store_inv env s d tables'" "view (map table_layer tables') = view (map table_layer tables)"
  have flush: "st_flush s = NoFlush" "st_immutable s = None" using quiet by (simp_all add: quiet_def)
  have "store_view s tables' = store_view s tables"
    using new(2) by (simp add: store_view_def view_first_hit [of "memory_layers s"] fun_eq_iff view_Cons split: option.split)
  then show "traced env refused es s d tables'"
    using tr new flush by (simp add: traced_def older_def)
qed simp

section \<open>Crashes\<close>

text \<open>A crash at any moment, within a compaction or outside.\<close>

lemma system_crash:
  assumes "system_good env (traced env refused es) m (c, s, d)" "crash_image s us d d'" "now \<le> 2 ^ 53"
  obtains s2 d2 tables xs rs where
    "store_initialize env now (new_store policy limit (st_sstConfig s) t) d' = Inr (s2, d2)"
    "st_initialized s2" "memory_ok s2" "tables_open env (st_sstables s2) tables"
    "set xs \<subseteq> refused" "rs \<in> shuffles es xs" "store_view s2 tables = fold view_effect (rs @ us) Map.empty"
proof -
  note answer = that
  have idle: thesis if tr: "traced env refused es s d tables" for tables
  proof -
    have replay: "\<forall>e\<in>set (wal_replay (dk_logs d)). storable_body (log_body.truncate e)"
      using tr by (simp add: traced_def)
    obtain xs rs where x: "set xs \<subseteq> refused" "rs \<in> shuffles es xs"
      "view (replay_layer (dk_logs d) # map table_layer (disk_tables s tables)) = fold view_effect rs Map.empty"
      by (rule traced_view [OF tr])
    obtain s2 d2 where "store_initialize env now (new_store policy limit (st_sstConfig s) t) d' = Inr (s2, d2)"
      "st_initialized s2" "memory_ok s2" "tables_open env (st_sstables s2) (disk_tables s tables)"
      "store_view s2 (disk_tables s tables) =
         fold view_effect us (view (replay_layer (dk_logs d) # map table_layer (disk_tables s tables)))"
      by (rule crash_recover [OF traced_inv [OF tr] replay assms(2,3)])
    with x show thesis by (intro answer [of s2 d2 "disk_tables s tables" xs rs]) simp_all
  qed
  show thesis
    using assms(1)
  proof (cases rule: system_goodE)
    case (under_way tables)
    obtain clock number metas ts mf fs md where inv: "compact_inv env clock number metas tables (c, s, d)"
      and q: "st_flush s = NoFlush" and g: "traced env refused es (with_tables ts mf s) (with_files fs md d) tables"
      using under_way(5) by (auto simp: merging_def quiet_def)
    obtain xs rs where x: "set xs \<subseteq> refused" "rs \<in> shuffles es xs"
      "view (replay_layer (dk_logs d) # map table_layer tables) = fold view_effect rs Map.empty"
      by (rule traced_view [OF g]) (simp add: disk_tables_def q)
    have replay: "\<forall>e\<in>set (wal_replay (dk_logs d)). storable_body (log_body.truncate e)"
      using g by (simp add: traced_def)
    obtain s2 d2 tabs where "store_initialize env now (new_store policy limit (st_sstConfig s) t) d' = Inr (s2, d2)"
      "st_initialized s2" "memory_ok s2" "tables_open env (st_sstables s2) tabs"
      "store_view s2 tabs = fold view_effect us (view (replay_layer (dk_logs d) # map table_layer tables))"
      by (rule compact_crash [OF inv under_way(3) traced_inv [OF g] replay _ _ assms(2,3)]) simp_all
    with x show thesis by (intro that [of s2 d2 tabs xs rs]) simp_all
  qed (use idle in blast)+
qed

section \<open>The start\<close>

lemma loadSSTables_flush: "loadSSTables env metas s d = Inr (s', d') \<Longrightarrow> st_flush s' = st_flush s"
  by (induction env metas s d rule: loadSSTables.induct) (auto simp: bind_res_eq_Inr split: sum.splits)

lemma store_initialize_flush:
  "store_initialize env now s d = Inr (s', d') \<Longrightarrow> st_flush s' = st_flush s"
  by (force simp: store_initialize_def bind_res_eq_Inr Let_def case_prod_unfold dest: loadSSTables_flush split: if_splits)

lemma fresh_system:
  assumes "2147483647 \<le> env_limit env" "cf_falsePositiveRate cfg < 1" "now \<le> 2 ^ 53"
    "store_initialize env now (new_store policy limit cfg t) empty_disk = Inr (s, d)"
    "cm_phase c = NoCompaction" "cm_config c = cfg"
  shows "system_good env (traced env refused []) Map.empty (c, s, d)" "system_good env (store_inv env) Map.empty (c, s, d)"
    "st_sstConfig s = cfg"
proof -
  have s: "durable env s d [] \<and> store_view s [] = Map.empty \<and> st_sstConfig s = cfg \<and> wal_replay (dk_logs d) = []"
    using fresh_start [OF assms(1-3), of policy limit t] assms(4) by fastforce
  have flush: "st_flush s = NoFlush" using store_initialize_flush [OF assms(4)] by (simp add: new_store_def)
  have inv: "store_inv env s d []" using s by (simp add: durable_def)
  then have "tables_listed s"
    using flush by (simp add: store_inv_parts tables_open_def disk_tables_def tables_listed_def)
  moreover have "traced env refused [] s d []"
    using s inv flush
    by (simp add: traced_def older_def durable_def replay_layer_def) (simp add: view_def fun_eq_iff)
  ultimately show "system_good env (traced env refused []) Map.empty (c, s, d)"
    "system_good env (store_inv env) Map.empty (c, s, d)" "st_sstConfig s = cfg"
    using s inv assms(5,6) by (auto simp: system_good_def)
qed

end
