(* ===== verification/Store_Examples.thy ===== *)
theory Store_Examples
  imports Compaction_Proofs
begin

text \<open>
  Stores with given tables on disk, in a state the program reaches: they show that the
  hypotheses of the theorems about flushes, compactions and recovery can hold.
\<close>

lemma single_parts: obtains f where "table_parts [e] [] f"
proof -
  obtain f where f: "bf_invar f" "bf_numBits f < 4294967296" "bf_numHashFunctions f < 4294967296"
    "\<forall>x\<in>set [e]. mightContain f (se_key x)"
    by (rule bloom_exists)
  then have "table_parts [e] [] f" by (auto simp: table_parts_def intro!: exI [of _ 0])
  then show thesis by (rule that)
qed

definition small_entry :: "read_env \<Rightarrow> sst_entry \<Rightarrow> bool" where
  "small_entry env e \<longleftrightarrow> readable env e \<and> length (data_bytes [e]) \<le> 2 ^ 52"

text \<open>One table for each entry, the newest first, with descending file numbers.\<close>

lemma tables_exist:
  assumes "\<forall>e\<in>set es. small_entry env e" "length es < 4294967295"
  obtains fs metas where "list_all2 (table_file env cfg fs) metas (map (\<lambda>e. [e]) es)"
    "map sm_fileNumber metas = rev [1..<Suc (length es)]"
proof -
  have "\<exists>fs metas. list_all2 (table_file env cfg fs) metas (map (\<lambda>e. [e]) es) \<and>
    map sm_fileNumber metas = rev [1..<Suc (length es)]"
    using assms
  proof (induction es)
    case (Cons e es)
    then obtain fs metas where IH: "list_all2 (table_file env cfg fs) metas (map (\<lambda>e. [e]) es)"
      "map sm_fileNumber metas = rev [1..<Suc (length es)]" by auto
    obtain f where parts: "table_parts [e] [] f" by (rule single_parts)
    define n where "n = Suc (length es)"
    let ?path = "sst_path (cf_dataDir cfg) n"
    define meta where "meta = table_meta n 1 [e] [] f ?path"
    define fs' where "fs' = fs(temp_path ?path := None, ?path \<mapsto> table_bytes n 1 [e] [] f)"
    have "table_ok n 1 [e]"
      using Cons.prems by (simp add: table_ok_def small_entry_def readable_def n_def)
    then have "table_file env cfg fs' meta [e]"
      unfolding table_file_def meta_def using Cons.prems(1) parts
      by (intro exI [of _ n] exI [of _ 1] exI [of _ "[]"] exI [of _ f]) (simp add: fs'_def small_entry_def)
    moreover have "list_all2 (table_file env cfg fs') metas (map (\<lambda>e. [e]) es)"
    proof (rule list.rel_mono_strong [OF IH(1)])
      fix x ys assume "x \<in> set metas"
      then have "sm_fileNumber x \<in> set (map sm_fileNumber metas)" by simp
      then have "sm_fileNumber x \<noteq> n" unfolding IH(2) by (auto simp: n_def)
      then show "table_file env cfg fs x ys \<Longrightarrow> table_file env cfg fs' x ys"
        unfolding fs'_def by (rule table_file_write [rotated])
    qed
    moreover have "sm_fileNumber meta = n" by (simp add: meta_def table_meta_def)
    ultimately show ?case
      using IH(2) by (intro exI [of _ fs'] exI [of _ "meta # metas"]) (simp add: n_def)
  qed simp
  then show thesis using that by blast
qed

lemma tables_readers:
  assumes "list_all2 (table_file env cfg fs) metas tabs" "2147483647 \<le> env_limit env"
  obtains ts where "tables_open env ts tabs" "map fst ts = metas"
proof -
  have "\<exists>ts. tables_open env ts tabs \<and> map fst ts = metas"
    using assms(1)
  proof (induction rule: list_all2_induct)
    case (Cons meta metas es tabs)
    obtain r where "table_open env (meta, r) es"
      by (rule table_file_open [OF Cons.hyps(1) assms(2)])
    moreover obtain ts where "tables_open env ts tabs" "map fst ts = metas" using Cons.IH by blast
    ultimately show ?case
      by (intro exI [of _ "(meta, r) # ts"]) (simp add: tables_open_def)
  qed (simp add: tables_open_def)
  then show thesis using that by blast
qed

lemma fresh_facts:
  assumes "store_initialize env now (new_store policy limit cfg t) empty_disk = Inr (s, d)"
  shows "wal_replay (dk_logs d) = []" "wal_pendingWrites (st_wal s) = []" "st_immutable s = None"
    "st_flush s = NoFlush" "wal_currentLogFile (st_wal s) = log_name now" "st_sstables s = []"
proof -
  let ?open = "wal_open now (new_wal policy) (dk_logs empty_disk)"
  have sd: "st_wal s = fst ?open" "dk_logs d = snd ?open" "st_immutable s = None" "st_flush s = NoFlush" "st_sstables s = []"
    using assms
    by (auto simp: store_initialize_def new_store_def manifest_load_def new_manifest_def empty_disk_def getSSTables_def
        ensureLoaded_def EMPTY_MANIFEST_STATE_def case_prod_unfold Let_def)
  have replay: "wal_replay (dk_logs empty_disk) = []"
    by (simp add: empty_disk_def wal_replay_def log_files_def)
  then show "wal_replay (dk_logs d) = []"
    using wal_open_replay [of "dk_logs empty_disk"] sd(2) by (simp add: empty_disk_def)
  show "wal_pendingWrites (st_wal s) = []" "wal_currentLogFile (st_wal s) = log_name now"
    by (simp_all add: sd wal_open_def new_wal_def empty_disk_def log_files_def Let_def rotateLog_def)
  show "st_immutable s = None" "st_flush s = NoFlush" "st_sstables s = []" by (fact sd)+
qed

lemma rev_upt_sorted: "sorted_wrt (\<lambda>a b. b \<le> a) (rev [1..<n])"
  by (simp add: sorted_wrt_rev)

text \<open>A store at rest: nothing in memory, one table for each of the given entries.\<close>

lemma idle_store_exists:
  assumes "\<forall>e\<in>set es. small_entry env e" "length es < 4294967295" "2147483647 \<le> env_limit env"
    "cf_falsePositiveRate cfg < 1"
  obtains s d where "durable env s d (map (\<lambda>e. [e]) es)" "st_flush s = NoFlush" "st_immutable s = None"
    "tables_listed s" "st_sstConfig s = cfg" "mf_nextFileNumber (mf_state (st_manifest s)) = Suc (length es)"
    "length (st_sstables s) = length es" "memory_layers s = [mem_layer (st_active s)]" "mem_layer (st_active s) = Map.empty"
    "wal_pendingWrites (st_wal s) = []" "wal_currentLogFile (st_wal s) = log_name 1"
    "wal_syncPolicy (st_wal s) = SYNC_EVERY_WRITE" "wal_sequenceId (st_wal s) = 0"
proof -
  obtain s d where f: "store_initialize env 1 (new_store SYNC_EVERY_WRITE 100 cfg 0) empty_disk = Inr (s, d)"
    "durable env s d []" "store_view s [] = Map.empty" "st_sstConfig s = cfg" "wal_sequenceId (st_wal s) = 0"
    "wal_syncPolicy (st_wal s) = SYNC_EVERY_WRITE"
    by (rule fresh_start [of env cfg 1, OF assms(3,4)]) simp_all
  note facts = fresh_facts [OF f(1)]
  obtain fs metas where t: "list_all2 (table_file env cfg fs) metas (map (\<lambda>e. [e]) es)"
    "map sm_fileNumber metas = rev [1..<Suc (length es)]"
    by (rule tables_exist [OF assms(1,2)])
  obtain ts where ts: "tables_open env ts (map (\<lambda>e. [e]) es)" "map fst ts = metas"
    by (rule tables_readers [OF t(1) assms(3)])
  define m where "m = \<lparr>mf_state = \<lparr>mf_sstables = metas, mf_nextFileNumber = Suc (length es), mf_lastFlushedSequence = 0,
    mf_version = length es, mf_createdAt = 0\<rparr>, mf_loaded = True\<rparr>"
  define s' d' where "s' = s\<lparr>st_sstables := ts, st_manifest := m\<rparr>"
    and "d' = d\<lparr>dk_files := fs, dk_manifest := manifest_save m\<rparr>"
  have numbers: "newest_sorted metas" "\<forall>x\<in>set metas. sm_fileNumber x < Suc (length es)"
  proof -
    have "sorted_wrt (\<lambda>a b. b \<le> a) (map sm_fileNumber metas)" unfolding t(2) by (rule rev_upt_sorted)
    then show "newest_sorted metas" by (simp add: newest_sorted_def sorted_wrt_map)
    have "\<forall>n\<in>set (map sm_fileNumber metas). n < Suc (length es)" unfolding t(2) by auto
    then show "\<forall>x\<in>set metas. sm_fileNumber x < Suc (length es)" by simp
  qed
  have same: "memory_layers s' = memory_layers s" by (simp add: s'_def memory_layers_def)
  have empty: "first_hit (memory_layers s) = Map.empty"
    using f(2) facts(1) by (simp add: durable_def replay_layer_def)
  have len: "length ts = length es"
    using arg_cong [OF ts(2), of length] arg_cong [OF t(2), of length] by (simp del: upt_Suc)
  show thesis
  proof (rule that)
    show "durable env s' d' (map (\<lambda>e. [e]) es)"
      using f(2,4) facts t(1) ts(1) numbers same
      by (simp add: durable_def store_inv_parts s'_def d'_def m_def manifest_inv_def disk_tables_def flush_ok_def)
    show "tables_listed s'" using ts(2) facts(4) by (simp add: tables_listed_def s'_def m_def)
    show "mem_layer (st_active s') = Map.empty"
      using empty facts(3) by (auto simp: s'_def memory_layers_def fun_eq_iff split: option.splits)
  qed (use f(4-6) facts len in \<open>simp_all add: s'_def m_def memory_layers_def\<close>)
qed

section \<open>A small store\<close>

text \<open>Two tables: the newer one has the key b, the older one the key a.\<close>

definition demo_env :: read_env where
  "demo_env = \<lparr>env_mem = \<lambda>i. 0, env_limit = 4294967296\<rparr>"

definition demo_cfg :: sst_config where
  "demo_cfg = \<lparr>cf_dataDir = js ''d'', cf_sparseIndexInterval = 2, cf_falsePositiveRate = 1 / 100\<rparr>"

definition demo_entry :: "string \<Rightarrow> sst_entry" where
  "demo_entry k = \<lparr>se_key = js k, se_value = js ''v'', se_time = 4, se_deleted = False\<rparr>"

definition demo_tables :: "sst_entry list list" where
  "demo_tables = [[demo_entry ''b''], [demo_entry ''a'']]"

definition demo_compactor :: compactor where
  "demo_compactor = new_compactor 4 demo_cfg"

lemma demo_compactor_simps [simp]:
  "cm_phase demo_compactor = NoCompaction" "cm_config demo_compactor = demo_cfg"
  by (simp_all add: demo_compactor_def new_compactor_def)

lemma demo_env_ok: "2147483647 \<le> env_limit demo_env" "cf_falsePositiveRate demo_cfg < 1"
  by (simp_all add: demo_env_def demo_cfg_def)

lemma demo_utf8: "utf8 (js ''a'') = [byte_of 97]" "utf8 (js ''b'') = [byte_of 98]" "utf8 (js ''v'') = [byte_of 118]"
  by (simp_all add: utf8_js utf8_of_def)

lemma demo_small: "small_entry demo_env (demo_entry ''a'')" "small_entry demo_env (demo_entry ''b'')"
proof -
  have wf: "well_formed (js k)" if "length k < 50" for k
    using string_ok_js [of k 100] that by (simp add: string_ok_def)
  have "sst_entry_ok (demo_entry ''a'')" "sst_entry_ok (demo_entry ''b'')"
    by (simp_all add: sst_entry_ok_def demo_entry_def demo_utf8 wf)
  moreover have "ascii_start (js ''a'')" "ascii_start (js ''b'')" by (simp_all add: ascii_start_def js_def)
  ultimately show "small_entry demo_env (demo_entry ''a'')" "small_entry demo_env (demo_entry ''b'')"
    by (auto simp: small_entry_def demo_entry_def demo_utf8 data_bytes_def length_sst_entry_bytes sst_entrySize_def
        demo_env_ok intro!: readable_ascii)
qed

lemma demo_merge:
  "iterate False (new_merge (map (map sst_merge_entry) demo_tables)) = [(js ''a'', js ''v''), (js ''b'', js ''v'')]"
  by code_simp

lemma demo_compacted:
  "compacted (\<lambda>i. 7) demo_tables =
   [\<lparr>se_key = js ''a'', se_value = js ''v'', se_time = 7, se_deleted = False\<rparr>,
    \<lparr>se_key = js ''b'', se_value = js ''v'', se_time = 7, se_deleted = False\<rparr>]"
proof -
  have "\<forall>es\<in>set (map (map sst_merge_entry) demo_tables). ordered_by me_key es"
    by (simp add: demo_tables_def)
  then have "yielded False (merged (map (map sst_merge_entry) demo_tables)) = [(js ''a'', js ''v''), (js ''b'', js ''v'')]"
    using demo_merge iterate_merged by metis
  then show ?thesis by (simp add: compacted_def compacted_entries_def)
qed

lemma demo_store:
  obtains s d where "durable demo_env s d demo_tables" "st_flush s = NoFlush" "st_immutable s = None"
    "tables_listed s" "st_sstConfig s = demo_cfg" "merge_fits (\<lambda>i. 7) s demo_tables"
    "length (st_sstables s) = 2" "memory_layers s = [mem_layer (st_active s)]" "mem_layer (st_active s) = Map.empty"
    "wal_pendingWrites (st_wal s) = []" "wal_currentLogFile (st_wal s) = log_name 1"
    "wal_syncPolicy (st_wal s) = SYNC_EVERY_WRITE" "wal_sequenceId (st_wal s) = 0"
proof -
  let ?es = "[demo_entry ''b'', demo_entry ''a'']"
  have small: "\<forall>e\<in>set ?es. small_entry demo_env e" using demo_small by simp
  obtain s d where s: "durable demo_env s d (map (\<lambda>e. [e]) ?es)" "st_flush s = NoFlush" "st_immutable s = None"
    "tables_listed s" "st_sstConfig s = demo_cfg" "mf_nextFileNumber (mf_state (st_manifest s)) = Suc (length ?es)"
    "length (st_sstables s) = length ?es" "memory_layers s = [mem_layer (st_active s)]" "mem_layer (st_active s) = Map.empty"
    "wal_pendingWrites (st_wal s) = []" "wal_currentLogFile (st_wal s) = log_name 1"
    "wal_syncPolicy (st_wal s) = SYNC_EVERY_WRITE" "wal_sequenceId (st_wal s) = 0"
    by (rule idle_store_exists [OF small _ demo_env_ok]) simp_all
  have "merge_fits (\<lambda>i. 7) s demo_tables"
    using s(6) by (simp add: merge_fits_def demo_compacted data_bytes_def length_sst_entry_bytes sst_entrySize_def demo_utf8)
  then show thesis
    using s by (intro that [of s d]) (simp_all add: demo_tables_def)
qed

text \<open>The same store with a flush that has built its table for the key c.\<close>

lemma demo_flushing:
  obtains s d meta where "store_inv demo_env s d demo_tables" "st_flush s = Built meta" "tables_listed s"
    "st_sstConfig s = demo_cfg" "merge_fits (\<lambda>i. 7) s demo_tables" "length (st_sstables s) = 2"
    "mem_layer (st_active s) = Map.empty" "store_view s demo_tables (js ''c'') = Some (js ''v'')"
    "wal_pendingWrites (st_wal s) = []" "wal_currentLogFile (st_wal s) = log_name 1"
proof -
  obtain s d where s: "durable demo_env s d demo_tables" "st_flush s = NoFlush" "st_immutable s = None"
    "tables_listed s" "st_sstConfig s = demo_cfg" "merge_fits (\<lambda>i. 7) s demo_tables"
    "length (st_sstables s) = 2" "memory_layers s = [mem_layer (st_active s)]" "mem_layer (st_active s) = Map.empty"
    "wal_pendingWrites (st_wal s) = []" "wal_currentLogFile (st_wal s) = log_name 1"
    by (rule demo_store)
  let ?m = "mt_put 4 (js ''c'') (js ''v'') False (new_mem_table 100)"
  let ?n = "mf_nextFileNumber (mf_state (st_manifest s))"
  have "storable_key (js ''c'')" "storable_value (js ''v'')"
    by (simp_all add: storable_key_def storable_value_def string_ok_js) (simp add: ascii_start_def js_def)
  then have m: "mem_storable ?m" by (simp add: mem_storable_put)
  then have minv: "mt_invar ?m" by (simp add: mem_storable_def)
  have fl: "flush_entries ?m = [demo_entry ''c'']"
    by (simp add: flush_entries_def to_sst_entry_def demo_entry_def mt_getAllSorted_def mt_put_def forget_size_def
        new_mem_table_def sm_entries_def sm_set_def new_map_def sm_get_def Let_def)
  obtain w where w: "sw_add_all (map to_sst_entry (mt_getAllSorted ?m)) (new_writer ?n demo_cfg) = Inr w"
    "sw_entries w = flush_entries ?m" "\<not> sw_built w" "sw_sparseIndex w = []"
    "sw_config w = demo_cfg" "sw_fileNumber w = ?n"
    by (rule sw_add_all_flush [OF minv, of ?n demo_cfg])
  define s1 where "s1 = s\<lparr>st_immutable := Some ?m, st_flush := Building w\<rparr>"
  have inv: "store_inv demo_env s1 d demo_tables"
    using s(1-5) w(2-6) m by (simp add: durable_def store_inv_parts s1_def flush_ok_def disk_tables_def)
  have "demo_entry ''c'' \<in> set (flush_entries ?m)" by (simp only: fl) simp
  then have "readable demo_env (demo_entry ''c'')" by (rule flush_entries_readable [OF m demo_env_ok(1)])
  then have "sst_entry_ok (demo_entry ''c'')" by (simp add: readable_def)
  moreover have "?n < 4294967296" using s(6) by (simp add: merge_fits_def)
  moreover have "length (data_bytes [demo_entry ''c'']) \<le> 2 ^ 52"
    by (simp add: data_bytes_def length_sst_entry_bytes sst_entrySize_def demo_entry_def utf8_js utf8_of_def)
  ultimately have tok: "table_ok (sw_fileNumber w) 5 (sw_entries w)"
    by (simp add: table_ok_def w(2,6) fl)
  obtain s2 d2 where f: "flush_step demo_env 5 s1 d = (s2, d2)" by fastforce
  have "st_flush s1 = Building w" by (simp add: s1_def)
  from build_step_inv [OF inv this tok f]
  obtain meta where b: "store_inv demo_env s2 d2 demo_tables" "st_flush s2 = Built meta"
    "store_view s2 demo_tables = store_view s1 demo_tables" by blast
  have s2: "s2 = s1\<lparr>st_flush := Built meta\<rparr>"
    using f b(2) by (auto simp: flush_step_def s1_def split: prod.splits sum.splits)
  have "mem_layer ?m (js ''c'') = Some (Some (js ''v''))"
    by (simp add: mem_layer_def getEntry_put entry_value_def)
  then have "store_view s1 demo_tables (js ''c'') = Some (js ''v'')"
    using s(9) by (simp add: store_view_def memory_layers_def s1_def view_Cons)
  then show thesis
    using b(3) s by (intro that [OF b(1,2)]) (simp_all add: s2 s1_def tables_listed_def merge_fits_def)
qed

section \<open>A store that took one write\<close>

definition demo_log_entry :: log_entry where
  "demo_log_entry = stamp (put_body (js ''k'') (js ''v'')) 0 9"

lemma one_put_run:
  obtains s0 d0 s d where
    "store_initialize demo_env 1 (new_store SYNC_EVERY_WRITE 1000 demo_cfg 0) empty_disk = Inr (s0, d0)"
    "store_put (env_mem demo_env) 9 (js ''k'') (js ''v'') s0 d0 = (Inr (), s, d)"
    "store_run demo_env (cautious refused) (s0, d0) [demo_log_entry] (s, d)"
    "store_run demo_env (\<lambda>s. True) (s0, d0) [demo_log_entry] (s, d)"
proof -
  obtain s0 d0 where s0: "store_initialize demo_env 1 (new_store SYNC_EVERY_WRITE 1000 demo_cfg 0) empty_disk = Inr (s0, d0)"
    "durable demo_env s0 d0 []" "wal_sequenceId (st_wal s0) = 0" "wal_syncPolicy (st_wal s0) = SYNC_EVERY_WRITE"
    by (rule fresh_start [OF demo_env_ok, of 1]) simp_all
  let ?b = "put_body (js ''k'') (js ''v'')"
  have e: "entry_ok (stamp ?b 0 9)" by (simp add: put_entry_ok)
  have inv: "store_inv demo_env s0 d0 []" using s0(2) by (simp add: durable_def)
  obtain s d where w: "store_write (env_mem demo_env) 9 ?b s0 d0 = (Inr (), s, d)"
    using store_write_total [OF inv, of ?b 9 "env_mem demo_env"] e s0(3) by auto
  have "storable_body ?b"
    unfolding storable_body_def
    by (rule disjI1, rule exI [of _ "js ''k''"], rule exI [of _ "js ''v''"])
      (simp add: storable_key_def storable_value_def string_ok_js, simp add: ascii_start_def js_def)
  then have ac: "acceptable (stamp ?b (wal_sequenceId (st_wal s0)) 9)"
    using e s0(3) by (simp add: acceptable_def loggable_def)
  have step: "store_step demo_env (s0, d0) [demo_log_entry] (s, d)"
    using step_write [OF s0(4) ac, of demo_env d0 "Inr ()" s d] w s0(3) by (simp add: demo_log_entry_def)
  have "wal_pendingWrites (st_wal s0) = []" using store_inv_log(4) [OF inv s0(4)] .
  moreover have "st_flush s0 \<noteq> Opened"
    using inv by (auto simp: store_inv_def flush_ok_def)
  ultimately have "store_run demo_env (cautious refused) (s0, d0) ([] @ [demo_log_entry]) (s, d)"
    by (intro run_step [OF run_refl _ step]) (simp_all add: cautious_def)
  moreover have "store_run demo_env (\<lambda>s. True) (s0, d0) ([] @ [demo_log_entry]) (s, d)"
    by (intro run_step [OF run_refl _ step]) simp
  ultimately show thesis using s0(1,4) w that by (simp add: store_put_def store_commit_def)
qed

end
