(* ===== verification/Framing.thy ===== *)
theory Framing
  imports JS_Buffer
begin

text \<open>
  Streams of framed messages, as TCPServer.ts, TCPClient.ts, ReplicationManager.ts and
  ReplicationServer.ts of src/src read them: data comes in chunks that need not respect the
  frames, is appended to a buffer, and a loop takes complete messages off its front. The
  contract of a message format is the locale \<open>framing\<close>; in it, however the stream is cut
  into chunks, the messages are handled once each and in order.
\<close>

section \<open>A connection\<close>

text \<open>
  The buffer that the closure of a connection keeps, what was written to the socket, and
  whether its end was announced.
\<close>

record connection =
  cn_buffer :: "byte list"
  cn_sent :: "byte list list"
  cn_ended :: bool

definition new_connection :: connection where
  "new_connection = \<lparr>cn_buffer = [], cn_sent = [], cn_ended = False\<rparr>"

text \<open>Nothing leaves a socket after \<open>end\<close>.\<close>

definition sock_write :: "byte list \<Rightarrow> connection \<Rightarrow> connection" where
  "sock_write bs c = (if cn_ended c then c else c\<lparr>cn_sent := cn_sent c @ [bs]\<rparr>)"

section \<open>The loop\<close>

text \<open>
  The loop over the buffer: \<open>parse\<close> gives a message and the number of bytes it takes, nothing
  if more data is needed, or throws; \<open>handle\<close> may throw as well. The result has the error
  that ended the loop, and what is left of the buffer. A message takes at least its four bytes
  of length, so the loop never stays where it is.
\<close>

function drain ::
  "(byte list \<Rightarrow> ('m \<times> nat) option res) \<Rightarrow> ('m \<Rightarrow> 's \<Rightarrow> unit res \<times> 's) \<Rightarrow> byte list \<Rightarrow> 's \<Rightarrow>
   js_error option \<times> byte list \<times> 's" where
  "drain parse handle buffer s =
     (case parse buffer of
        Inl err \<Rightarrow> (Some err, buffer, s)
      | Inr None \<Rightarrow> (None, buffer, s)
      | Inr (Some (m, bytesConsumed)) \<Rightarrow>
          (case handle m s of
             (Inl err, s) \<Rightarrow> (Some err, buffer, s)
           | (Inr u, s) \<Rightarrow>
               if bytesConsumed = 0 \<or> buffer = [] then (None, buffer, s)
               else drain parse handle (drop bytesConsumed buffer) s))"
  by pat_completeness auto
termination
  by (relation "measure (\<lambda>(parse, handle, buffer, s). length buffer)") auto

declare drain.simps [simp del]

text \<open>What every handler keeps, the loop keeps.\<close>

lemma drain_keeps:
  assumes "P s" "\<And>m s. P s \<Longrightarrow> P (snd (handle m s))"
  shows "P (snd (snd (drain parse handle buffer s)))"
  using assms
proof (induction parse handle buffer s rule: drain.induct)
  case (1 parse handle buffer s)
  show ?case
  proof (cases "parse buffer")
    case (Inr r)
    show ?thesis
    proof (cases r)
      case (Some p)
      obtain m n where p: "p = (m, n)" by fastforce
      obtain x s' where h: "handle m s = (x, s')" by fastforce
      then have "P s'" using 1(2) 1(3) [of s m] by simp
      then show ?thesis
        using 1(1) [OF Inr Some p [symmetric] h [symmetric]] 1(3) Inr Some p h
        by (subst drain.simps) (auto split: sum.split)
    qed (use 1(2) Inr in \<open>subst drain.simps, simp\<close>)
  qed (use 1(2) in \<open>subst drain.simps, simp\<close>)
qed

section \<open>The contract of a message format\<close>

text \<open>A part of an encoding cut off before its end.\<close>

definition partial_of :: "('m \<Rightarrow> byte list) \<Rightarrow> 'm set \<Rightarrow> byte list \<Rightarrow> bool" where
  "partial_of encode valid p \<longleftrightarrow> (\<exists>m\<in>valid. \<exists>n < length (encode m). p = take n (encode m))"

locale framing =
  fixes parse :: "byte list \<Rightarrow> ('m \<times> nat) option res"
    and encode :: "'m \<Rightarrow> byte list"
    and valid :: "'m set"
  assumes parse_whole: "m \<in> valid \<Longrightarrow> parse (encode m @ rest) = Inr (Some (m, length (encode m)))"
    and parse_part: "m \<in> valid \<Longrightarrow> n < length (encode m) \<Longrightarrow> parse (take n (encode m)) = Inr None"
    and encode_nonempty: "m \<in> valid \<Longrightarrow> encode m \<noteq> []"
    and parse_nothing: "parse [] = Inr None"
begin

definition stream :: "'m list \<Rightarrow> byte list" where
  "stream ms = concat (map encode ms)"

lemma stream_simps [simp]: "stream [] = []" "stream (m # ms) = encode m @ stream ms"
  "stream (xs @ ys) = stream xs @ stream ys"
  by (simp_all add: stream_def)

lemma drain_stream:
  assumes "set ms \<subseteq> valid" "p = [] \<or> partial_of encode valid p"
    and "\<And>m s. m \<in> valid \<Longrightarrow> handle m s = (Inr (), effect m s)"
  shows "drain parse handle (stream ms @ p) s = (None, p, fold effect ms s)"
  using assms(1)
proof (induction ms arbitrary: s)
  case Nil
  have "parse p = Inr None"
    using assms(2) parse_part parse_nothing by (auto simp: partial_of_def)
  then show ?case by (subst drain.simps) simp
next
  case (Cons m ms)
  then have m: "m \<in> valid" by simp
  then show ?case
    using Cons parse_whole [OF m, of "stream ms @ p"] assms(3) [OF m] encode_nonempty [OF m]
    by (subst drain.simps) (simp add: append_eq_append_conv2)
qed

text \<open>Any prefix of a stream is some of its messages and a part of the next.\<close>

lemma stream_prefix:
  assumes "set ms \<subseteq> valid" "stream ms = x @ y"
  obtains ms1 ms2 p where "ms = ms1 @ ms2" "x = stream ms1 @ p" "p @ y = stream ms2"
    "p = [] \<or> partial_of encode valid p"
proof -
  have "\<exists>ms1 ms2 p. ms = ms1 @ ms2 \<and> x = stream ms1 @ p \<and> p @ y = stream ms2 \<and>
      (p = [] \<or> partial_of encode valid p)"
    using assms
  proof (induction ms arbitrary: x)
    case Nil
    then show ?case by simp
  next
    case (Cons m ms)
    show ?case
    proof (cases "length (encode m) \<le> length x")
      case True
      then obtain x' where x: "x = encode m @ x'" "stream ms = x' @ y"
        using Cons.prems(2) by (auto simp: append_eq_append_conv2)
      obtain ms1 ms2 p where "ms = ms1 @ ms2" "x' = stream ms1 @ p" "p @ y = stream ms2"
        "p = [] \<or> partial_of encode valid p"
        using Cons.IH [OF _ x(2)] Cons.prems(1) by auto
      then show ?thesis
        by (intro exI [of _ "m # ms1"] exI [of _ ms2] exI [of _ p]) (simp add: x(1))
    next
      case False
      have "x = take (length x) (encode m @ stream ms)" using Cons.prems(2) by simp
      then have "x = take (length x) (encode m)" using False by simp
      then have "partial_of encode valid x"
        using False Cons.prems(1) unfolding partial_of_def by (intro bexI [of _ m] exI [of _ "length x"]) auto
      then show ?thesis
        using Cons.prems(2) by (intro exI [of _ "[]"] exI [of _ "m # ms"] exI [of _ x]) simp
    qed
  qed
  then show thesis using that by blast
qed

text \<open>
  However the stream is cut into chunks, every message is handled once, in order. The buffer is
  a field of the reader's state (\<open>get\<close>, \<open>put\<close>) that the handlers do not touch.
\<close>

lemma chunks_in_order:
  assumes "set ms \<subseteq> valid" "get st @ concat chunks = stream ms" "get st = [] \<or> partial_of encode valid (get st)"
    and handle: "\<And>m st. m \<in> valid \<Longrightarrow> handle m st = (Inr (), effect m st)"
    and step: "\<And>chunk st rest st'. drain parse handle (get st @ chunk) st = (None, rest, st') \<Longrightarrow> step chunk st = put rest st'"
    and buffer: "\<And>b st. get (put b st) = b" "\<And>b b' st. put b (put b' st) = put b st" "\<And>st. put (get st) st = st"
    and frame: "\<And>m b st. m \<in> valid \<Longrightarrow> effect m (put b st) = put b (effect m st)"
  shows "fold step chunks st = put [] (fold effect ms st)"
  using assms(1-3)
proof (induction chunks arbitrary: ms st)
  case Nil
  have "ms = []"
  proof (cases ms)
    case (Cons m ms')
    have "get st \<noteq> []" using Nil Cons encode_nonempty by auto
    then obtain m' n where part: "m' \<in> valid" "n < length (encode m')" "get st = take n (encode m')"
      using Nil.prems(3) by (auto simp: partial_of_def)
    have "parse (encode m @ stream ms') = Inr None" using parse_part [OF part(1,2)] part(3) Nil.prems(2) Cons by simp
    then show ?thesis using parse_whole [of m "stream ms'"] Nil.prems(1) Cons by simp
  qed simp
  then show ?case using Nil.prems(2) buffer(3) [of st] by simp
next
  case (Cons chunk chunks)
  obtain ms1 ms2 q where q: "ms = ms1 @ ms2" "get st @ chunk = stream ms1 @ q" "q @ concat chunks = stream ms2"
    "q = [] \<or> partial_of encode valid q"
    by (rule stream_prefix [OF Cons.prems(1), of "get st @ chunk" "concat chunks"]) (use Cons.prems(2) in simp_all)
  have "drain parse handle (get st @ chunk) st = (None, q, fold effect ms1 st)"
    unfolding q(2) using Cons.prems(1) q(1,4) handle by (intro drain_stream) auto
  then have "step chunk st = put q (fold effect ms1 st)" by (rule step)
  moreover have "fold step chunks (put q (fold effect ms1 st)) = put [] (fold effect ms2 (put q (fold effect ms1 st)))"
    using Cons.prems(1) q by (intro Cons.IH) (simp_all add: buffer)
  moreover have "set ns \<subseteq> valid \<Longrightarrow> fold effect ns (put q x) = put q (fold effect ns x)" for ns x
    by (induction ns arbitrary: x) (simp_all add: frame)
  ultimately show ?case using Cons.prems(1) by (simp add: q(1) buffer)
qed

end

end
