(* ===== verification/TCP_Protocol.thy ===== *)
theory TCP_Protocol
  imports Framing Log_Codec
begin

text \<open>
  The message format of the streaming interface, src/src/server/TCPProtocol.ts: a length, an
  opcode and a payload. Parsing works on the front of the connection's buffer; it is an
  instance of the contract \<open>framing\<close>.
\<close>

section \<open>Messages\<close>

text \<open>The status of an acknowledgement is the byte that was sent; the enum names 0 and 1.\<close>

datatype tcp_message =
  StreamPut jstring jstring
| Ack nat "jstring option"
| EndStream
| ErrorMsg jstring

definition STREAM_PUT :: nat where "STREAM_PUT = 1"
definition ACK :: nat where "ACK = 2"
definition END_STREAM :: nat where "END_STREAM = 3"
definition ERROR :: nat where "ERROR = 4"

definition ACK_OK :: nat where "ACK_OK = 0"
definition ACK_ERROR :: nat where "ACK_ERROR = 1"

fun tcp_opcode :: "tcp_message \<Rightarrow> nat" where
  "tcp_opcode (StreamPut k v) = STREAM_PUT"
| "tcp_opcode (Ack st msg) = ACK"
| "tcp_opcode EndStream = END_STREAM"
| "tcp_opcode (ErrorMsg msg) = ERROR"

section \<open>Serialisation\<close>

definition serializeStreamPut :: "(nat \<Rightarrow> byte) \<Rightarrow> jstring \<Rightarrow> jstring \<Rightarrow> byte list res" where
  "serializeStreamPut mem key v =
     (let payloadSize = 1 + 2 + length (utf8 key) + 4 + length (utf8 v) in
      serialize_writes mem (4 + payloadSize)
        [WU32 payloadSize, WU8 STREAM_PUT, WU16 (length (utf8 key)), WBytes (utf8 key),
         WU32 (length (utf8 v)), WBytes (utf8 v)])"

text \<open>An absent message and an empty one are written alike.\<close>

definition serializeAck :: "(nat \<Rightarrow> byte) \<Rightarrow> nat \<Rightarrow> jstring option \<Rightarrow> byte list res" where
  "serializeAck mem st msg =
     (if falsy msg then serialize_writes mem (4 + 2) [WU32 2, WU8 ACK, WU8 st]
      else
        let msgBuf = utf8 (the msg); payloadSize = 1 + 1 + (2 + length msgBuf) in
        serialize_writes mem (4 + payloadSize)
          [WU32 payloadSize, WU8 ACK, WU8 st, WU16 (length msgBuf), WBytes msgBuf])"

definition serializeEndStream :: "(nat \<Rightarrow> byte) \<Rightarrow> byte list res" where
  "serializeEndStream mem = serialize_writes mem 5 [WU32 1, WU8 END_STREAM]"

definition serializeError :: "(nat \<Rightarrow> byte) \<Rightarrow> jstring \<Rightarrow> byte list res" where
  "serializeError mem msg =
     (let msgBuf = utf8 msg; payloadSize = 1 + 2 + length msgBuf in
      serialize_writes mem (4 + payloadSize)
        [WU32 payloadSize, WU8 ERROR, WU16 (length msgBuf), WBytes msgBuf])"

section \<open>Parsing\<close>

text \<open>Strings are read from the whole buffer: a length field may reach past its own frame.\<close>

definition parseStreamPut :: "buffer \<Rightarrow> nat \<Rightarrow> (tcp_message \<times> nat) res" where
  "parseStreamPut b len =
     bind_res (readUInt16BE b 5) (\<lambda>keyLen.
     let key = to_string b 7 (7 + keyLen) in
     bind_res (readUInt32BE b (7 + keyLen)) (\<lambda>valueLen.
     Inr (StreamPut key (to_string b (7 + keyLen + 4) (7 + keyLen + 4 + valueLen)), 4 + len)))"

definition parseAck :: "buffer \<Rightarrow> nat \<Rightarrow> (tcp_message \<times> nat) res" where
  "parseAck b len =
     bind_res (readUInt8 b 5) (\<lambda>st.
     if 2 < len then
       bind_res (readUInt16BE b 6) (\<lambda>msgLen. Inr (Ack st (Some (to_string b 8 (8 + msgLen))), 4 + len))
     else Inr (Ack st None, 4 + len))"

definition parseError :: "buffer \<Rightarrow> nat \<Rightarrow> (tcp_message \<times> nat) res" where
  "parseError b len =
     bind_res (readUInt16BE b 5) (\<lambda>msgLen. Inr (ErrorMsg (to_string b 7 (7 + msgLen)), 4 + len))"

definition tcp_parseMessage :: "buffer \<Rightarrow> (tcp_message \<times> nat) option res" where
  "tcp_parseMessage b =
     (if blen b < 5 then Inr None
      else
        bind_res (readUInt32BE b 0) (\<lambda>len.
        let totalSize = 4 + len in
        if blen b < totalSize then Inr None
        else
          bind_res (readUInt8 b 4) (\<lambda>opcode.
          if opcode = STREAM_PUT then bind_res (parseStreamPut b len) (\<lambda>r. Inr (Some r))
          else if opcode = ACK then bind_res (parseAck b len) (\<lambda>r. Inr (Some r))
          else if opcode = END_STREAM then Inr (Some (EndStream, totalSize))
          else if opcode = ERROR then bind_res (parseError b len) (\<lambda>r. Inr (Some r))
          else Inl (UnknownOpcode opcode))))"

section \<open>Round trip\<close>

text \<open>The writes of a message, after its length field.\<close>

fun tcp_payload :: "tcp_message \<Rightarrow> wop list" where
  "tcp_payload (StreamPut k v) = WU8 STREAM_PUT # put_writes k v"
| "tcp_payload (Ack st None) = [WU8 ACK, WU8 st]"
| "tcp_payload (Ack st (Some msg)) = [WU8 ACK, WU8 st, WU16 (length (utf8 msg)), WBytes (utf8 msg)]"
| "tcp_payload EndStream = [WU8 END_STREAM]"
| "tcp_payload (ErrorMsg msg) = [WU8 ERROR, WU16 (length (utf8 msg)), WBytes (utf8 msg)]"

definition tcp_bytes :: "tcp_message \<Rightarrow> byte list" where
  "tcp_bytes m = be_bytes 4 (wops_size (tcp_payload m)) @ wops_bytes (tcp_payload m)"

text \<open>Messages whose fields fit.\<close>

fun tcp_ok :: "tcp_message \<Rightarrow> bool" where
  "tcp_ok (StreamPut k v) \<longleftrightarrow> key_ok k \<and> value_ok v \<and> 7 + length (utf8 k) + length (utf8 v) < 4294967296"
| "tcp_ok (Ack st None) \<longleftrightarrow> st < 256"
| "tcp_ok (Ack st (Some msg)) \<longleftrightarrow> st < 256 \<and> msg \<noteq> empty_string \<and> string_ok 65536 msg"
| "tcp_ok EndStream \<longleftrightarrow> True"
| "tcp_ok (ErrorMsg msg) \<longleftrightarrow> string_ok 65536 msg"

lemmas opcode_defs = STREAM_PUT_def ACK_def END_STREAM_def ERROR_def

fun serialize_tcp :: "(nat \<Rightarrow> byte) \<Rightarrow> tcp_message \<Rightarrow> byte list res" where
  "serialize_tcp mem (StreamPut k v) = serializeStreamPut mem k v"
| "serialize_tcp mem (Ack st msg) = serializeAck mem st msg"
| "serialize_tcp mem EndStream = serializeEndStream mem"
| "serialize_tcp mem (ErrorMsg msg) = serializeError mem msg"

lemma serialize_tcp_ok: "tcp_ok m \<Longrightarrow> serialize_tcp mem m = Inr (tcp_bytes m)"
  by (cases m rule: tcp_payload.cases)
    (simp_all add: serializeStreamPut_def serializeAck_def serializeEndStream_def serializeError_def falsy_def Let_def
      serialize_writes_eq tcp_bytes_def put_writes_def string_ok_def opcode_defs add.assoc numeral_2_eq_2)

lemma tcp_no_skip: "WSkip n \<notin> set (tcp_payload m)"
  by (cases m rule: tcp_payload.cases) auto

lemma length_tcp_bytes: "length (tcp_bytes m) = 4 + wops_size (tcp_payload m)"
  using tcp_no_skip [of _ m] by (simp add: tcp_bytes_def length_wops_bytes)

lemma tcp_size: "tcp_ok m \<Longrightarrow> wops_size (tcp_payload m) < 4294967296"
  by (cases m rule: tcp_payload.cases; simp add: string_ok_def)

lemma tcp_size_pos: "1 \<le> wops_size (tcp_payload m)"
  by (cases m rule: tcp_payload.cases; simp)

lemma tcp_header:
  assumes "tcp_ok m" "holds_at b 0 (tcp_bytes m)"
  shows "readUInt32BE b 0 = Inr (wops_size (tcp_payload m))" "holds_at b 4 (wops_bytes (tcp_payload m))"
    "\<not> blen b < 4 + wops_size (tcp_payload m)" "\<not> blen b < 5"
proof -
  have h: "holds_at b 0 (be_bytes 4 (wops_size (tcp_payload m)))" "holds_at b 4 (wops_bytes (tcp_payload m))"
    using assms(2) by (simp_all add: tcp_bytes_def holds_at_append)
  then show "readUInt32BE b 0 = Inr (wops_size (tcp_payload m))" "holds_at b 4 (wops_bytes (tcp_payload m))"
    using tcp_size [OF assms(1)] by (simp_all add: read_uint_be)
  show "\<not> blen b < 4 + wops_size (tcp_payload m)"
    using holds_at_blen [OF assms(2)] by (simp add: length_tcp_bytes)
  then show "\<not> blen b < 5" using tcp_size_pos [of m] by simp
qed

lemma tcp_parse_holds:
  assumes "tcp_ok m" "holds_at b 0 (tcp_bytes m)"
  shows "tcp_parseMessage b = Inr (Some (m, length (tcp_bytes m)))"
proof -
  note h = tcp_header [OF assms]
  show ?thesis
  proof (cases m rule: tcp_payload.cases)
    case (1 k v)
    have "holds_at b 4 (be_bytes 1 STREAM_PUT)" "holds_at b 5 (be_bytes 2 (length (utf8 k)))" "holds_at b 7 (utf8 k)"
      "holds_at b (7 + length (utf8 k)) (be_bytes 4 (length (utf8 v)))" "holds_at b (7 + length (utf8 k) + 4) (utf8 v)"
      using h(2) 1 by (simp_all add: holds_at_append put_writes_def add.assoc)
    then show ?thesis
      using h(1,3,4) assms(1) 1
      by (simp add: tcp_parseMessage_def parseStreamPut_def read_uint_be to_string_holds string_ok_def Let_def
          opcode_defs length_tcp_bytes)
  next
    case (2 st)
    have "holds_at b 4 (be_bytes 1 ACK)" "holds_at b 5 (be_bytes 1 st)"
      using h(2) 2 by (simp_all add: holds_at_append)
    then show ?thesis
      using h(1,3,4) assms(1) 2
      by (simp add: tcp_parseMessage_def parseAck_def read_uint_be Let_def opcode_defs length_tcp_bytes)
  next
    case (3 st msg)
    have "holds_at b 4 (be_bytes 1 ACK)" "holds_at b 5 (be_bytes 1 st)" "holds_at b 6 (be_bytes 2 (length (utf8 msg)))"
      "holds_at b 8 (utf8 msg)"
      using h(2) 3 by (simp_all add: holds_at_append)
    then show ?thesis
      using h(1,3,4) assms(1) 3
      by (simp add: tcp_parseMessage_def parseAck_def read_uint_be to_string_holds string_ok_def Let_def opcode_defs
          length_tcp_bytes)
  next
    case 4
    have "holds_at b 4 (be_bytes 1 END_STREAM)" using h(2) 4 by (simp add: holds_at_append)
    then show ?thesis
      using h(1,3,4) assms(1) 4
      by (simp add: tcp_parseMessage_def read_uint_be Let_def opcode_defs length_tcp_bytes)
  next
    case (5 msg)
    have "holds_at b 4 (be_bytes 1 ERROR)" "holds_at b 5 (be_bytes 2 (length (utf8 msg)))" "holds_at b 7 (utf8 msg)"
      using h(2) 5 by (simp_all add: holds_at_append)
    then show ?thesis
      using h(1,3,4) assms(1) 5
      by (simp add: tcp_parseMessage_def parseError_def read_uint_be to_string_holds string_ok_def Let_def opcode_defs
          length_tcp_bytes)
  qed
qed

lemma tcp_parse_part:
  assumes "tcp_ok m" "n < length (tcp_bytes m)"
  shows "tcp_parseMessage (of_bytes (take n (tcp_bytes m))) = Inr None"
proof (cases "n < 5")
  case True
  then show ?thesis by (simp add: tcp_parseMessage_def min_def)
next
  case False
  have "take n (tcp_bytes m) = be_bytes 4 (wops_size (tcp_payload m)) @ take (n - 4) (wops_bytes (tcp_payload m))"
    using False by (simp add: tcp_bytes_def)
  then have "readUInt32BE (of_bytes (take n (tcp_bytes m))) 0 = Inr (wops_size (tcp_payload m))"
    using tcp_size [OF assms(1)] holds_at_prefix by (intro read_uint_be) simp_all
  then show ?thesis
    using assms(2) False by (simp add: tcp_parseMessage_def length_tcp_bytes)
qed

interpretation tcp: framing "\<lambda>bs. tcp_parseMessage (of_bytes bs)" tcp_bytes "Collect tcp_ok"
proof
  fix m :: tcp_message and rest n
  assume m: "m \<in> Collect tcp_ok"
  then show "tcp_parseMessage (of_bytes (tcp_bytes m @ rest)) = Inr (Some (m, length (tcp_bytes m)))"
    using holds_at_prefix by (intro tcp_parse_holds) simp_all
  show "n < length (tcp_bytes m) \<Longrightarrow> tcp_parseMessage (of_bytes (take n (tcp_bytes m))) = Inr None"
    using m by (intro tcp_parse_part) simp_all
  show "tcp_bytes m \<noteq> []" using length_tcp_bytes [of m] by auto
qed (simp add: tcp_parseMessage_def)

end
