(* ===== verification/TCP_Link.thy ===== *)
theory TCP_Link
  imports TCP_Protocol
begin

text \<open>
  Both ends of the streaming interface: the server of src/src/server/TCPServer.ts and the
  client of src/src/server/TCPClient.ts. The storage engine behind the server is its \<open>put\<close>,
  an argument on any state; the text of an error is an argument too.
\<close>

section \<open>A connection of the server\<close>

type_synonym 's put_op = "jstring \<Rightarrow> jstring \<Rightarrow> 's \<Rightarrow> unit res \<times> 's"

definition handleStreamPut ::
  "'s put_op \<Rightarrow> (js_error \<Rightarrow> jstring) \<Rightarrow> (nat \<Rightarrow> byte) \<Rightarrow> jstring \<Rightarrow> jstring \<Rightarrow> 's \<times> connection \<Rightarrow>
   unit res \<times> 's \<times> connection" where
  "handleStreamPut put err_text mem key v = (\<lambda>(s, c).
     case put key v s of
       (r, s) \<Rightarrow>
         (case bind_res r (\<lambda>u. serializeAck mem ACK_OK None) of
            Inr bs \<Rightarrow> (Inr (), s, sock_write bs c)
          | Inl err \<Rightarrow>
              (case serializeAck mem ACK_ERROR (Some (err_text err)) of
                 Inr bs \<Rightarrow> (Inr (), s, sock_write bs c)
               | Inl err \<Rightarrow> (Inl err, s, c))))"

definition handleEndStream :: "(nat \<Rightarrow> byte) \<Rightarrow> 's \<times> connection \<Rightarrow> unit res \<times> 's \<times> connection" where
  "handleEndStream mem = (\<lambda>(s, c).
     case serializeAck mem ACK_OK None of
       Inl err \<Rightarrow> (Inl err, s, c)
     | Inr bs \<Rightarrow> (Inr (), s, (sock_write bs c)\<lparr>cn_ended := True\<rparr>))"

definition unexpected_opcode :: "nat \<Rightarrow> jstring" where
  "unexpected_opcode n = js_append (js ''Unexpected opcode: '') (js (decimal n))"

definition handleMessage ::
  "'s put_op \<Rightarrow> (js_error \<Rightarrow> jstring) \<Rightarrow> (nat \<Rightarrow> byte) \<Rightarrow> tcp_message \<Rightarrow> 's \<times> connection \<Rightarrow>
   unit res \<times> 's \<times> connection" where
  "handleMessage put err_text mem m sc =
     (case m of
        StreamPut key v \<Rightarrow> handleStreamPut put err_text mem key v sc
      | EndStream \<Rightarrow> handleEndStream mem sc
      | _ \<Rightarrow>
          (case serializeError mem (unexpected_opcode (tcp_opcode m)) of
             Inl err \<Rightarrow> (Inl err, sc)
           | Inr bs \<Rightarrow> (Inr (), apsnd (sock_write bs) sc)))"

definition processBuffer ::
  "'s put_op \<Rightarrow> (js_error \<Rightarrow> jstring) \<Rightarrow> (nat \<Rightarrow> byte) \<Rightarrow> byte list \<Rightarrow> 's \<times> connection \<Rightarrow>
   js_error option \<times> byte list \<times> 's \<times> connection" where
  "processBuffer put err_text mem =
     drain (\<lambda>bs. tcp_parseMessage (of_bytes bs)) (handleMessage put err_text mem)"

text \<open>
  The handler of \<open>data\<close>. The buffer is cut only when the loop ends without an error. An error
  of the \<open>catch\<close> itself leaves the handler (\<open>Inl\<close>): nobody takes it.
\<close>

definition server_on_data ::
  "'s put_op \<Rightarrow> (js_error \<Rightarrow> jstring) \<Rightarrow> (nat \<Rightarrow> byte) \<Rightarrow> byte list \<Rightarrow> 's \<times> connection \<Rightarrow> ('s \<times> connection) res" where
  "server_on_data put err_text mem chunk = (\<lambda>(s, c).
     let buffer = cn_buffer c @ chunk in
     case processBuffer put err_text mem buffer (s, c) of
       (None, remaining, s, c) \<Rightarrow> Inr (s, c\<lparr>cn_buffer := remaining\<rparr>)
     | (Some err, remaining, s, c) \<Rightarrow>
         bind_res (serializeError mem (err_text err)) (\<lambda>bs. Inr (s, sock_write bs (c\<lparr>cn_buffer := buffer\<rparr>))))"

section \<open>The server\<close>

record tcp_server =
  ts_started :: bool
  ts_connections :: "(nat \<times> connection) list"

definition new_tcp_server :: tcp_server where
  "new_tcp_server = \<lparr>ts_started = False, ts_connections = []\<rparr>"

text \<open>The flag, that there is a server, stays set when it cannot listen.\<close>

definition tcp_start ::
  "(int list \<Rightarrow> int) \<Rightarrow> int \<Rightarrow> int list \<Rightarrow> tcp_server \<Rightarrow> unit res \<times> int list \<times> tcp_server" where
  "tcp_start pick port ports t =
     (if ts_started t then (Inl AlreadyStarted, ports, t)
      else (case listen_on pick port ports of (r, ports) \<Rightarrow> (r, ports, t\<lparr>ts_started := True\<rparr>)))"

text \<open>\<open>stop\<close> at the end of its await.\<close>

definition tcp_stop :: "tcp_server \<Rightarrow> tcp_server" where
  "tcp_stop t = (if \<not> ts_started t then t else \<lparr>ts_started = False, ts_connections = []\<rparr>)"

definition getConnectionCount :: "tcp_server \<Rightarrow> nat" where
  "getConnectionCount t = length (ts_connections t)"

definition handleConnection :: "nat \<Rightarrow> tcp_server \<Rightarrow> tcp_server" where
  "handleConnection i t = t\<lparr>ts_connections := ts_connections t @ [(i, new_connection)]\<rparr>"

text \<open>\<open>close\<close> and \<open>error\<close> of a socket.\<close>

definition connection_gone :: "nat \<Rightarrow> tcp_server \<Rightarrow> tcp_server" where
  "connection_gone i t = t\<lparr>ts_connections := filter (\<lambda>p. fst p \<noteq> i) (ts_connections t)\<rparr>"

section \<open>The client\<close>

text \<open>
  A request waits for its acknowledgement under a number of its own; \<open>tc_settled\<close> has what
  became of the requests so far: the acknowledgement, or the text of the error.
\<close>

type_synonym ack = "nat \<times> jstring option"

record tcp_client =
  tc_connected :: bool
  tc_buffer :: "byte list"
  tc_pendingAcks :: "nat list"
  tc_requests :: nat
  tc_settled :: "(nat \<times> (jstring + ack)) list"
  tc_sent :: "byte list list"

definition new_tcp_client :: tcp_client where
  "new_tcp_client = \<lparr>tc_connected = False, tc_buffer = [], tc_pendingAcks = [], tc_requests = 0,
     tc_settled = [], tc_sent = []\<rparr>"

text \<open>\<open>connect\<close> up to its await: a new socket, the old buffer.\<close>

definition client_connect :: "tcp_client \<Rightarrow> tcp_client res" where
  "client_connect c = (if tc_connected c then Inl AlreadyConnected else Inr (c\<lparr>tc_sent := []\<rparr>))"

definition client_on_connect :: "tcp_client \<Rightarrow> tcp_client" where
  "client_on_connect c = c\<lparr>tc_connected := True\<rparr>"

definition client_ensureConnected :: "tcp_client \<Rightarrow> unit res" where
  "client_ensureConnected c = (if tc_connected c then Inr () else Inl NotConnected)"

definition waitForAck :: "tcp_client \<Rightarrow> tcp_client" where
  "waitForAck c = c\<lparr>tc_pendingAcks := tc_pendingAcks c @ [tc_requests c], tc_requests := tc_requests c + 1\<rparr>"

text \<open>\<open>put\<close> and \<open>endStream\<close> up to the point where they wait.\<close>

definition client_put :: "(nat \<Rightarrow> byte) \<Rightarrow> jstring \<Rightarrow> jstring \<Rightarrow> tcp_client \<Rightarrow> tcp_client res" where
  "client_put mem key v c =
     bind_res (client_ensureConnected c) (\<lambda>u.
     bind_res (serializeStreamPut mem key v) (\<lambda>bs.
     Inr (waitForAck (c\<lparr>tc_sent := tc_sent c @ [bs]\<rparr>))))"

definition client_endStream :: "(nat \<Rightarrow> byte) \<Rightarrow> tcp_client \<Rightarrow> tcp_client res" where
  "client_endStream mem c =
     bind_res (client_ensureConnected c) (\<lambda>u.
     bind_res (serializeEndStream mem) (\<lambda>bs.
     Inr (waitForAck (c\<lparr>tc_sent := tc_sent c @ [bs]\<rparr>))))"

text \<open>How \<open>put\<close> ends when its wait is over.\<close>

definition put_result :: "jstring + ack \<Rightarrow> jstring + unit" where
  "put_result r =
     (case r of
        Inl text \<Rightarrow> Inl text
      | Inr (st, msg) \<Rightarrow>
          if st \<noteq> ACK_OK then Inl (case msg of Some m \<Rightarrow> m | None \<Rightarrow> js ''Write failed'') else Inr ())"

definition settle :: "jstring + ack \<Rightarrow> tcp_client \<Rightarrow> tcp_client" where
  "settle r c =
     (case tc_pendingAcks c of
        [] \<Rightarrow> c
      | i # rest \<Rightarrow> c\<lparr>tc_pendingAcks := rest, tc_settled := tc_settled c @ [(i, r)]\<rparr>)"

definition client_message :: "tcp_message \<Rightarrow> tcp_client \<Rightarrow> unit res \<times> tcp_client" where
  "client_message m c =
     (Inr (),
      case m of
        Ack st msg \<Rightarrow> settle (Inr (st, msg)) c
      | ErrorMsg text \<Rightarrow> settle (Inl text) c
      | _ \<Rightarrow> c)"

text \<open>\<open>handleData\<close>; an error of the parser leaves the handler, with the buffer cut up to it.\<close>

definition client_handleData :: "byte list \<Rightarrow> tcp_client \<Rightarrow> js_error option \<times> tcp_client" where
  "client_handleData chunk c =
     (case drain (\<lambda>bs. tcp_parseMessage (of_bytes bs)) client_message (tc_buffer c @ chunk) c of
        (err, buffer, c) \<Rightarrow> (err, c\<lparr>tc_buffer := buffer\<rparr>))"

definition rejectAllPending :: "jstring \<Rightarrow> tcp_client \<Rightarrow> tcp_client" where
  "rejectAllPending text c =
     c\<lparr>tc_settled := tc_settled c @ map (\<lambda>i. (i, Inl text)) (tc_pendingAcks c), tc_pendingAcks := []\<rparr>"

definition client_on_error :: "jstring \<Rightarrow> tcp_client \<Rightarrow> tcp_client" where
  "client_on_error text = rejectAllPending text"

definition client_on_close :: "tcp_client \<Rightarrow> tcp_client" where
  "client_on_close c = rejectAllPending (js ''Connection closed'') (c\<lparr>tc_connected := False\<rparr>)"

definition client_on_timeout :: "tcp_client \<Rightarrow> tcp_client" where
  "client_on_timeout = rejectAllPending (js ''Connection timeout'')"

definition client_disconnect :: "tcp_client \<Rightarrow> tcp_client" where
  "client_disconnect c = (if tc_connected c then c\<lparr>tc_connected := False\<rparr> else c)"

text \<open>
  \<open>streamPut\<close>: one \<open>put\<close> after the other. \<open>reply\<close> is what the rest of the world makes of a
  request: the outcome of its wait and the client after it.
\<close>

fun streamPut_from ::
  "(nat \<Rightarrow> byte) \<Rightarrow> (tcp_client \<times> 'w \<Rightarrow> (jstring + ack) \<times> tcp_client \<times> 'w) \<Rightarrow> (jstring \<times> jstring) list \<Rightarrow>
   tcp_client \<times> 'w \<Rightarrow> nat \<Rightarrow> ((js_error + jstring) + nat) \<times> tcp_client \<times> 'w" where
  "streamPut_from mem reply [] cw successCount = (Inr successCount, cw)"
| "streamPut_from mem reply ((key, v) # entries) (c, w) successCount =
     (case client_put mem key v c of
        Inl err \<Rightarrow> (Inl (Inl err), c, w)
      | Inr c \<Rightarrow>
          (case reply (c, w) of
             (r, cw) \<Rightarrow>
               (case put_result r of
                  Inl text \<Rightarrow> (Inl (Inr text), cw)
                | Inr u \<Rightarrow> streamPut_from mem reply entries cw (successCount + 1))))"

definition streamPut ::
  "(nat \<Rightarrow> byte) \<Rightarrow> (tcp_client \<times> 'w \<Rightarrow> (jstring + ack) \<times> tcp_client \<times> 'w) \<Rightarrow> (jstring \<times> jstring) list \<Rightarrow>
   tcp_client \<times> 'w \<Rightarrow> ((js_error + jstring) + nat) \<times> tcp_client \<times> 'w" where
  "streamPut mem reply entries cw =
     (case client_ensureConnected (fst cw) of
        Inl err \<Rightarrow> (Inl (Inl err), cw)
      | Inr u \<Rightarrow> streamPut_from mem reply entries cw 0)"

section \<open>The server handles every message once, in order\<close>

text \<open>What a stream of puts does: the puts, and an acknowledgement for each.\<close>

definition put_ack :: "(js_error \<Rightarrow> jstring) \<Rightarrow> unit res \<Rightarrow> tcp_message" where
  "put_ack err_text r =
     (case r of Inr u \<Rightarrow> Ack ACK_OK None
      | Inl err \<Rightarrow> Ack ACK_ERROR (if err_text err = empty_string then None else Some (err_text err)))"

definition texts_ok :: "(js_error \<Rightarrow> jstring) \<Rightarrow> bool" where
  "texts_ok err_text \<longleftrightarrow> (\<forall>e. string_ok 65536 (err_text e))"

lemma put_ack_ok: "texts_ok err_text \<Longrightarrow> tcp_ok (put_ack err_text r)"
  by (auto simp: put_ack_def texts_ok_def ACK_OK_def ACK_ERROR_def split: sum.split)

lemma serializeAck_empty: "serializeAck mem st (Some empty_string) = serializeAck mem st None"
  by (simp add: serializeAck_def falsy_def)

lemma handleStreamPut_ok:
  assumes "texts_ok err_text"
  shows "handleStreamPut put err_text mem key v (s, c) =
    (Inr (), snd (put key v s), sock_write (tcp_bytes (put_ack err_text (fst (put key v s)))) c)"
proof -
  obtain r s' where p: "put key v s = (r, s')" by fastforce
  have ack: "serializeAck mem st msg = Inr (tcp_bytes (Ack st msg))" if "tcp_ok (Ack st msg)" for st msg
    using serialize_tcp_ok [OF that, of mem] by simp
  note ok = put_ack_ok [OF assms, of r]
  show ?thesis
  proof (cases r)
    case (Inl err)
    then show ?thesis
      using p ok ack by (auto simp: handleStreamPut_def put_ack_def serializeAck_empty)
  next
    case (Inr u)
    then show ?thesis
      using p ok ack by (simp add: handleStreamPut_def put_ack_def)
  qed
qed

fun run_puts :: "'s put_op \<Rightarrow> (jstring \<times> jstring) list \<Rightarrow> 's \<Rightarrow> unit res list \<times> 's" where
  "run_puts put [] s = ([], s)"
| "run_puts put ((k, v) # kvs) s =
     (case put k v s of (r, s) \<Rightarrow> (case run_puts put kvs s of (rs, s) \<Rightarrow> (r # rs, s)))"

definition put_message :: "jstring \<times> jstring \<Rightarrow> tcp_message" where
  "put_message p = StreamPut (fst p) (snd p)"

lemma sock_write_buffer: "sock_write bs (c\<lparr>cn_buffer := b\<rparr>) = (sock_write bs c)\<lparr>cn_buffer := b\<rparr>"
  by (simp add: sock_write_def)

lemma handleStreamPut_frame:
  assumes "texts_ok err_text"
  shows "handleStreamPut put err_text mem key v (s, c\<lparr>cn_buffer := b\<rparr>) =
    apsnd (apsnd (\<lambda>c. c\<lparr>cn_buffer := b\<rparr>)) (handleStreamPut put err_text mem key v (s, c))"
  by (simp add: handleStreamPut_ok [OF assms] sock_write_buffer)

lemma unexpected_ok: "tcp_ok m \<Longrightarrow> string_ok 65536 (unexpected_opcode (tcp_opcode m))"
proof -
  have msg: "unexpected_opcode n = js (''Unexpected opcode: '' @ decimal n)" for n
    by (simp add: unexpected_opcode_def js_append_def js_def)
  have "length (decimal (tcp_opcode m)) = 1"
    by (cases m) (simp_all add: opcode_defs decimal.simps)
  then show ?thesis unfolding msg by (intro string_ok_js) simp
qed

lemma handleMessage_ok:
  assumes "texts_ok err_text" "tcp_ok m"
  shows "fst (handleMessage put err_text mem m sc) = Inr ()"
    and "snd (handleMessage put err_text mem m (s, c\<lparr>cn_buffer := b\<rparr>)) =
      apsnd (\<lambda>c. c\<lparr>cn_buffer := b\<rparr>) (snd (handleMessage put err_text mem m (s, c)))"
proof -
  have err: "serializeError mem (unexpected_opcode (tcp_opcode m)) = Inr (tcp_bytes (ErrorMsg (unexpected_opcode (tcp_opcode m))))"
    using serialize_tcp_ok [of "ErrorMsg (unexpected_opcode (tcp_opcode m))" mem] unexpected_ok [OF assms(2)] by simp
  have ack: "serializeAck mem ACK_OK None = Inr (tcp_bytes (Ack ACK_OK None))"
    using serialize_tcp_ok [of "Ack ACK_OK None" mem] by (simp add: ACK_OK_def)
  show "fst (handleMessage put err_text mem m sc) = Inr ()"
    using err ack by (cases m; cases sc)
      (simp_all add: handleMessage_def handleStreamPut_ok [OF assms(1)] handleEndStream_def)
  show "snd (handleMessage put err_text mem m (s, c\<lparr>cn_buffer := b\<rparr>)) =
      apsnd (\<lambda>c. c\<lparr>cn_buffer := b\<rparr>) (snd (handleMessage put err_text mem m (s, c)))"
    using err ack
    by (cases m) (simp_all add: handleMessage_def handleStreamPut_frame [OF assms(1)] handleEndStream_def sock_write_buffer)
qed

text \<open>The handler of a chunk, on the state it leaves when it does not throw.\<close>

definition server_chunk ::
  "'s put_op \<Rightarrow> (js_error \<Rightarrow> jstring) \<Rightarrow> (nat \<Rightarrow> byte) \<Rightarrow> byte list \<Rightarrow> 's \<times> connection \<Rightarrow> 's \<times> connection" where
  "server_chunk put err_text mem chunk sc =
     (case server_on_data put err_text mem chunk sc of Inr sc \<Rightarrow> sc | Inl err \<Rightarrow> sc)"

lemma server_stream:
  assumes "texts_ok err_text" "\<forall>m\<in>set ms. tcp_ok m" "cn_buffer c = []" "concat chunks = tcp.stream ms"
  shows "fold (server_chunk put err_text mem) chunks (s, c) =
    apsnd (\<lambda>c. c\<lparr>cn_buffer := []\<rparr>) (fold (\<lambda>m sc. snd (handleMessage put err_text mem m sc)) ms (s, c))"
proof (rule tcp.chunks_in_order [where get = "\<lambda>sc. cn_buffer (snd sc)"
      and put = "\<lambda>b. apsnd (\<lambda>c. c\<lparr>cn_buffer := b\<rparr>)"])
  show "handleMessage put err_text mem m sc = (Inr (), snd (handleMessage put err_text mem m sc))"
    if "m \<in> Collect tcp_ok" for m sc
    using handleMessage_ok(1) [OF assms(1), of m put mem sc] that
    by (cases "handleMessage put err_text mem m sc") simp
  show "snd (handleMessage put err_text mem m (apsnd (\<lambda>c. c\<lparr>cn_buffer := b\<rparr>) sc)) =
      apsnd (\<lambda>c. c\<lparr>cn_buffer := b\<rparr>) (snd (handleMessage put err_text mem m sc))"
    if "m \<in> Collect tcp_ok" for m b sc
    using handleMessage_ok(2) [OF assms(1), of m put mem "fst sc" b "snd sc"] that by (cases sc) simp
  show "server_chunk put err_text mem chunk sc = apsnd (\<lambda>c. c\<lparr>cn_buffer := rest\<rparr>) sc'"
    if "drain (\<lambda>bs. tcp_parseMessage (of_bytes bs)) (handleMessage put err_text mem)
      (cn_buffer (snd sc) @ chunk) sc = (None, rest, sc')" for chunk sc rest sc'
    using that by (cases sc; cases sc') (simp add: server_chunk_def server_on_data_def processBuffer_def Let_def)
qed (use assms in \<open>auto simp: apsnd_def map_prod_def split: prod.splits\<close>)

lemma fold_put_messages:
  assumes "texts_ok err_text" "\<not> cn_ended c"
  shows "fold (\<lambda>m sc. snd (handleMessage put err_text mem m sc)) (map put_message kvs) (s, c) =
    (snd (run_puts put kvs s),
     c\<lparr>cn_sent := cn_sent c @ map (\<lambda>r. tcp_bytes (put_ack err_text r)) (fst (run_puts put kvs s))\<rparr>)"
  using assms(2)
proof (induction kvs arbitrary: s c)
  case (Cons p kvs)
  then show ?case
    by (cases p) (simp add: handleMessage_def handleStreamPut_ok [OF assms(1)] put_message_def sock_write_def case_prod_unfold)
qed simp

text \<open>A stream of puts, however it is cut: the puts are done in order and acknowledged in order.\<close>

lemma server_puts:
  assumes "texts_ok err_text" "\<forall>p\<in>set kvs. tcp_ok (put_message p)" "cn_buffer c = []" "\<not> cn_ended c"
    "concat chunks = tcp.stream (map put_message kvs)"
  shows "fold (server_chunk put err_text mem) chunks (s, c) =
    (snd (run_puts put kvs s),
     c\<lparr>cn_sent := cn_sent c @ map (\<lambda>r. tcp_bytes (put_ack err_text r)) (fst (run_puts put kvs s))\<rparr>)"
proof -
  let ?c = "c\<lparr>cn_sent := cn_sent c @ map (\<lambda>r. tcp_bytes (put_ack err_text r)) (fst (run_puts put kvs s))\<rparr>"
  have "fold (server_chunk put err_text mem) chunks (s, c) =
      apsnd (\<lambda>c. c\<lparr>cn_buffer := []\<rparr>) (snd (run_puts put kvs s), ?c)"
    using server_stream [OF assms(1) _ assms(3,5), of put mem s] assms(2) fold_put_messages [OF assms(1,4), of put mem kvs s]
    by simp
  moreover have "?c\<lparr>cn_buffer := []\<rparr> = ?c" using assms(3) by (cases c) simp
  ultimately show ?thesis by simp
qed

text \<open>
  A message that cannot be parsed leaves the buffer as it is: the next chunk finds the
  messages before it again and handles them once more.
\<close>

lemma drain_bad:
  assumes "tcp_ok m" "tcp_parseMessage (of_bytes bad) = Inl err"
    "handle m s = (Inr (), s')"
  shows "drain (\<lambda>bs. tcp_parseMessage (of_bytes bs)) handle (tcp_bytes m @ bad) s = (Some err, bad, s')"
proof -
  have "drain (\<lambda>bs. tcp_parseMessage (of_bytes bs)) handle bad s' = (Some err, bad, s')"
    using assms(2) by (subst drain.simps) simp
  then show ?thesis
    using tcp.parse_whole [of m bad] tcp.encode_nonempty [of m] assms(1,3)
    by (subst drain.simps) simp
qed

lemma server_repeats:
  assumes "texts_ok err_text" "tcp_ok (StreamPut k v)" "cn_buffer c = []" "\<not> cn_ended c"
    "\<And>later. tcp_parseMessage (of_bytes (bad @ later)) = Inl err"
  shows "fst (fold (server_chunk put err_text mem) [tcp_bytes (StreamPut k v) @ bad, later] (s, c)) =
    snd (put k v (snd (put k v s)))"
proof -
  let ?m = "StreamPut k v" and ?text = "tcp_bytes (ErrorMsg (err_text err))"
  have err: "serializeError mem (err_text err) = Inr ?text"
    using serialize_tcp_ok [of "ErrorMsg (err_text err)" mem] assms(1) by (simp add: texts_ok_def)
  have step: "server_chunk put err_text mem chunk (s, c) =
      (snd (put k v s), (sock_write ?text (sock_write (tcp_bytes (put_ack err_text (fst (put k v s)))) c))
         \<lparr>cn_buffer := tcp_bytes ?m @ bad @ later\<rparr>)"
    if "cn_buffer c @ chunk = tcp_bytes ?m @ bad @ later" for s c chunk later
    using drain_bad [OF assms(2,5), where handle = "handleMessage put err_text mem" and s = "(s, c)"]
      that err
    by (simp add: server_chunk_def server_on_data_def processBuffer_def handleMessage_def
        handleStreamPut_ok [OF assms(1)] sock_write_buffer)
  show ?thesis
    using step [of c "tcp_bytes ?m @ bad" "[]" s] step [of _ later later] assms(3) by simp
qed

section \<open>The client\<close>

lemma client_message_frame: "snd (client_message m (c\<lparr>tc_buffer := b\<rparr>)) = (snd (client_message m c))\<lparr>tc_buffer := b\<rparr>"
  by (cases m) (simp_all add: client_message_def settle_def split: list.split)

lemma client_stream:
  assumes "\<forall>m\<in>set ms. tcp_ok m" "tc_buffer c = []" "concat chunks = tcp.stream ms"
  shows "fold (\<lambda>chunk c. snd (client_handleData chunk c)) chunks c =
    (fold (\<lambda>m c. snd (client_message m c)) ms c)\<lparr>tc_buffer := []\<rparr>"
proof (rule tcp.chunks_in_order [where get = tc_buffer and put = "\<lambda>b c. c\<lparr>tc_buffer := b\<rparr>"])
  show "client_message m c = (Inr (), snd (client_message m c))" for m c by (simp add: client_message_def)
qed (use assms client_message_frame in \<open>auto simp: client_handleData_def\<close>)

definition ack_outcome :: "tcp_message \<Rightarrow> jstring + ack" where
  "ack_outcome m = (case m of Ack st msg \<Rightarrow> Inr (st, msg) | ErrorMsg text \<Rightarrow> Inl text | _ \<Rightarrow> Inl empty_string)"

definition is_answer :: "tcp_message \<Rightarrow> bool" where
  "is_answer m \<longleftrightarrow> (case m of Ack st msg \<Rightarrow> True | ErrorMsg text \<Rightarrow> True | _ \<Rightarrow> False)"

text \<open>Answers settle the pending requests in the order in which they were made.\<close>

lemma client_answers:
  assumes "\<forall>m\<in>set ms. is_answer m" "tc_pendingAcks c = ids @ rest" "length ids = length ms"
  shows "fold (\<lambda>m c. snd (client_message m c)) ms c =
    c\<lparr>tc_pendingAcks := rest, tc_settled := tc_settled c @ zip ids (map ack_outcome ms)\<rparr>"
  using assms
proof (induction ms arbitrary: c ids)
  case (Cons m ms)
  then obtain i js where i: "ids = i # js" by (cases ids) auto
  have "snd (client_message m c) = c\<lparr>tc_pendingAcks := js @ rest, tc_settled := tc_settled c @ [(i, ack_outcome m)]\<rparr>"
    using Cons.prems i by (cases m) (simp_all add: client_message_def settle_def ack_outcome_def is_answer_def)
  then show ?case
    using Cons.IH [of "c\<lparr>tc_pendingAcks := js @ rest, tc_settled := tc_settled c @ [(i, ack_outcome m)]\<rparr>" js]
      Cons.prems i by simp
qed simp

lemma put_ack_answer: "is_answer (put_ack err_text r)"
  by (simp add: put_ack_def is_answer_def split: sum.split)

text \<open>Pipelined puts: every request gets the outcome of its own put.\<close>

definition put_outcome :: "(js_error \<Rightarrow> jstring) \<Rightarrow> unit res \<Rightarrow> jstring + unit" where
  "put_outcome err_text r =
     (case r of Inr u \<Rightarrow> Inr ()
      | Inl err \<Rightarrow> Inl (if err_text err = empty_string then js ''Write failed'' else err_text err))"

lemma put_result_ack: "put_result (ack_outcome (put_ack err_text r)) = put_outcome err_text r"
  by (simp add: put_result_def ack_outcome_def put_ack_def put_outcome_def ACK_OK_def ACK_ERROR_def split: sum.split)

lemma client_put_ok:
  assumes "tc_connected c" "tcp_ok (StreamPut k v)"
  shows "client_put mem k v c = Inr (waitForAck (c\<lparr>tc_sent := tc_sent c @ [tcp_bytes (StreamPut k v)]\<rparr>))"
  using serialize_tcp_ok [OF assms(2), of mem] assms(1) by (simp add: client_put_def client_ensureConnected_def)

fun client_puts :: "(nat \<Rightarrow> byte) \<Rightarrow> (jstring \<times> jstring) list \<Rightarrow> tcp_client \<Rightarrow> tcp_client res" where
  "client_puts mem [] c = Inr c"
| "client_puts mem ((k, v) # kvs) c = bind_res (client_put mem k v c) (client_puts mem kvs)"

lemma client_puts_ok:
  assumes "tc_connected c" "\<forall>p\<in>set kvs. tcp_ok (put_message p)"
  shows "client_puts mem kvs c = Inr (c\<lparr>tc_sent := tc_sent c @ map (\<lambda>p. tcp_bytes (put_message p)) kvs,
    tc_pendingAcks := tc_pendingAcks c @ [tc_requests c..<tc_requests c + length kvs],
    tc_requests := tc_requests c + length kvs\<rparr>)"
  using assms
proof (induction kvs arbitrary: c)
  case (Cons p kvs)
  obtain k v where p: "p = (k, v)" by fastforce
  have "client_put mem k v c = Inr (waitForAck (c\<lparr>tc_sent := tc_sent c @ [tcp_bytes (StreamPut k v)]\<rparr>))"
    using Cons.prems p by (intro client_put_ok) (auto simp: put_message_def)
  then show ?case
    using Cons.IH [of "waitForAck (c\<lparr>tc_sent := tc_sent c @ [tcp_bytes (StreamPut k v)]\<rparr>)"] Cons.prems p
    by (simp add: waitForAck_def put_message_def upt_conv_Cons del: upt_Suc)
qed simp

lemma run_puts_length: "length (fst (run_puts put kvs s)) = length kvs"
  by (induction kvs arbitrary: s) (auto simp: case_prod_unfold)

lemma link_puts:
  assumes "texts_ok err_text" "\<forall>p\<in>set kvs. tcp_ok (put_message p)"
    "client_puts mem kvs (new_tcp_client\<lparr>tc_connected := True\<rparr>) = Inr c"
    "concat chunks = concat (tc_sent c)" "fold (server_chunk put err_text mem') chunks (s, new_connection) = (s', cn)"
    "concat chunks' = concat (cn_sent cn)" "fold (\<lambda>chunk c. snd (client_handleData chunk c)) chunks' c = c'"
  shows "s' = snd (run_puts put kvs s)" "tc_pendingAcks c' = []"
    "map (\<lambda>(i, r). (i, put_result r)) (tc_settled c') =
      zip [0..<length kvs] (map (put_outcome err_text) (fst (run_puts put kvs s)))"
proof -
  let ?rs = "fst (run_puts put kvs s)"
  have c: "c = new_tcp_client\<lparr>tc_connected := True, tc_sent := map (\<lambda>p. tcp_bytes (put_message p)) kvs,
      tc_pendingAcks := [0..<length kvs], tc_requests := length kvs\<rparr>"
    using client_puts_ok [of "new_tcp_client\<lparr>tc_connected := True\<rparr>" kvs mem] assms(2,3)
    by (simp add: new_tcp_client_def)
  have "concat chunks = tcp.stream (map put_message kvs)"
    using assms(4) by (simp add: c tcp.stream_def comp_def)
  from server_puts [OF assms(1,2) _ _ this, of new_connection put mem' s]
  have srv: "s' = snd (run_puts put kvs s)" "cn_sent cn = map (\<lambda>r. tcp_bytes (put_ack err_text r)) ?rs"
    using assms(5) by (auto simp: new_connection_def)
  have stream: "concat chunks' = tcp.stream (map (put_ack err_text) ?rs)"
    using assms(6) by (simp add: srv tcp.stream_def comp_def)
  have "c' = (fold (\<lambda>m c. snd (client_message m c)) (map (put_ack err_text) ?rs) c)\<lparr>tc_buffer := []\<rparr>"
    using client_stream [OF _ _ stream, of c] put_ack_ok [OF assms(1)] assms(7)
    by (simp add: c new_tcp_client_def)
  also have "fold (\<lambda>m c. snd (client_message m c)) (map (put_ack err_text) ?rs) c =
      c\<lparr>tc_pendingAcks := [], tc_settled := tc_settled c @ zip [0..<length kvs] (map ack_outcome (map (put_ack err_text) ?rs))\<rparr>"
    by (rule client_answers) (simp_all add: put_ack_answer c run_puts_length)
  finally have c': "tc_pendingAcks c' = []"
    "tc_settled c' = zip [0..<length kvs] (map (\<lambda>r. ack_outcome (put_ack err_text r)) ?rs)"
    by (simp_all add: c new_tcp_client_def comp_def)
  show "s' = snd (run_puts put kvs s)" "tc_pendingAcks c' = []" using srv c' by simp_all
  show "map (\<lambda>(i, r). (i, put_result r)) (tc_settled c') =
      zip [0..<length kvs] (map (put_outcome err_text) ?rs)"
    by (simp add: c'(2) zip_map2 put_result_ack case_prod_unfold)
qed

end
