(* ===== verification/Replication_Protocol.thy ===== *)
theory Replication_Protocol
  imports Framing Log_Codec
begin

text \<open>
  The message format between a primary and its backup, src/src/replication/ReplicationProtocol.ts:
  log entries and acknowledgements, framed by their length. The payloads of entries are those
  of the log, but absent and empty strings are written as they are instead of being refused.
  The format is an instance of the contract \<open>framing\<close>.
\<close>

section \<open>Messages\<close>

definition REPLICATE :: nat where "REPLICATE = 0x10"
definition REPLICATE_ACK :: nat where "REPLICATE_ACK = 0x11"

definition REPL_OK :: nat where "REPL_OK = 0"
definition REPL_ERROR :: nat where "REPL_ERROR = 1"

datatype repl_message = Replicate log_entry | ReplicateAck nat nat

definition or_empty :: "jstring option \<Rightarrow> jstring" where
  "or_empty s = (case s of Some s \<Rightarrow> s | None \<Rightarrow> empty_string)"

definition or_nil :: "'a list option \<Rightarrow> 'a list" where
  "or_nil xs = (case xs of Some xs \<Rightarrow> xs | None \<Rightarrow> [])"

definition repl_operationToCode :: "log_op \<Rightarrow> nat" where
  "repl_operationToCode op = (case op of PUT \<Rightarrow> 1 | DELETE \<Rightarrow> 2 | BATCH_PUT \<Rightarrow> 3)"

definition repl_codeToOperation :: "nat \<Rightarrow> log_op res" where
  "repl_codeToOperation c =
     (if c = 1 then Inr PUT else if c = 2 then Inr DELETE else if c = 3 then Inr BATCH_PUT
      else Inl (UnknownCode c))"

section \<open>Serialisation\<close>

text \<open>
  A batch with fewer values than keys fails on the missing buffer; values beyond the keys are
  left out.
\<close>

definition repl_serializePayload :: "(nat \<Rightarrow> byte) \<Rightarrow> 'a log_body_scheme \<Rightarrow> byte list res" where
  "repl_serializePayload mem e =
     (case le_op e of
        PUT \<Rightarrow>
          let k = or_empty (le_key e); v = or_empty (le_value e) in
          serialize_writes mem (2 + length (utf8 k) + 4 + length (utf8 v)) (put_writes k v)
      | DELETE \<Rightarrow>
          let k = or_empty (le_key e) in
          serialize_writes mem (2 + length (utf8 k)) [WU16 (length (utf8 k)), WBytes (utf8 k)]
      | BATCH_PUT \<Rightarrow>
          let ks = or_nil (le_keys e); vs = or_nil (le_values e) in
          if length vs < length ks then Inl UndefinedProperty
          else
            serialize_writes mem
              (4 + sum_list (map2 (\<lambda>k v. 2 + length (utf8 k) + 4 + length (utf8 v)) ks vs))
              (WU32 (length ks) # pairs_writes ks vs))"

definition repl_serializeLogEntry :: "(nat \<Rightarrow> byte) \<Rightarrow> 'a log_entry_scheme \<Rightarrow> byte list res" where
  "repl_serializeLogEntry mem e =
     bind_res (repl_serializePayload mem e) (\<lambda>payload.
     serialize_writes mem (8 + 8 + 1 + length payload)
       [WU64 (le_seq e), WU64 (le_time e), WU8 (repl_operationToCode (le_op e)), WBytes payload])"

definition serializeReplicate :: "(nat \<Rightarrow> byte) \<Rightarrow> 'a log_entry_scheme \<Rightarrow> byte list res" where
  "serializeReplicate mem e =
     bind_res (repl_serializeLogEntry mem e) (\<lambda>entryBuffer.
     let payloadSize = 1 + length entryBuffer in
     serialize_writes mem (4 + payloadSize) [WU32 payloadSize, WU8 REPLICATE, WBytes entryBuffer])"

definition repl_serializeAck :: "(nat \<Rightarrow> byte) \<Rightarrow> nat \<Rightarrow> nat \<Rightarrow> byte list res" where
  "repl_serializeAck mem st sequenceId =
     serialize_writes mem (4 + 10) [WU32 10, WU8 REPLICATE_ACK, WU8 st, WU64 sequenceId]"

section \<open>Parsing\<close>

definition repl_deserializePayload :: "log_op \<Rightarrow> buffer \<Rightarrow> log_body res" where
  "repl_deserializePayload op b =
     (case op of
        PUT \<Rightarrow>
          bind_res (readUInt16BE b 0) (\<lambda>keyLen.
          let key = to_string b 2 (2 + keyLen) in
          bind_res (readUInt32BE b (2 + keyLen)) (\<lambda>valueLen.
          Inr (put_body key (to_string b (2 + keyLen + 4) (2 + keyLen + 4 + valueLen)))))
      | DELETE \<Rightarrow>
          bind_res (readUInt16BE b 0) (\<lambda>keyLen.
          Inr (delete_body (to_string b 2 (2 + keyLen))))
      | BATCH_PUT \<Rightarrow>
          bind_res (readUInt32BE b 0) (\<lambda>count.
          bind_res (read_pairs count b 4) (\<lambda>(ks, vs). Inr (batch_body ks vs))))"

definition repl_deserializeLogEntry :: "buffer \<Rightarrow> log_entry res" where
  "repl_deserializeLogEntry b =
     bind_res (readU64 b 0) (\<lambda>sequenceId.
     bind_res (readU64 b 8) (\<lambda>timestamp.
     bind_res (readUInt8 b 16) (\<lambda>opCode.
     bind_res (repl_codeToOperation opCode) (\<lambda>operation.
     bind_res (repl_deserializePayload operation (subarray b 17 (blen b))) (\<lambda>body.
     Inr (stamp body sequenceId timestamp))))))"

text \<open>An entry is parsed within its frame; an acknowledgement is read from the whole buffer.\<close>

definition parseReplicate :: "buffer \<Rightarrow> nat \<Rightarrow> (repl_message \<times> nat) res" where
  "parseReplicate b len =
     bind_res (repl_deserializeLogEntry (subarray b 5 (4 + len))) (\<lambda>e. Inr (Replicate e, 4 + len))"

definition repl_parseAck :: "buffer \<Rightarrow> nat \<Rightarrow> (repl_message \<times> nat) res" where
  "repl_parseAck b len =
     bind_res (readUInt8 b 5) (\<lambda>st.
     bind_res (readU64 b 6) (\<lambda>sequenceId. Inr (ReplicateAck st sequenceId, 4 + len)))"

definition repl_parseMessage :: "buffer \<Rightarrow> (repl_message \<times> nat) option res" where
  "repl_parseMessage b =
     (if blen b < 5 then Inr None
      else
        bind_res (readUInt32BE b 0) (\<lambda>len.
        let totalSize = 4 + len in
        if blen b < totalSize then Inr None
        else
          bind_res (readUInt8 b 4) (\<lambda>opcode.
          if opcode = REPLICATE then bind_res (parseReplicate b len) (\<lambda>r. Inr (Some r))
          else if opcode = REPLICATE_ACK then bind_res (repl_parseAck b len) (\<lambda>r. Inr (Some r))
          else Inl (UnknownOpcode opcode))))"

section \<open>Round trip\<close>

lemma repl_codes [simp]:
  "repl_codeToOperation (repl_operationToCode op) = Inr op" "repl_operationToCode op < 256"
  by (cases op; simp add: repl_operationToCode_def repl_codeToOperation_def)+

lemma repl_deserializePayload_eq: "repl_deserializePayload = deserializePayload"
  by (intro ext) (simp add: repl_deserializePayload_def deserializePayload_def)

text \<open>The bytes of a message, and the messages whose fields fit.\<close>

definition repl_entry_data :: "log_entry \<Rightarrow> byte list" where
  "repl_entry_data e = be_bytes 8 (le_seq e) @ be_bytes 8 (le_time e) @
     be_bytes 1 (repl_operationToCode (le_op e)) @ payload_bytes e"

fun repl_payload :: "repl_message \<Rightarrow> byte list" where
  "repl_payload (Replicate e) = be_bytes 1 REPLICATE @ repl_entry_data e"
| "repl_payload (ReplicateAck st s) = be_bytes 1 REPLICATE_ACK @ be_bytes 1 st @ be_bytes 8 s"

definition repl_bytes :: "repl_message \<Rightarrow> byte list" where
  "repl_bytes m = be_bytes 4 (length (repl_payload m)) @ repl_payload m"

definition repl_entry_ok :: "log_entry \<Rightarrow> bool" where
  "repl_entry_ok e \<longleftrightarrow> (\<exists>b. body_fits b \<and> e = stamp b (le_seq e) (le_time e)) \<and>
     le_seq e \<le> 2 ^ 53 \<and> le_time e \<le> 2 ^ 53 \<and> length (repl_entry_data e) + 1 < 4294967296"

fun repl_ok :: "repl_message \<Rightarrow> bool" where
  "repl_ok (Replicate e) \<longleftrightarrow> repl_entry_ok e"
| "repl_ok (ReplicateAck st s) \<longleftrightarrow> st < 256 \<and> s \<le> 2 ^ 53"

text \<open>What the log accepts, the protocol accepts.\<close>

lemma entry_ok_repl: "entry_ok e \<Longrightarrow> repl_entry_ok e"
  by (auto simp: entry_ok_def repl_entry_ok_def repl_entry_data_def entry_data_def dest: body_ok_fits)

lemma repl_serializePayload_ok:
  "body_fits b \<Longrightarrow> repl_serializePayload mem (stamp b s t) = Inr (payload_bytes b)"
  unfolding body_fits_def
proof (elim disjE exE conjE)
  fix ks vs
  assume "b = batch_body ks vs" "length ks = length vs" "length ks < 4294967296"
    "\<forall>k\<in>set ks. key_ok k" "\<forall>v\<in>set vs. value_ok v"
  then show ?thesis
    using pairs_writes_facts [of ks vs]
    by (simp add: repl_serializePayload_def payload_bytes_def payload_writes_def or_nil_def serialize_writes_eq)
qed (simp_all add: repl_serializePayload_def payload_bytes_def payload_writes_def or_empty_def
    serialize_writes_eq string_ok_def)

lemma serializeReplicate_ok:
  assumes "repl_entry_ok e"
  shows "serializeReplicate mem e = Inr (repl_bytes (Replicate e))"
proof -
  obtain b where b: "body_fits b" "e = stamp b (le_seq e) (le_time e)"
    using assms by (auto simp: repl_entry_ok_def)
  have "repl_serializePayload mem e = Inr (payload_bytes e)"
    using repl_serializePayload_ok [OF b(1)] b(2) by (metis payload_bytes_stamp)
  then have "repl_serializeLogEntry mem e = Inr (repl_entry_data e)"
    using assms by (simp add: repl_serializeLogEntry_def serialize_writes_eq repl_entry_data_def repl_entry_ok_def)
  then show ?thesis
    using assms
    by (simp add: serializeReplicate_def serialize_writes_eq repl_entry_ok_def repl_bytes_def REPLICATE_def)
qed

lemma repl_serializeAck_ok:
  "repl_ok (ReplicateAck st s) \<Longrightarrow> repl_serializeAck mem st s = Inr (repl_bytes (ReplicateAck st s))"
  by (simp add: repl_serializeAck_def serialize_writes_eq repl_bytes_def REPLICATE_ACK_def)

lemma repl_size: "repl_ok m \<Longrightarrow> length (repl_payload m) < 4294967296"
  by (cases m) (simp_all add: repl_entry_ok_def)

lemma repl_deserialize_holds:
  assumes "repl_entry_ok e"
  shows "repl_deserializeLogEntry (of_bytes (repl_entry_data e)) = Inr e"
proof -
  obtain b where b: "body_fits b" "e = stamp b (le_seq e) (le_time e)"
    using assms by (auto simp: repl_entry_ok_def)
  let ?buf = "of_bytes (repl_entry_data e)"
  have h: "holds_at ?buf 0 (be_bytes 8 (le_seq e))" "holds_at ?buf 8 (be_bytes 8 (le_time e))"
    "holds_at ?buf 16 (be_bytes 1 (repl_operationToCode (le_op e)))"
    using holds_at_of_bytes [of "repl_entry_data e"] by (simp_all add: repl_entry_data_def holds_at_append)
  have "readU64 ?buf 0 = Inr (le_seq e)" "readU64 ?buf 8 = Inr (le_time e)"
    using readU64_be [OF h(1)] readU64_be [OF h(2)] assms by (auto simp: repl_entry_ok_def)
  moreover have "readUInt8 ?buf 16 = Inr (repl_operationToCode (le_op e))"
    using read_uint_be [OF h(3)] by simp
  moreover have "subarray ?buf 17 (blen ?buf) = of_bytes (payload_bytes e)"
    by (simp add: subarray_def bytes_between_of_bytes repl_entry_data_def)
  moreover have "deserializePayload (le_op b) (of_bytes (payload_bytes b)) = Inr b"
    using b(1) by (intro deserializePayload_fits holds_at_of_bytes)
  moreover have "le_op e = le_op b" "payload_bytes e = payload_bytes b"
    by (subst b(2), simp)+
  ultimately have "repl_deserializeLogEntry ?buf = Inr (stamp b (le_seq e) (le_time e))"
    by (simp add: repl_deserializeLogEntry_def repl_deserializePayload_eq)
  then show ?thesis by (simp only: b(2) [symmetric])
qed

lemma repl_parse_whole:
  assumes "repl_ok m"
  shows "repl_parseMessage (of_bytes (repl_bytes m @ rest)) = Inr (Some (m, length (repl_bytes m)))"
proof -
  let ?b = "of_bytes (repl_bytes m @ rest)"
  have h: "holds_at ?b 0 (be_bytes 4 (length (repl_payload m)))" "holds_at ?b 4 (repl_payload m)"
    using holds_at_prefix [of "repl_bytes m" rest] by (simp_all add: repl_bytes_def holds_at_append)
  have len: "readUInt32BE ?b 0 = Inr (length (repl_payload m))"
    using h(1) repl_size [OF assms] by (simp add: read_uint_be)
  show ?thesis
  proof (cases m)
    case (Replicate e)
    have "subarray ?b 5 (4 + length (repl_payload m)) = of_bytes (repl_entry_data e)"
      by (simp add: subarray_def bytes_between_of_bytes repl_bytes_def Replicate)
    moreover have "readUInt8 ?b 4 = Inr REPLICATE"
      using h(2) Replicate by (simp add: holds_at_append read_uint_be REPLICATE_def)
    ultimately show ?thesis
      using len assms Replicate repl_deserialize_holds [of e]
      by (simp add: repl_parseMessage_def parseReplicate_def Let_def repl_bytes_def)
  next
    case (ReplicateAck st s)
    have "readUInt8 ?b 4 = Inr REPLICATE_ACK" "readUInt8 ?b 5 = Inr st" "readU64 ?b 6 = Inr s"
      using h(2) ReplicateAck assms by (simp_all add: holds_at_append read_uint_be readU64_be REPLICATE_ACK_def)
    then show ?thesis
      using len ReplicateAck
      by (simp add: repl_parseMessage_def repl_parseAck_def Let_def repl_bytes_def REPLICATE_def REPLICATE_ACK_def)
  qed
qed

lemma repl_parse_part:
  assumes "repl_ok m" "n < length (repl_bytes m)"
  shows "repl_parseMessage (of_bytes (take n (repl_bytes m))) = Inr None"
proof (cases "n < 5")
  case True
  then show ?thesis by (simp add: repl_parseMessage_def min_def)
next
  case False
  have "take n (repl_bytes m) = be_bytes 4 (length (repl_payload m)) @ take (n - 4) (repl_payload m)"
    using False by (simp add: repl_bytes_def)
  then have "readUInt32BE (of_bytes (take n (repl_bytes m))) 0 = Inr (length (repl_payload m))"
    using repl_size [OF assms(1)] holds_at_prefix by (intro read_uint_be) simp_all
  then show ?thesis
    using assms(2) False by (simp add: repl_parseMessage_def repl_bytes_def)
qed

interpretation repl: framing "\<lambda>bs. repl_parseMessage (of_bytes bs)" repl_bytes "Collect repl_ok"
proof
  fix m :: repl_message and rest n
  assume m: "m \<in> Collect repl_ok"
  then show "repl_parseMessage (of_bytes (repl_bytes m @ rest)) = Inr (Some (m, length (repl_bytes m)))"
    by (intro repl_parse_whole) simp_all
  show "n < length (repl_bytes m) \<Longrightarrow> repl_parseMessage (of_bytes (take n (repl_bytes m))) = Inr None"
    using m by (intro repl_parse_part) simp_all
  have "length (repl_bytes m) \<noteq> 0" by (simp add: repl_bytes_def)
  then show "repl_bytes m \<noteq> []" by auto
qed (simp add: repl_parseMessage_def)

end
