(* ===== verification/Replication.thy ===== *)
theory Replication
  imports Replication_Protocol
begin

text \<open>
  Both ends of the replication: the primary's manager of
  src/src/replication/ReplicationManager.ts and the backup's server of
  src/src/replication/ReplicationServer.ts. A socket is what was written to it; what the
  network and the timers do are the arguments and the order of the operations. The backup's
  \<open>entryHandler\<close> is an argument on any state.
\<close>

section \<open>Roles, states and metrics\<close>

datatype repl_role = STANDALONE | PRIMARY | BACKUP

record repl_state =
  rst_role :: repl_role
  rst_connected :: bool
  rst_lastReplicatedSequence :: int
  rst_pendingEntries :: nat
  rst_lagMs :: int

record repl_metrics =
  mx_entriesReplicated :: nat
  mx_bytesReplicated :: nat
  mx_failedAttempts :: nat
  mx_lastSuccessTime :: "nat option"
  mx_lastFailureTime :: "nat option"

definition no_metrics :: repl_metrics where
  "no_metrics = \<lparr>mx_entriesReplicated = 0, mx_bytesReplicated = 0, mx_failedAttempts = 0,
     mx_lastSuccessTime = None, mx_lastFailureTime = None\<rparr>"

record repl_config =
  rc_role :: "repl_role option"
  rc_backupHost :: "jstring option"
  rc_backupPort :: "int option"
  rc_replicationPort :: "int option"
  rc_connectionTimeoutMs :: "int option"
  rc_reconnectIntervalMs :: "int option"

definition DEFAULT_CONNECTION_TIMEOUT_MS :: int where "DEFAULT_CONNECTION_TIMEOUT_MS = 5000"
definition DEFAULT_RECONNECT_INTERVAL_MS :: int where "DEFAULT_RECONNECT_INTERVAL_MS = 3000"

definition or_default :: "'a option \<Rightarrow> 'a \<Rightarrow> 'a" where
  "or_default x y = (case x of Some x \<Rightarrow> x | None \<Rightarrow> y)"

definition resolveReplicationConfig :: "repl_config option \<Rightarrow> repl_config option" where
  "resolveReplicationConfig config =
     (case config of
        None \<Rightarrow> None
      | Some c \<Rightarrow>
          if rc_role c = None \<or> rc_role c = Some STANDALONE then None
          else Some \<lparr>rc_role = rc_role c, rc_backupHost = rc_backupHost c, rc_backupPort = rc_backupPort c,
            rc_replicationPort = rc_replicationPort c,
            rc_connectionTimeoutMs = Some (or_default (rc_connectionTimeoutMs c) DEFAULT_CONNECTION_TIMEOUT_MS),
            rc_reconnectIntervalMs = Some (or_default (rc_reconnectIntervalMs c) DEFAULT_RECONNECT_INTERVAL_MS)\<rparr>)"

section \<open>The manager of the primary\<close>

text \<open>
  \<open>rm_retrying\<close> tells whether the connection attempt in progress was started by the timer,
  whose callback schedules the next attempt when it fails. \<open>rm_pendingAcks\<close> has the entry of
  each request with the length of its message, for \<open>resolve\<close>. The buffer belongs to the
  manager, not to a connection.
\<close>

record repl_manager =
  rm_socket :: "byte list list option"
  rm_connected :: bool
  rm_connecting :: bool
  rm_retrying :: bool
  rm_buffer :: "byte list"
  rm_pendingAcks :: "(log_entry \<times> nat) list"
  rm_lastReplicatedSequence :: int
  rm_reconnectTimer :: bool
  rm_metrics :: repl_metrics

definition new_manager :: repl_manager where
  "new_manager = \<lparr>rm_socket = None, rm_connected = False, rm_connecting = False, rm_retrying = False,
     rm_buffer = [], rm_pendingAcks = [], rm_lastReplicatedSequence = - 1, rm_reconnectTimer = False,
     rm_metrics = no_metrics\<rparr>"

definition rm_updateMetricsSuccess :: "nat \<Rightarrow> nat \<Rightarrow> repl_manager \<Rightarrow> repl_manager" where
  "rm_updateMetricsSuccess now bytes m =
     (let x = rm_metrics m in
      m\<lparr>rm_metrics := x\<lparr>mx_entriesReplicated := mx_entriesReplicated x + 1,
        mx_bytesReplicated := mx_bytesReplicated x + bytes, mx_lastSuccessTime := Some now\<rparr>\<rparr>)"

definition rm_updateMetricsFailure :: "nat \<Rightarrow> repl_manager \<Rightarrow> repl_manager" where
  "rm_updateMetricsFailure now m =
     (let x = rm_metrics m in
      m\<lparr>rm_metrics := x\<lparr>mx_failedAttempts := mx_failedAttempts x + 1, mx_lastFailureTime := Some now\<rparr>\<rparr>)"

text \<open>\<open>resolve\<close> and \<open>reject\<close> of a pending replication.\<close>

definition pending_resolve :: "nat \<Rightarrow> log_entry \<times> nat \<Rightarrow> repl_manager \<Rightarrow> repl_manager" where
  "pending_resolve now p m =
     rm_updateMetricsSuccess now (snd p) (m\<lparr>rm_lastReplicatedSequence := int (le_seq (fst p))\<rparr>)"

definition pending_reject :: "nat \<Rightarrow> log_entry \<times> nat \<Rightarrow> repl_manager \<Rightarrow> repl_manager" where
  "pending_reject now p m = rm_updateMetricsFailure now m"

definition repl_rejectAllPending :: "nat \<Rightarrow> repl_manager \<Rightarrow> repl_manager" where
  "repl_rejectAllPending now m = (fold (pending_reject now) (rm_pendingAcks m) m)\<lparr>rm_pendingAcks := []\<rparr>"

definition scheduleReconnect :: "repl_manager \<Rightarrow> repl_manager" where
  "scheduleReconnect m =
     (if rm_reconnectTimer m \<or> rm_connecting m then m else m\<lparr>rm_reconnectTimer := True\<rparr>)"

definition stopReconnectTimer :: "repl_manager \<Rightarrow> repl_manager" where
  "stopReconnectTimer m = (if rm_reconnectTimer m then m\<lparr>rm_reconnectTimer := False\<rparr> else m)"

text \<open>\<open>connect\<close> up to its await, called by the application or by the timer.\<close>

definition repl_connect :: "bool \<Rightarrow> repl_manager \<Rightarrow> repl_manager" where
  "repl_connect retrying m =
     (if rm_connected m \<or> rm_connecting m then m
      else m\<lparr>rm_connecting := True, rm_retrying := retrying, rm_socket := Some []\<rparr>)"

definition reconnect_fires :: "repl_manager \<Rightarrow> repl_manager" where
  "reconnect_fires m = repl_connect True (m\<lparr>rm_reconnectTimer := False\<rparr>)"

text \<open>
  The end of an attempt: the promise settles and \<open>finally\<close> runs; when it was rejected and the
  timer made the attempt, the timer's \<open>catch\<close> schedules the next.
\<close>

definition attempt_fails :: "repl_manager \<Rightarrow> repl_manager" where
  "attempt_fails m =
     (if \<not> rm_connecting m then m
      else
        let m' = m\<lparr>rm_connecting := False, rm_retrying := False\<rparr>
        in if rm_retrying m then scheduleReconnect m' else m')"

definition repl_on_connect :: "repl_manager \<Rightarrow> repl_manager" where
  "repl_on_connect m = m\<lparr>rm_connected := True, rm_connecting := False, rm_retrying := False\<rparr>"

definition handleConnectionError :: "nat \<Rightarrow> repl_manager \<Rightarrow> repl_manager" where
  "handleConnectionError now m =
     scheduleReconnect (repl_rejectAllPending now ((rm_updateMetricsFailure now m)\<lparr>rm_connected := False\<rparr>))"

text \<open>The handlers of \<open>error\<close> and \<open>timeout\<close> both end in a \<open>reject\<close>, as \<open>connected\<close> is false.\<close>

definition repl_on_error :: "nat \<Rightarrow> repl_manager \<Rightarrow> repl_manager" where
  "repl_on_error now m =
     (let m = handleConnectionError now m in if \<not> rm_connected m then attempt_fails m else m)"

definition repl_on_timeout :: "nat \<Rightarrow> repl_manager \<Rightarrow> repl_manager" where
  "repl_on_timeout now m =
     (let m = handleConnectionError now m in if \<not> rm_connected m then attempt_fails m else m)"

definition handleConnectionClose :: "nat \<Rightarrow> repl_manager \<Rightarrow> repl_manager" where
  "handleConnectionClose now m =
     (if rm_connected m then scheduleReconnect (repl_rejectAllPending now (m\<lparr>rm_connected := False\<rparr>)) else m)"

definition isConnected :: "repl_manager \<Rightarrow> bool" where
  "isConnected m \<longleftrightarrow> rm_connected m"

text \<open>\<open>disconnect\<close> up to its await, and the callback of the \<open>end\<close> of a socket, if there is one.\<close>

definition repl_disconnect :: "nat \<Rightarrow> repl_manager \<Rightarrow> repl_manager" where
  "repl_disconnect now m = repl_rejectAllPending now (stopReconnectTimer m)"

definition repl_ended :: "repl_manager \<Rightarrow> repl_manager" where
  "repl_ended m = m\<lparr>rm_socket := None, rm_connected := False\<rparr>"

definition replicate_entry :: "(nat \<Rightarrow> byte) \<Rightarrow> log_entry \<Rightarrow> repl_manager \<Rightarrow> unit res \<times> repl_manager" where
  "replicate_entry mem e m =
     (if \<not> rm_connected m \<or> rm_socket m = None then (Inr (), scheduleReconnect m)
      else
        (case serializeReplicate mem e of
           Inl err \<Rightarrow> (Inl err, m)
         | Inr message \<Rightarrow>
             (Inr (), m\<lparr>rm_pendingAcks := rm_pendingAcks m @ [(e, length message)],
                rm_socket := map_option (\<lambda>sent. sent @ [message]) (rm_socket m)\<rparr>)))"

definition handleAck :: "nat \<Rightarrow> nat \<Rightarrow> repl_manager \<Rightarrow> repl_manager" where
  "handleAck now st m =
     (case rm_pendingAcks m of
        [] \<Rightarrow> m
      | p # rest \<Rightarrow>
          let m = m\<lparr>rm_pendingAcks := rest\<rparr>
          in if st = REPL_OK then pending_resolve now p m else pending_reject now p m)"

definition manager_message :: "nat \<Rightarrow> repl_message \<Rightarrow> repl_manager \<Rightarrow> unit res \<times> repl_manager" where
  "manager_message now msg m =
     (Inr (), case msg of ReplicateAck st sequenceId \<Rightarrow> handleAck now st m | Replicate e \<Rightarrow> m)"

text \<open>An error of the parser leaves the handler, with the buffer cut up to the message.\<close>

definition manager_handleData :: "nat \<Rightarrow> byte list \<Rightarrow> repl_manager \<Rightarrow> js_error option \<times> repl_manager" where
  "manager_handleData now chunk m =
     (case drain (\<lambda>bs. repl_parseMessage (of_bytes bs)) (manager_message now) (rm_buffer m @ chunk) m of
        (err, buffer, m) \<Rightarrow> (err, m\<lparr>rm_buffer := buffer\<rparr>))"

definition manager_calculateLag :: "nat \<Rightarrow> repl_manager \<Rightarrow> int" where
  "manager_calculateLag now m =
     (case rm_pendingAcks m of [] \<Rightarrow> 0 | p # rest \<Rightarrow> int now - int (le_time (fst p)))"

definition manager_getState :: "nat \<Rightarrow> repl_manager \<Rightarrow> repl_state" where
  "manager_getState now m =
     \<lparr>rst_role = PRIMARY, rst_connected = rm_connected m,
      rst_lastReplicatedSequence = rm_lastReplicatedSequence m,
      rst_pendingEntries = length (rm_pendingAcks m), rst_lagMs = manager_calculateLag now m\<rparr>"

section \<open>The server of the backup\<close>

text \<open>\<open>rs_buffer\<close> is the buffer in the closure of the primary's connection.\<close>

record repl_server =
  rs_started :: bool
  rs_primary :: bool
  rs_buffer :: "byte list"
  rs_sent :: "byte list list"
  rs_lastAppliedSequence :: int
  rs_metrics :: repl_metrics

definition new_repl_server :: repl_server where
  "new_repl_server = \<lparr>rs_started = False, rs_primary = False, rs_buffer = [], rs_sent = [],
     rs_lastAppliedSequence = - 1, rs_metrics = no_metrics\<rparr>"

text \<open>The flag, that there is a server, stays set when it cannot listen.\<close>

definition repl_start ::
  "(int list \<Rightarrow> int) \<Rightarrow> int \<Rightarrow> int list \<Rightarrow> repl_server \<Rightarrow> unit res \<times> int list \<times> repl_server" where
  "repl_start pick port ports r =
     (if rs_started r then (Inl AlreadyStarted, ports, r)
      else (case listen_on pick port ports of (res, ports) \<Rightarrow> (res, ports, r\<lparr>rs_started := True\<rparr>)))"

text \<open>\<open>stop\<close> at the end of its await.\<close>

definition repl_stop :: "repl_server \<Rightarrow> repl_server" where
  "repl_stop r = (if \<not> rs_started r then r else r\<lparr>rs_started := False, rs_primary := False\<rparr>)"

text \<open>A second connection is destroyed: \<open>False\<close>.\<close>

definition repl_handleConnection :: "repl_server \<Rightarrow> bool \<times> repl_server" where
  "repl_handleConnection r =
     (if rs_primary r then (False, r) else (True, r\<lparr>rs_primary := True, rs_buffer := [], rs_sent := []\<rparr>))"

text \<open>\<open>close\<close> and \<open>error\<close> of the primary's socket.\<close>

definition primary_gone :: "repl_server \<Rightarrow> repl_server" where
  "primary_gone r = r\<lparr>rs_primary := False\<rparr>"

definition rs_write :: "byte list \<Rightarrow> repl_server \<Rightarrow> repl_server" where
  "rs_write bs r = r\<lparr>rs_sent := rs_sent r @ [bs]\<rparr>"

definition rs_updateMetricsSuccess :: "nat \<Rightarrow> repl_server \<Rightarrow> repl_server" where
  "rs_updateMetricsSuccess now r =
     (let x = rs_metrics r in
      r\<lparr>rs_metrics := x\<lparr>mx_entriesReplicated := mx_entriesReplicated x + 1, mx_lastSuccessTime := Some now\<rparr>\<rparr>)"

definition rs_updateMetricsFailure :: "nat \<Rightarrow> repl_server \<Rightarrow> repl_server" where
  "rs_updateMetricsFailure now r =
     (let x = rs_metrics r in
      r\<lparr>rs_metrics := x\<lparr>mx_failedAttempts := mx_failedAttempts x + 1, mx_lastFailureTime := Some now\<rparr>\<rparr>)"

type_synonym 's apply_op = "log_entry \<Rightarrow> 's \<Rightarrow> unit res \<times> 's"

text \<open>\<open>clock\<close> is the time as it is in a state of the backup.\<close>

definition handleReplicate ::
  "'s apply_op \<Rightarrow> ('s \<Rightarrow> nat) \<Rightarrow> (nat \<Rightarrow> byte) \<Rightarrow> log_entry \<Rightarrow> 's \<times> repl_server \<Rightarrow> unit res \<times> 's \<times> repl_server" where
  "handleReplicate entryHandler clock mem e = (\<lambda>(s, r).
     case entryHandler e s of
       (result, s) \<Rightarrow>
         let failed = (\<lambda>r.
               let r = rs_updateMetricsFailure (clock s) r
               in case repl_serializeAck mem REPL_ERROR (le_seq e) of
                    Inl err \<Rightarrow> (Inl err, s, r)
                  | Inr ack \<Rightarrow> (Inr (), s, rs_write ack r))
         in case result of
              Inl err \<Rightarrow> failed r
            | Inr u \<Rightarrow>
                let r = rs_updateMetricsSuccess (clock s) (r\<lparr>rs_lastAppliedSequence := int (le_seq e)\<rparr>)
                in (case repl_serializeAck mem REPL_OK (le_seq e) of
                      Inl err \<Rightarrow> failed r
                    | Inr ack \<Rightarrow> (Inr (), s, rs_write ack r)))"

definition server_message ::
  "'s apply_op \<Rightarrow> ('s \<Rightarrow> nat) \<Rightarrow> (nat \<Rightarrow> byte) \<Rightarrow> repl_message \<Rightarrow> 's \<times> repl_server \<Rightarrow> unit res \<times> 's \<times> repl_server" where
  "server_message entryHandler clock mem msg sr =
     (case msg of
        Replicate e \<Rightarrow> handleReplicate entryHandler clock mem e sr
      | ReplicateAck st sequenceId \<Rightarrow> (Inr (), sr))"

definition repl_processBuffer ::
  "'s apply_op \<Rightarrow> ('s \<Rightarrow> nat) \<Rightarrow> (nat \<Rightarrow> byte) \<Rightarrow> byte list \<Rightarrow> 's \<times> repl_server \<Rightarrow>
   js_error option \<times> byte list \<times> 's \<times> repl_server" where
  "repl_processBuffer entryHandler clock mem =
     drain (\<lambda>bs. repl_parseMessage (of_bytes bs)) (server_message entryHandler clock mem)"

text \<open>The handler of \<open>data\<close>: after an error the whole buffer stays.\<close>

definition repl_on_data ::
  "'s apply_op \<Rightarrow> ('s \<Rightarrow> nat) \<Rightarrow> (nat \<Rightarrow> byte) \<Rightarrow> byte list \<Rightarrow> 's \<times> repl_server \<Rightarrow> 's \<times> repl_server" where
  "repl_on_data entryHandler clock mem chunk = (\<lambda>(s, r).
     let buffer = rs_buffer r @ chunk
     in case repl_processBuffer entryHandler clock mem buffer (s, r) of
          (None, remaining, s, r) \<Rightarrow> (s, r\<lparr>rs_buffer := remaining\<rparr>)
        | (Some err, remaining, s, r) \<Rightarrow> (s, r\<lparr>rs_buffer := buffer\<rparr>))"

definition server_calculateLag :: "nat \<Rightarrow> repl_server \<Rightarrow> int" where
  "server_calculateLag now r =
     (case mx_lastSuccessTime (rs_metrics r) of None \<Rightarrow> 0 | Some t \<Rightarrow> int now - int t)"

definition server_getState :: "nat \<Rightarrow> repl_server \<Rightarrow> repl_state" where
  "server_getState now r =
     \<lparr>rst_role = BACKUP, rst_connected = rs_primary r,
      rst_lastReplicatedSequence = rs_lastAppliedSequence r, rst_pendingEntries = 0,
      rst_lagMs = server_calculateLag now r\<rparr>"

end
