(* ===== verification/Replication_Proofs.thy ===== *)
theory Replication_Proofs
  imports Replication
begin

text \<open>
  What the two ends of the replication promise: the backup handles every entry it is sent once
  and in order, however the stream is cut; the acknowledgements settle the entries that are
  waiting in their order; and the manager's connection is a machine of four states.
\<close>

section \<open>The backup\<close>

fun run_entries :: "'s apply_op \<Rightarrow> log_entry list \<Rightarrow> 's \<Rightarrow> unit res list \<times> 's" where
  "run_entries h [] s = ([], s)"
| "run_entries h (e # es) s =
     (case h e s of (r, s) \<Rightarrow> (case run_entries h es s of (rs, s) \<Rightarrow> (r # rs, s)))"

definition repl_status :: "unit res \<Rightarrow> nat" where
  "repl_status r = (case r of Inr u \<Rightarrow> REPL_OK | Inl err \<Rightarrow> REPL_ERROR)"

definition entry_ack :: "log_entry \<Rightarrow> unit res \<Rightarrow> repl_message" where
  "entry_ack e r = ReplicateAck (repl_status r) (le_seq e)"

lemma entry_ack_ok: "repl_entry_ok e \<Longrightarrow> repl_ok (entry_ack e r)"
  by (simp add: entry_ack_def repl_status_def REPL_OK_def REPL_ERROR_def repl_entry_ok_def split: sum.split)

text \<open>What an entry does to the server.\<close>

definition server_settles :: "nat \<Rightarrow> log_entry \<Rightarrow> unit res \<Rightarrow> repl_server \<Rightarrow> repl_server" where
  "server_settles now e r srv =
     rs_write (repl_bytes (entry_ack e r))
       (case r of
          Inr u \<Rightarrow> rs_updateMetricsSuccess now (srv\<lparr>rs_lastAppliedSequence := int (le_seq e)\<rparr>)
        | Inl err \<Rightarrow> rs_updateMetricsFailure now srv)"

lemma handleReplicate_ok:
  assumes "repl_entry_ok e"
  shows "handleReplicate h clock mem e (s, srv) =
    (Inr (), snd (h e s), server_settles (clock (snd (h e s))) e (fst (h e s)) srv)"
proof -
  have ack: "repl_serializeAck mem (repl_status r) (le_seq e) = Inr (repl_bytes (entry_ack e r))" for r
    using entry_ack_ok [OF assms, of r] unfolding entry_ack_def by (rule repl_serializeAck_ok)
  obtain r s' where h: "h e s = (r, s')" by fastforce
  show ?thesis
    using h ack [of r]
    by (cases r) (simp_all add: handleReplicate_def server_settles_def repl_status_def Let_def)
qed

lemma settles_buffer: "server_settles now e r (srv\<lparr>rs_buffer := b\<rparr>) = (server_settles now e r srv)\<lparr>rs_buffer := b\<rparr>"
  by (simp add: server_settles_def rs_write_def rs_updateMetricsSuccess_def rs_updateMetricsFailure_def Let_def
      split: sum.split)

lemma server_message_ok:
  assumes "repl_ok m"
  shows "fst (server_message h clock mem m sr) = Inr ()"
    and "snd (server_message h clock mem m (apsnd (\<lambda>r. r\<lparr>rs_buffer := b\<rparr>) sr)) =
      apsnd (\<lambda>r. r\<lparr>rs_buffer := b\<rparr>) (snd (server_message h clock mem m sr))"
  using assms by (cases m; cases sr; simp add: server_message_def handleReplicate_ok settles_buffer)+

lemma repl_server_stream:
  assumes "\<forall>m\<in>set ms. repl_ok m" "rs_buffer r = []" "concat chunks = repl.stream ms"
  shows "fold (repl_on_data h clock mem) chunks (s, r) =
    apsnd (\<lambda>r. r\<lparr>rs_buffer := []\<rparr>) (fold (\<lambda>m sr. snd (server_message h clock mem m sr)) ms (s, r))"
proof (rule repl.chunks_in_order [where get = "\<lambda>sr. rs_buffer (snd sr)"
      and put = "\<lambda>b. apsnd (\<lambda>r. r\<lparr>rs_buffer := b\<rparr>)"])
  show "server_message h clock mem m sr = (Inr (), snd (server_message h clock mem m sr))"
    if "m \<in> Collect repl_ok" for m sr
    using server_message_ok(1) [of m h clock mem sr] that by (cases "server_message h clock mem m sr") simp
  show "snd (server_message h clock mem m (apsnd (\<lambda>r. r\<lparr>rs_buffer := b\<rparr>) sr)) =
      apsnd (\<lambda>r. r\<lparr>rs_buffer := b\<rparr>) (snd (server_message h clock mem m sr))"
    if "m \<in> Collect repl_ok" for m b sr
    using server_message_ok(2) [of m] that by simp
  show "repl_on_data h clock mem chunk sr = apsnd (\<lambda>r. r\<lparr>rs_buffer := rest\<rparr>) sr'"
    if "drain (\<lambda>bs. repl_parseMessage (of_bytes bs)) (server_message h clock mem)
      (rs_buffer (snd sr) @ chunk) sr = (None, rest, sr')" for chunk sr rest sr'
    using that by (cases sr; cases sr') (simp add: repl_on_data_def repl_processBuffer_def Let_def)
qed (use assms in \<open>auto simp: apsnd_def map_prod_def split: prod.splits\<close>)

lemma run_entries_length: "length (fst (run_entries h es s)) = length es"
  by (induction es arbitrary: s) (auto simp: case_prod_unfold)

definition last_applied :: "log_entry list \<Rightarrow> unit res list \<Rightarrow> int \<Rightarrow> int" where
  "last_applied es rs i = fold (\<lambda>(e, r) i. if r = Inr () then int (le_seq e) else i) (zip es rs) i"

lemma last_applied_simps [simp]:
  "last_applied [] rs i = i"
  "last_applied (e # es) (r # rs) i = last_applied es rs (if r = Inr () then int (le_seq e) else i)"
  by (simp_all add: last_applied_def)

lemma server_settles_fields [simp]:
  "rs_buffer (server_settles now e r srv) = rs_buffer srv"
  "rs_primary (server_settles now e r srv) = rs_primary srv"
  "rs_sent (server_settles now e r srv) = rs_sent srv @ [repl_bytes (entry_ack e r)]"
  "rs_lastAppliedSequence (server_settles now e r srv) =
     (if r = Inr () then int (le_seq e) else rs_lastAppliedSequence srv)"
  "mx_entriesReplicated (rs_metrics (server_settles now e r srv)) =
     mx_entriesReplicated (rs_metrics srv) + (if r = Inr () then 1 else 0)"
  "mx_failedAttempts (rs_metrics (server_settles now e r srv)) =
     mx_failedAttempts (rs_metrics srv) + (if r = Inr () then 0 else 1)"
  by (cases r; simp add: server_settles_def rs_write_def rs_updateMetricsSuccess_def rs_updateMetricsFailure_def Let_def)+

lemma fold_entries:
  assumes "\<forall>e\<in>set es. repl_entry_ok e"
  shows "\<exists>r'. fold (\<lambda>m sr. snd (server_message h clock mem m sr)) (map Replicate es) (s, r) =
      (snd (run_entries h es s), r') \<and>
    rs_buffer r' = rs_buffer r \<and> rs_primary r' = rs_primary r \<and>
    rs_sent r' = rs_sent r @ map2 (\<lambda>e x. repl_bytes (entry_ack e x)) es (fst (run_entries h es s)) \<and>
    rs_lastAppliedSequence r' = last_applied es (fst (run_entries h es s)) (rs_lastAppliedSequence r) \<and>
    mx_entriesReplicated (rs_metrics r') =
      mx_entriesReplicated (rs_metrics r) + length (filter (\<lambda>x. x = Inr ()) (fst (run_entries h es s))) \<and>
    mx_failedAttempts (rs_metrics r') =
      mx_failedAttempts (rs_metrics r) + length (filter (\<lambda>x. x \<noteq> Inr ()) (fst (run_entries h es s)))"
  using assms
proof (induction es arbitrary: s r)
  case (Cons e es)
  obtain x s' where h: "h e s = (x, s')" by fastforce
  have step: "snd (server_message h clock mem (Replicate e) (s, r)) = (s', server_settles (clock s') e x r)"
    using Cons.prems h by (simp add: server_message_def handleReplicate_ok)
  obtain xs s'' where run: "run_entries h es s' = (xs, s'')" by fastforce
  obtain r' where "fold (\<lambda>m sr. snd (server_message h clock mem m sr)) (map Replicate es)
      (s', server_settles (clock s') e x r) = (s'', r')"
    "rs_buffer r' = rs_buffer r" "rs_primary r' = rs_primary r"
    "rs_sent r' = (rs_sent r @ [repl_bytes (entry_ack e x)]) @ map2 (\<lambda>e x. repl_bytes (entry_ack e x)) es xs"
    "rs_lastAppliedSequence r' = last_applied es xs (if x = Inr () then int (le_seq e) else rs_lastAppliedSequence r)"
    "mx_entriesReplicated (rs_metrics r') = mx_entriesReplicated (rs_metrics r) + (if x = Inr () then 1 else 0) +
       length (filter (\<lambda>x. x = Inr ()) xs)"
    "mx_failedAttempts (rs_metrics r') = mx_failedAttempts (rs_metrics r) + (if x = Inr () then 0 else 1) +
       length (filter (\<lambda>x. x \<noteq> Inr ()) xs)"
    using Cons.IH [of s' "server_settles (clock s') e x r"] Cons.prems run by auto
  then show ?case using step run h by (intro exI [of _ r']) simp
qed simp

text \<open>Entries in a stream, however it is cut: applied in order and acknowledged in order.\<close>

lemma server_entries:
  assumes "\<forall>e\<in>set es. repl_entry_ok e" "rs_buffer r = []" "concat chunks = repl.stream (map Replicate es)"
    "fold (repl_on_data h clock mem) chunks (s, r) = (s', r')"
  shows "s' = snd (run_entries h es s)"
    "rs_sent r' = rs_sent r @ map2 (\<lambda>e x. repl_bytes (entry_ack e x)) es (fst (run_entries h es s))"
    "rs_lastAppliedSequence r' = last_applied es (fst (run_entries h es s)) (rs_lastAppliedSequence r)"
    "mx_entriesReplicated (rs_metrics r') =
      mx_entriesReplicated (rs_metrics r) + length (filter (\<lambda>x. x = Inr ()) (fst (run_entries h es s)))"
    "mx_failedAttempts (rs_metrics r') =
      mx_failedAttempts (rs_metrics r) + length (filter (\<lambda>x. x \<noteq> Inr ()) (fst (run_entries h es s)))"
proof -
  have "\<forall>m\<in>set (map Replicate es). repl_ok m" using assms(1) by simp
  note stream = repl_server_stream [OF this assms(2,3), of h clock mem s]
  obtain r1 where r1: "fold (\<lambda>m sr. snd (server_message h clock mem m sr)) (map Replicate es) (s, r) =
      (snd (run_entries h es s), r1)"
    "rs_sent r1 = rs_sent r @ map2 (\<lambda>e x. repl_bytes (entry_ack e x)) es (fst (run_entries h es s))"
    "rs_lastAppliedSequence r1 = last_applied es (fst (run_entries h es s)) (rs_lastAppliedSequence r)"
    "mx_entriesReplicated (rs_metrics r1) =
      mx_entriesReplicated (rs_metrics r) + length (filter (\<lambda>x. x = Inr ()) (fst (run_entries h es s)))"
    "mx_failedAttempts (rs_metrics r1) =
      mx_failedAttempts (rs_metrics r) + length (filter (\<lambda>x. x \<noteq> Inr ()) (fst (run_entries h es s)))"
    using fold_entries [OF assms(1), of h clock mem s r] by blast
  then have eq: "s' = snd (run_entries h es s)" "r' = r1\<lparr>rs_buffer := []\<rparr>" using stream assms(4) by simp_all
  show "s' = snd (run_entries h es s)" by (rule eq(1))
  show "rs_sent r' = rs_sent r @ map2 (\<lambda>e x. repl_bytes (entry_ack e x)) es (fst (run_entries h es s))"
    "rs_lastAppliedSequence r' = last_applied es (fst (run_entries h es s)) (rs_lastAppliedSequence r)"
    "mx_entriesReplicated (rs_metrics r') =
      mx_entriesReplicated (rs_metrics r) + length (filter (\<lambda>x. x = Inr ()) (fst (run_entries h es s)))"
    "mx_failedAttempts (rs_metrics r') =
      mx_failedAttempts (rs_metrics r) + length (filter (\<lambda>x. x \<noteq> Inr ()) (fst (run_entries h es s)))"
    using r1 by (simp_all add: eq(2))
qed

section \<open>The primary\<close>

text \<open>Entries handed to a connected manager.\<close>

definition replicate_all :: "(nat \<Rightarrow> byte) \<Rightarrow> log_entry list \<Rightarrow> repl_manager \<Rightarrow> repl_manager" where
  "replicate_all mem es m = fold (\<lambda>e m. snd (replicate_entry mem e m)) es m"

lemma replicate_connected:
  assumes "rm_connected m" "rm_socket m = Some sent" "\<forall>e\<in>set es. repl_entry_ok e"
  shows "replicate_all mem es m =
    m\<lparr>rm_pendingAcks := rm_pendingAcks m @ map (\<lambda>e. (e, length (repl_bytes (Replicate e)))) es,
      rm_socket := Some (sent @ map (\<lambda>e. repl_bytes (Replicate e)) es)\<rparr>"
  using assms
proof (induction es arbitrary: m sent)
  case (Cons e es)
  let ?m = "m\<lparr>rm_pendingAcks := rm_pendingAcks m @ [(e, length (repl_bytes (Replicate e)))],
      rm_socket := Some (sent @ [repl_bytes (Replicate e)])\<rparr>"
  have "snd (replicate_entry mem e m) = ?m"
    using Cons.prems by (simp add: replicate_entry_def serializeReplicate_ok)
  then show ?case
    using Cons.IH [of ?m "sent @ [repl_bytes (Replicate e)]"] Cons.prems by (simp add: replicate_all_def)
qed (simp add: replicate_all_def)

text \<open>Without a connection an entry only schedules the next attempt.\<close>

lemma replicate_disconnected:
  assumes "\<not> rm_connected m"
  shows "replicate_all mem es m = (if es = [] then m else scheduleReconnect m)"
proof -
  have step: "snd (replicate_entry mem e m) = scheduleReconnect m" if "\<not> rm_connected m" for e m
    using that by (simp add: replicate_entry_def)
  have idle: "\<not> rm_connected (scheduleReconnect m)" "scheduleReconnect (scheduleReconnect m) = scheduleReconnect m"
    using assms by (simp_all add: scheduleReconnect_def)
  have "replicate_all mem es (scheduleReconnect m) = scheduleReconnect m" for es
    using idle step [OF idle(1)] by (induction es) (simp_all add: replicate_all_def)
  then show ?thesis
    using step [OF assms] by (cases es) (simp_all add: replicate_all_def)
qed

lemma manager_message_frame:
  "snd (manager_message now msg (m\<lparr>rm_buffer := b\<rparr>)) = (snd (manager_message now msg m))\<lparr>rm_buffer := b\<rparr>"
  by (cases msg)
    (simp_all add: manager_message_def handleAck_def pending_resolve_def pending_reject_def
      rm_updateMetricsSuccess_def rm_updateMetricsFailure_def Let_def split: list.split)

lemma manager_stream:
  assumes "\<forall>m\<in>set ms. repl_ok m" "rm_buffer m = []" "concat chunks = repl.stream ms"
  shows "fold (\<lambda>chunk m. snd (manager_handleData now chunk m)) chunks m =
    (fold (\<lambda>msg m. snd (manager_message now msg m)) ms m)\<lparr>rm_buffer := []\<rparr>"
proof (rule repl.chunks_in_order [where get = rm_buffer and put = "\<lambda>b m. m\<lparr>rm_buffer := b\<rparr>"])
  show "manager_message now msg m = (Inr (), snd (manager_message now msg m))" for msg m
    by (simp add: manager_message_def)
qed (use assms manager_message_frame in \<open>auto simp: manager_handleData_def\<close>)

text \<open>Acknowledgements settle what waits in order; their sequence numbers are not looked at.\<close>

definition acked_bytes :: "(log_entry \<times> nat) list \<Rightarrow> unit res list \<Rightarrow> nat" where
  "acked_bytes ps rs = sum_list (map2 (\<lambda>p r. if r = Inr () then snd p else 0) ps rs)"

lemma manager_acks:
  assumes "rm_pendingAcks m = ps @ rest" "map fst ps = es" "length rs = length es"
  shows "\<exists>m'. fold (\<lambda>msg m. snd (manager_message now msg m)) (map2 entry_ack es rs) m = m' \<and>
    rm_pendingAcks m' = rest \<and> rm_socket m' = rm_socket m \<and> rm_connected m' = rm_connected m \<and>
    rm_buffer m' = rm_buffer m \<and>
    rm_lastReplicatedSequence m' = last_applied es rs (rm_lastReplicatedSequence m) \<and>
    mx_entriesReplicated (rm_metrics m') =
      mx_entriesReplicated (rm_metrics m) + length (filter (\<lambda>x. x = Inr ()) rs) \<and>
    mx_bytesReplicated (rm_metrics m') = mx_bytesReplicated (rm_metrics m) + acked_bytes ps rs \<and>
    mx_failedAttempts (rm_metrics m') =
      mx_failedAttempts (rm_metrics m) + length (filter (\<lambda>x. x \<noteq> Inr ()) rs)"
  using assms
proof (induction rs arbitrary: m ps es)
  case Nil
  then show ?case by (simp add: acked_bytes_def)
next
  case (Cons r rs)
  obtain e es' where es: "es = e # es'" using Cons.prems(3) by (cases es) auto
  then obtain p ps' where ps: "ps = p # ps'" "fst p = e" "map fst ps' = es'"
    using Cons.prems(2) by (cases ps) auto
  define m1 where "m1 = snd (manager_message now (entry_ack e r) m)"
  have m1: "rm_pendingAcks m1 = ps' @ rest" "rm_socket m1 = rm_socket m" "rm_connected m1 = rm_connected m"
    "rm_buffer m1 = rm_buffer m"
    "rm_lastReplicatedSequence m1 = (if r = Inr () then int (le_seq e) else rm_lastReplicatedSequence m)"
    "mx_entriesReplicated (rm_metrics m1) = mx_entriesReplicated (rm_metrics m) + (if r = Inr () then 1 else 0)"
    "mx_bytesReplicated (rm_metrics m1) = mx_bytesReplicated (rm_metrics m) + (if r = Inr () then snd p else 0)"
    "mx_failedAttempts (rm_metrics m1) = mx_failedAttempts (rm_metrics m) + (if r = Inr () then 0 else 1)"
    using Cons.prems(1) ps
    by (cases r; simp add: m1_def manager_message_def entry_ack_def repl_status_def handleAck_def REPL_OK_def
        REPL_ERROR_def pending_resolve_def pending_reject_def rm_updateMetricsSuccess_def
        rm_updateMetricsFailure_def Let_def)+
  have "length rs = length es'" using Cons.prems(3) es by simp
  note IH = Cons.IH [OF m1(1) ps(3) this]
  have "acked_bytes ps (r # rs) = (if r = Inr () then snd p else 0) + acked_bytes ps' rs"
    by (simp add: acked_bytes_def ps(1))
  then show ?case using IH m1 by (auto simp: es m1_def [symmetric])
qed

text \<open>The whole way: entries over a fresh connection and their acknowledgements back.\<close>

lemma replication_link:
  assumes "rm_connected m" "rm_socket m = Some []" "rm_pendingAcks m = []" "rm_buffer m = []"
    "\<forall>e\<in>set es. repl_entry_ok e" "rm_socket (replicate_all mem es m) = Some sent" "concat chunks = concat sent"
    "rs_buffer r = []" "rs_sent r = []"
    "fold (repl_on_data h clock mem') chunks (s, r) = (s', r')" "concat chunks' = concat (rs_sent r')"
    "fold (\<lambda>chunk m. snd (manager_handleData now chunk m)) chunks' (replicate_all mem es m) = m'"
  defines "rs \<equiv> fst (run_entries h es s)"
  shows "s' = snd (run_entries h es s)" "rm_pendingAcks m' = []"
    "rm_lastReplicatedSequence m' = last_applied es rs (rm_lastReplicatedSequence m)"
    "rs_lastAppliedSequence r' = last_applied es rs (rs_lastAppliedSequence r)"
    "mx_entriesReplicated (rm_metrics m') =
      mx_entriesReplicated (rm_metrics m) + length (filter (\<lambda>x. x = Inr ()) rs)"
    "mx_failedAttempts (rm_metrics m') =
      mx_failedAttempts (rm_metrics m) + length (filter (\<lambda>x. x \<noteq> Inr ()) rs)"
proof -
  note bytes = replicate_connected [OF assms(1,2,5), of mem]
  have "concat chunks = repl.stream (map Replicate es)"
    using assms(6,7) bytes by (auto simp: repl.stream_def comp_def)
  note srv = server_entries [OF assms(5,8) this assms(10)]
  show "s' = snd (run_entries h es s)" by (rule srv(1))
  show "rs_lastAppliedSequence r' = last_applied es rs (rs_lastAppliedSequence r)"
    unfolding rs_def by (rule srv(3))
  have len: "length rs = length es" by (simp add: rs_def run_entries_length)
  have answers: "concat chunks' = repl.stream (map2 entry_ack es rs)"
    using assms(11) srv(2) assms(9) by (simp add: repl.stream_def rs_def comp_def case_prod_unfold)
  have ok: "\<forall>a\<in>set (map2 entry_ack es rs). repl_ok a"
    using assms(5) by (auto dest: set_zip_leftD intro!: entry_ack_ok)
  let ?m = "replicate_all mem es m"
  have p: "rm_pendingAcks ?m = map (\<lambda>e. (e, length (repl_bytes (Replicate e)))) es @ []" "rm_buffer ?m = []"
    "rm_lastReplicatedSequence ?m = rm_lastReplicatedSequence m" "rm_metrics ?m = rm_metrics m"
    using assms(3,4) by (simp_all add: bytes)
  have "m' = (fold (\<lambda>msg m. snd (manager_message now msg m)) (map2 entry_ack es rs) ?m)\<lparr>rm_buffer := []\<rparr>"
    using manager_stream [OF ok p(2) answers, of now] assms(12) by simp
  moreover have "map fst (map (\<lambda>e. (e, length (repl_bytes (Replicate e)))) es) = es" by (simp add: comp_def)
  note acks = manager_acks [OF p(1) this len, of now]
  ultimately show "rm_pendingAcks m' = []"
    "rm_lastReplicatedSequence m' = last_applied es rs (rm_lastReplicatedSequence m)"
    "mx_entriesReplicated (rm_metrics m') =
      mx_entriesReplicated (rm_metrics m) + length (filter (\<lambda>x. x = Inr ()) rs)"
    "mx_failedAttempts (rm_metrics m') =
      mx_failedAttempts (rm_metrics m) + length (filter (\<lambda>x. x \<noteq> Inr ()) rs)"
    by (simp_all add: p)
qed

section \<open>The connection as a machine\<close>

text \<open>What happens to a manager once the application has called \<open>connect\<close>, until it disconnects.\<close>

inductive manager_step :: "(nat \<Rightarrow> byte) \<Rightarrow> repl_manager \<Rightarrow> repl_manager \<Rightarrow> bool" for mem where
  ms_connected: "rm_connecting m \<Longrightarrow> manager_step mem m (repl_on_connect m)"
| ms_error: "rm_socket m \<noteq> None \<Longrightarrow> manager_step mem m (repl_on_error now m)"
| ms_timeout: "rm_socket m \<noteq> None \<Longrightarrow> manager_step mem m (repl_on_timeout now m)"
| ms_close: "rm_socket m \<noteq> None \<Longrightarrow> manager_step mem m (handleConnectionClose now m)"
| ms_timer: "rm_reconnectTimer m \<Longrightarrow> manager_step mem m (reconnect_fires m)"
| ms_replicate: "manager_step mem m (snd (replicate_entry mem e m))"
| ms_data: "manager_step mem m (snd (manager_handleData now chunk m))"

inductive manager_reach :: "(nat \<Rightarrow> byte) \<Rightarrow> repl_manager \<Rightarrow> bool" for mem where
  mr_start: "manager_reach mem (repl_connect False new_manager)"
| mr_step: "manager_reach mem m \<Longrightarrow> manager_step mem m m' \<Longrightarrow> manager_reach mem m'"

inductive_cases manager_stepE: "manager_step mem m m'"

lemma rejects_frame [simp]:
  "rm_connected (repl_rejectAllPending now m) = rm_connected m"
  "rm_connecting (repl_rejectAllPending now m) = rm_connecting m"
  "rm_retrying (repl_rejectAllPending now m) = rm_retrying m"
  "rm_socket (repl_rejectAllPending now m) = rm_socket m"
  "rm_reconnectTimer (repl_rejectAllPending now m) = rm_reconnectTimer m"
  "rm_buffer (repl_rejectAllPending now m) = rm_buffer m"
  "rm_pendingAcks (repl_rejectAllPending now m) = []"
proof -
  have "rm_connected (fold (pending_reject now) ps m) = rm_connected m \<and>
    rm_connecting (fold (pending_reject now) ps m) = rm_connecting m \<and>
    rm_retrying (fold (pending_reject now) ps m) = rm_retrying m \<and>
    rm_socket (fold (pending_reject now) ps m) = rm_socket m \<and>
    rm_reconnectTimer (fold (pending_reject now) ps m) = rm_reconnectTimer m \<and>
    rm_buffer (fold (pending_reject now) ps m) = rm_buffer m" for ps
    by (induction ps arbitrary: m) (simp_all add: pending_reject_def rm_updateMetricsFailure_def Let_def)
  then show "rm_connected (repl_rejectAllPending now m) = rm_connected m"
    "rm_connecting (repl_rejectAllPending now m) = rm_connecting m"
    "rm_retrying (repl_rejectAllPending now m) = rm_retrying m"
    "rm_socket (repl_rejectAllPending now m) = rm_socket m"
    "rm_reconnectTimer (repl_rejectAllPending now m) = rm_reconnectTimer m"
    "rm_buffer (repl_rejectAllPending now m) = rm_buffer m"
    "rm_pendingAcks (repl_rejectAllPending now m) = []"
    by (simp_all add: repl_rejectAllPending_def)
qed

lemma failure_frame [simp]:
  "rm_connected (rm_updateMetricsFailure now m) = rm_connected m"
  "rm_connecting (rm_updateMetricsFailure now m) = rm_connecting m"
  "rm_retrying (rm_updateMetricsFailure now m) = rm_retrying m"
  "rm_socket (rm_updateMetricsFailure now m) = rm_socket m"
  "rm_reconnectTimer (rm_updateMetricsFailure now m) = rm_reconnectTimer m"
  "rm_pendingAcks (rm_updateMetricsFailure now m) = rm_pendingAcks m"
  "rm_buffer (rm_updateMetricsFailure now m) = rm_buffer m"
  by (simp_all add: rm_updateMetricsFailure_def Let_def)

lemma data_frame:
  "rm_connected (snd (manager_handleData now chunk m)) = rm_connected m"
  "rm_connecting (snd (manager_handleData now chunk m)) = rm_connecting m"
  "rm_retrying (snd (manager_handleData now chunk m)) = rm_retrying m"
  "rm_socket (snd (manager_handleData now chunk m)) = rm_socket m"
  "rm_reconnectTimer (snd (manager_handleData now chunk m)) = rm_reconnectTimer m"
proof -
  let ?p = "\<lambda>bs. repl_parseMessage (of_bytes bs)"
  have step: "rm_connected (snd (manager_message now msg m)) = rm_connected m \<and>
    rm_connecting (snd (manager_message now msg m)) = rm_connecting m \<and>
    rm_retrying (snd (manager_message now msg m)) = rm_retrying m \<and>
    rm_socket (snd (manager_message now msg m)) = rm_socket m \<and>
    rm_reconnectTimer (snd (manager_message now msg m)) = rm_reconnectTimer m" for msg m
    by (cases msg) (auto simp: manager_message_def handleAck_def pending_resolve_def pending_reject_def
        rm_updateMetricsSuccess_def Let_def split: list.split)
  have "rm_connected (snd (snd (drain ?p (manager_message now) b m))) = rm_connected m \<and>
    rm_connecting (snd (snd (drain ?p (manager_message now) b m))) = rm_connecting m \<and>
    rm_retrying (snd (snd (drain ?p (manager_message now) b m))) = rm_retrying m \<and>
    rm_socket (snd (snd (drain ?p (manager_message now) b m))) = rm_socket m \<and>
    rm_reconnectTimer (snd (snd (drain ?p (manager_message now) b m))) = rm_reconnectTimer m" for b
    by (rule drain_keeps [where P = "\<lambda>m'. rm_connected m' = rm_connected m \<and> rm_connecting m' = rm_connecting m \<and>
        rm_retrying m' = rm_retrying m \<and> rm_socket m' = rm_socket m \<and> rm_reconnectTimer m' = rm_reconnectTimer m"])
      (simp_all add: step)
  then show "rm_connected (snd (manager_handleData now chunk m)) = rm_connected m"
    "rm_connecting (snd (manager_handleData now chunk m)) = rm_connecting m"
    "rm_retrying (snd (manager_handleData now chunk m)) = rm_retrying m"
    "rm_socket (snd (manager_handleData now chunk m)) = rm_socket m"
    "rm_reconnectTimer (snd (manager_handleData now chunk m)) = rm_reconnectTimer m"
    by (simp_all add: manager_handleData_def case_prod_unfold)
qed

text \<open>At most one of: connected, connecting, waiting for the timer.\<close>

definition manager_inv :: "repl_manager \<Rightarrow> bool" where
  "manager_inv m \<longleftrightarrow>
     \<not> (rm_connected m \<and> rm_connecting m) \<and> \<not> (rm_connected m \<and> rm_reconnectTimer m) \<and>
     \<not> (rm_connecting m \<and> rm_reconnectTimer m) \<and> (rm_retrying m \<longrightarrow> rm_connecting m) \<and>
     (rm_connected m \<or> rm_connecting m \<longrightarrow> rm_socket m \<noteq> None)"

definition trying :: "repl_manager \<Rightarrow> bool" where
  "trying m \<longleftrightarrow> rm_connected m \<or> rm_reconnectTimer m \<or> rm_connecting m \<and> rm_retrying m"

lemmas manager_event_defs = repl_on_connect_def repl_on_error_def repl_on_timeout_def handleConnectionError_def
  attempt_fails_def handleConnectionClose_def reconnect_fires_def repl_connect_def scheduleReconnect_def
  replicate_entry_def

lemma manager_step_inv:
  assumes "manager_step mem m m'" "manager_inv m"
  shows "manager_inv m' \<and> (trying m \<longrightarrow> trying m')"
  using assms
proof (cases rule: manager_step.cases)
  case (ms_replicate e)
  then show ?thesis using assms(2)
    by (auto simp: manager_event_defs manager_inv_def trying_def split: sum.split)
next
  case (ms_data now chunk)
  then show ?thesis using assms(2)
    by (simp add: manager_inv_def trying_def data_frame)
qed (auto simp: manager_event_defs manager_inv_def trying_def Let_def)

lemma manager_reach_inv: "manager_reach mem m \<Longrightarrow> manager_inv m"
proof (induction rule: manager_reach.induct)
  case mr_start
  show ?case by (simp add: manager_inv_def repl_connect_def new_manager_def)
qed (use manager_step_inv in blast)

end
