(* ===== verification/Replication_Store.thy ===== *)
theory Replication_Store
  imports Compaction_Writes Replication_Proofs
begin

text \<open>
  The replication between two stores, as createApplication of src/src/index.ts connects them:
  the primary hands every entry its log has acknowledged to the manager, and the backup's server
  gives what it receives to \<open>applyReplicatedEntry\<close>. The backup comes to stand for the map
  that the entries it was sent make.
\<close>

section \<open>Applying an entry\<close>

text \<open>
  The entry handler of the backup. Between two entries its background flush may take any
  number of steps, the argument \<open>background\<close>.
\<close>

definition backup_handler ::
  "read_env \<Rightarrow> (store \<times> disk \<Rightarrow> nat) \<Rightarrow> (store \<times> disk \<Rightarrow> store \<times> disk) \<Rightarrow> (store \<times> disk) apply_op" where
  "backup_handler env clock background e c =
     (case applyReplicatedEntry (env_mem env) (clock c) e (fst c) (snd c) of
        (r, c) \<Rightarrow> (r, background c))"

definition background_ok :: "read_env \<Rightarrow> (store \<times> disk \<Rightarrow> store \<times> disk) \<Rightarrow> bool" where
  "background_ok env background \<longleftrightarrow>
     (\<forall>c. store_run env (\<lambda>s. True) c [] (background c) \<and>
        wal_sequenceId (st_wal (fst (background c))) = wal_sequenceId (st_wal (fst c)) \<and>
        wal_pendingWrites (st_wal (fst (background c))) = wal_pendingWrites (st_wal (fst c)))"

lemma background_none: "background_ok env (\<lambda>c. c)"
  by (simp add: background_ok_def run_refl)

text \<open>An entry that the log took and the tables can hold.\<close>

definition sound_entry :: "log_entry \<Rightarrow> bool" where
  "sound_entry e \<longleftrightarrow> entry_ok e \<and> storable_body (log_body.truncate e)"

lemma truncate_again [simp]: "log_body.truncate (log_body.truncate b) = log_body.truncate b"
  by (simp add: log_body.defs)

lemma sound_restamp:
  assumes "sound_entry e" "i \<le> 2 ^ 53" "t \<le> 2 ^ 53"
  shows "sound_entry (stamp (log_body.truncate e) i t)"
proof -
  obtain b where b: "body_ok b" "e = stamp b (le_seq e) (le_time e)"
    using assms(1) by (auto simp: sound_entry_def entry_ok_def)
  then have t: "log_body.truncate e = b" by (metis truncate_stamp)
  have len: "length (entry_data (stamp b i t)) = length (entry_data e)"
    by (subst b(2)) (simp add: length_entry_data)
  then have "entry_ok (stamp b i t)"
    using assms b(1) by (auto simp: entry_ok_def sound_entry_def)
  then show ?thesis using assms(1) by (simp add: sound_entry_def t)
qed

lemma view_effect_stamp [simp]: "view_effect (stamp b i t) = view_effect b"
  by (rule ext) (simp add: view_effect_def cong: log_op.case_cong)

lemma view_effect_truncate [simp]: "view_effect (log_body.truncate e) = view_effect e"
  by (rule ext) (simp add: view_effect_def log_body.defs cong: log_op.case_cong)

lemma finish_write_log [simp]: "st_wal (finish_write now e s) = st_wal s"
  by (simp add: finish_write_def maybeFlush_def triggerFlush_def Let_def split: sum.split)

lemma store_write_log:
  "store_write mem now body s d = (Inr (), s', d') \<Longrightarrow>
   wal_sequenceId (st_wal s') = wal_sequenceId (st_wal s) + 1 \<and> wal_syncPolicy (st_wal s') = wal_syncPolicy (st_wal s)"
  by (auto simp: store_write_def append_sync_def Let_def split: sum.splits)

text \<open>
  A write that finds no batch waiting is one write of the store under every policy: under group
  commit the steps are the queueing of its entry and the commit of the batch.
\<close>

lemma store_commit_run:
  assumes "store_inv env s d tables" "wal_pendingWrites (st_wal s) = []" "now \<le> 2 ^ 53"
    "sound_entry (stamp body (wal_sequenceId (st_wal s)) now)"
  obtains s' d' where "store_commit (env_mem env) now body s d = (Inr (), s', d')"
    "store_run env (\<lambda>s. True) (s, d) [stamp body (wal_sequenceId (st_wal s)) now] (s', d')"
    "wal_sequenceId (st_wal s') = Suc (wal_sequenceId (st_wal s))" "wal_pendingWrites (st_wal s') = []"
proof -
  let ?e = "stamp body (wal_sequenceId (st_wal s)) now"
  note log = store_inv_log [OF assms(1)]
  have handle: "wal_fileHandle (st_wal s)" using log(1) by (auto simp: log_inv_def log_ready_def)
  have ok: "entry_ok ?e" "acceptable ?e"
    using assms(4) by (simp_all add: sound_entry_def acceptable_def loggable_def)
  show thesis
  proof (cases "wal_syncPolicy (st_wal s) = SYNC_EVERY_WRITE")
    case True
    obtain s' d' where w: "store_write (env_mem env) now body s d = (Inr (), s', d')"
      using store_write_total [OF assms(1) ok(1)] by blast
    have "store_step env (s, d) [?e] (s', d')" using store_step.step_write [OF True ok(2) assms(3) w] by simp
    then have "store_run env (\<lambda>s. True) (s, d) ([] @ [?e]) (s', d')" by (intro run_step [OF run_refl]) simp_all
    moreover have "wal_sequenceId (st_wal s') = Suc (wal_sequenceId (st_wal s)) \<and>
        wal_pendingWrites (st_wal s') = wal_pendingWrites (st_wal s)"
      using w by (auto simp: store_write_def append_sync_def Let_def split: sum.splits)
    ultimately show thesis using True w assms(2) by (intro that [of s' d']) (simp_all add: store_commit_def)
  next
    case False
    define w where "w = (st_wal s)\<lparr>wal_sequenceId := Suc (wal_sequenceId (st_wal s)), wal_pendingWrites := [?e]\<rparr>"
    have q: "store_enqueue now body s = Inr (s\<lparr>st_wal := w\<rparr>, False)"
      using log(3) assms(2) by (simp add: store_enqueue_def ensureInitialized_def append_queue_def Let_def w_def)
    obtain logs where "write_batch (env_mem env) [?e] (w\<lparr>wal_pendingWrites := []\<rparr>) (dk_logs d) = (None, logs)"
      using write_batch_total [of "w\<lparr>wal_pendingWrites := []\<rparr>" "[?e]" "env_mem env" "dk_logs d"] handle ok(1)
      by (auto simp: w_def)
    then have f: "flushBatch (env_mem env) w (dk_logs d) = (None, [?e], w\<lparr>wal_pendingWrites := []\<rparr>, logs)"
      using handle by (simp add: flushBatch_def flushBatchUnlocked_def w_def)
    let ?s = "finish_write now ?e (s\<lparr>st_wal := w\<lparr>wal_pendingWrites := []\<rparr>\<rparr>)"
    have c: "store_flushBatch (env_mem env) now (s\<lparr>st_wal := w\<rparr>) d = (?s, d\<lparr>dk_logs := logs\<rparr>)"
      using f by (simp add: store_flushBatch_def)
    have "store_step env (s, d) [] (s\<lparr>st_wal := w\<rparr>, d)" by (rule store_step.step_enqueue [OF False ok(2) q])
    moreover have "store_step env (s\<lparr>st_wal := w\<rparr>, d) [?e] (?s, d\<lparr>dk_logs := logs\<rparr>)"
      unfolding c [symmetric] by (rule store_step.step_commit [OF _ assms(3)]) (simp, rule f)
    ultimately have "store_run env (\<lambda>s. True) (s, d) (([] @ []) @ [?e]) (?s, d\<lparr>dk_logs := logs\<rparr>)"
      by (intro run_step [OF run_step [OF run_refl]]) simp_all
    moreover have "store_commit (env_mem env) now body s d = (Inr (), ?s, d\<lparr>dk_logs := logs\<rparr>)"
      using False q f c by (simp add: store_commit_def)
    ultimately show thesis by (intro that [of ?s "d\<lparr>dk_logs := logs\<rparr>"]) (simp_all add: w_def)
  qed
qed

text \<open>The handler of the backup does what such a write does.\<close>

lemma apply_is_commit:
  assumes "storable_body (log_body.truncate e)" "wal_pendingWrites (st_wal s) = []"
  shows "applyReplicatedEntry mem now e s d = store_commit mem now (log_body.truncate e) s d"
proof -
  have eff: "write_memtable now (stamp (log_body.truncate e) i t) m = applyLogEntry now e m" for i t m
    using applyLogEntry_write [OF assms(1)] write_memtable_truncate [of now e]
      write_memtable_truncate [of now "stamp (log_body.truncate e) i t"] by simp
  have body: "write_memtable now (log_body.truncate e) m = applyLogEntry now e m" for m
    using applyLogEntry_write [OF assms(1)] by (simp add: write_memtable_truncate)
  show ?thesis
    using assms(2)
    by (auto simp: applyReplicatedEntry_def store_commit_def store_write_def finish_write_def body eff store_enqueue_def
        store_flushBatch_def ensureInitialized_def append_queue_def flushBatch_def flushBatchUnlocked_def Let_def
        split: sum.split prod.split option.split)
qed

lemma backup_step:
  assumes "store_sim env c m" "wal_pendingWrites (st_wal (fst c)) = []" "sound_entry e"
    "wal_sequenceId (st_wal (fst c)) \<le> 2 ^ 53" "clock c \<le> 2 ^ 53" "background_ok env background"
  obtains c' where "backup_handler env clock background e c = (Inr (), c')" "store_sim env c' (view_effect e m)"
    "wal_sequenceId (st_wal (fst c')) = wal_sequenceId (st_wal (fst c)) + 1"
    "wal_pendingWrites (st_wal (fst c')) = []"
proof -
  obtain s d where c: "c = (s, d)" by fastforce
  obtain tables where inv: "store_inv env s d tables" using assms(1) by (auto simp: store_sim_def c)
  let ?b = "log_body.truncate e" and ?i = "wal_sequenceId (st_wal s)"
  have ok: "sound_entry (stamp ?b ?i (clock c))"
    using assms(3-5) by (intro sound_restamp) (simp_all add: c)
  obtain s' d' where w: "store_commit (env_mem env) (clock c) ?b s d = (Inr (), s', d')"
    "store_run env (\<lambda>s. True) (s, d) [stamp ?b ?i (clock c)] (s', d')"
    "wal_sequenceId (st_wal s') = Suc ?i" "wal_pendingWrites (st_wal s') = []"
    by (rule store_commit_run [OF inv _ assms(5) ok]) (use assms(2) c in simp)
  have ap: "applyReplicatedEntry (env_mem env) (clock c) e s d = (Inr (), s', d')"
    using apply_is_commit assms(2,3) w(1) by (simp add: sound_entry_def c)
  have sim: "store_sim env (s', d') (view_effect e m)"
    using store_run_sim [OF w(2)] assms(1) by (simp add: c)
  have bg: "store_run env (\<lambda>s. True) (s', d') [] (background (s', d'))"
    using assms(6) by (simp add: background_ok_def)
  show thesis
  proof (rule that)
    show "backup_handler env clock background e c = (Inr (), background (s', d'))"
      using ap by (simp add: backup_handler_def c)
    show "store_sim env (background (s', d')) (view_effect e m)"
      using store_run_sim [OF bg sim] by simp
  qed (use w(3,4) assms(6) in \<open>simp_all add: background_ok_def c\<close>)
qed

lemma backup_entries:
  assumes "store_sim env c m" "wal_pendingWrites (st_wal (fst c)) = []" "\<forall>e\<in>set es. sound_entry e"
    "wal_sequenceId (st_wal (fst c)) + length es \<le> 2 ^ 53" "\<forall>c. clock c \<le> 2 ^ 53" "background_ok env background"
  shows "\<exists>c'. run_entries (backup_handler env clock background) es c = (map (\<lambda>e. Inr ()) es, c') \<and>
    store_sim env c' (fold view_effect es m)"
  using assms(1-4)
proof (induction es arbitrary: c m)
  case (Cons e es)
  obtain c' where c': "backup_handler env clock background e c = (Inr (), c')" "store_sim env c' (view_effect e m)"
    "wal_sequenceId (st_wal (fst c')) = wal_sequenceId (st_wal (fst c)) + 1"
    "wal_pendingWrites (st_wal (fst c')) = []"
    by (rule backup_step [OF Cons.prems(1,2) _ _ _ assms(6), of e clock]) (use Cons.prems(3,4) assms(5) in \<open>simp_all del: split_paired_All\<close>)
  obtain c'' where "run_entries (backup_handler env clock background) es c' = (map (\<lambda>e. Inr ()) es, c'')"
    "store_sim env c'' (fold view_effect es (view_effect e m))"
    using Cons.IH [OF c'(2,4)] Cons.prems c'(3) by auto
  then show ?case using c'(1) by simp
qed simp

section \<open>What a log acknowledges\<close>

lemma store_step_acked:
  assumes "store_step env (s, d) acked c'" "store_inv env s0 d0 tables" "st_wal s0 = st_wal s" "dk_logs d0 = dk_logs d"
    "st_initialized s0 = st_initialized s"
  shows "\<forall>e\<in>set acked. sound_entry e"
proof -
  have log: "log_inv \<lparr>lg_wal = st_wal s, lg_dir = dk_logs d, lg_acked = []\<rparr>"
    "\<forall>e\<in>set (wal_pendingWrites (st_wal s)). acceptable e" "st_initialized s"
    using store_inv_log [OF assms(2)] assms(3-5) by simp_all
  show ?thesis
    using assms(1)
  proof (cases rule: store_step.cases)
    case (step_write body now r s' d')
    obtain r1 w logs new where a: "append_sync (env_mem env) now body (st_wal s) (dk_logs d) = (r1, w, logs, new)"
      by (metis prod_cases4)
    have "loggable (stamp body (wal_sequenceId (st_wal s)) now)" using step_write(4) by (simp add: acceptable_def)
    note acked = append_sync_acked [OF log(1) this a]
    have "r = Inr () \<Longrightarrow> r1 = Inr ()"
      using step_write(6) a log(3) by (auto simp: store_write_def ensureInitialized_def split: sum.splits)
    then show ?thesis
      using acked step_write acceptable_storable [OF step_write(4)] by (auto simp: sound_entry_def)
  next
    case (step_commit err w logs now)
    then show ?thesis
      using flushBatchUnlocked_acked(1) [OF log(1)] log(2) acceptable_storable
      unfolding flushBatch_unlocked sound_entry_def by blast
  next
    case (step_checkpoint now err w logs)
    then show ?thesis
      using checkpoint_acked(1) [OF log(1)] log(2) acceptable_storable
      unfolding sound_entry_def by blast
  qed simp_all
qed

lemma store_run_sound:
  assumes "store_run env P c es c'" "store_sim env c m"
  shows "\<forall>e\<in>set es. sound_entry e"
  using assms
proof (induction rule: store_run.induct)
  case (run_step c es c' acked c'')
  obtain tables where inv: "store_inv env (fst c') (snd c') tables"
    using store_run_sim [OF run_step.hyps(1) run_step.prems] by (auto simp: store_sim_def)
  have "store_step env (fst c', snd c') acked c''" using run_step.hyps(3) by simp
  from store_step_acked [OF this inv] show ?case using run_step by auto
qed simp

text \<open>The same with compactions between the writes.\<close>

lemma system_run_sound:
  assumes "system_run env (\<lambda>s. True) x es y" "system_good env (store_inv env) m x"
  shows "\<forall>e\<in>set es. sound_entry e"
  using assms
proof (induction rule: system_run.induct)
  case (sys_step x es y acked z)
  have good: "system_good env (store_inv env) (fold view_effect es m) y"
    by (rule running.system_run_good [OF sys_step.hyps(1) sys_step.prems])
  have "\<forall>e\<in>set acked. sound_entry e"
    using sys_step.hyps(3)
  proof (cases rule: system_step.cases)
    case (sys_store s d s' d' c)
    obtain s0 d0 tables where "store_inv env s0 d0 tables" "st_wal s0 = st_wal s" "dk_logs d0 = dk_logs d"
      "st_initialized s0 = st_initialized s"
      using running.system_memory good unfolding sys_store(1) by metis
    then show ?thesis by (rule store_step_acked [OF sys_store(3)])
  qed simp_all
  then show ?case using sys_step by auto
qed simp

lemma sound_repl_ok: "sound_entry e \<Longrightarrow> repl_entry_ok e"
  by (simp add: sound_entry_def entry_ok_repl)

section \<open>A connection of two stores\<close>

lemma fresh_store_sim:
  assumes "2147483647 \<le> env_limit env" "cf_falsePositiveRate cfg < 1" "now \<le> 2 ^ 53"
    "store_initialize env now (new_store policy limit cfg t) empty_disk = Inr (s, d)"
  shows "store_sim env (s, d) Map.empty" "wal_sequenceId (st_wal s) = 0" "wal_pendingWrites (st_wal s) = []"
proof -
  obtain s' d' where f: "store_initialize env now (new_store policy limit cfg t) empty_disk = Inr (s', d')"
    "durable env s' d' []" "store_view s' [] = Map.empty" "wal_sequenceId (st_wal s') = 0"
    "wal_pendingWrites (st_wal s') = []"
    by (rule fresh_start [OF assms(1-3), of policy limit t]) simp_all
  then show "store_sim env (s, d) Map.empty" "wal_sequenceId (st_wal s) = 0" "wal_pendingWrites (st_wal s) = []"
    using assms(4) by (auto simp: store_sim_def durable_def)
qed

lemma sim_get: "store_sim env c m \<Longrightarrow> store_get env k (fst c) = Inr (m k)"
  using store_get_ok store_inv_reads by (fastforce simp: store_sim_def)

lemma sim_ranges:
  assumes "store_sim env c m" "store_sim env' c' m"
  shows "readKeyRange env' a b n (fst c') = readKeyRange env a b n (fst c)"
proof -
  obtain ts ts' where t: "store_inv env (fst c) (snd c) ts" "store_inv env' (fst c') (snd c') ts'"
    "store_view (fst c') ts' = store_view (fst c) ts"
    using assms unfolding store_sim_def by metis
  note reads = store_inv_reads [OF t(1)] store_inv_reads [OF t(2)]
  show ?thesis by (rule same_ranges [OF reads(1,3,2) reads(4,6,5) t(3)])
qed

text \<open>Entries sent to a backup with a map of its own, over a connection of its own.\<close>

lemma replicate_to_store:
  assumes "store_sim env c0 m0" "wal_pendingWrites (st_wal (fst c0)) = []"
    "wal_sequenceId (st_wal (fst c0)) + length es \<le> 2 ^ 53" "\<forall>c. clock c \<le> 2 ^ 53" "background_ok env background"
    "\<forall>e\<in>set es. sound_entry e" "rm_connected m" "rm_socket m = Some []"
    "rm_socket (replicate_all mem es m) = Some sent" "concat chunks = concat sent" "rs_buffer r = []"
    "fold (repl_on_data (backup_handler env clock background) time mem') chunks (c0, r) = (c, r')"
  shows "store_sim env c (fold view_effect es m0)"
    "es \<noteq> [] \<Longrightarrow> rs_lastAppliedSequence r' = int (le_seq (last es))"
proof -
  have ok: "\<forall>e\<in>set es. repl_entry_ok e" using assms(6) sound_repl_ok by blast
  have "concat chunks = repl.stream (map Replicate es)"
    using assms(9,10) replicate_connected [OF assms(7,8) ok, of mem] by (auto simp: repl.stream_def comp_def)
  note srv = server_entries [OF ok assms(11) this assms(12)]
  obtain c' where c': "run_entries (backup_handler env clock background) es c0 = (map (\<lambda>e. Inr ()) es, c')"
    "store_sim env c' (fold view_effect es m0)"
    using backup_entries [OF assms(1,2,6,3,4,5)] by blast
  show "store_sim env c (fold view_effect es m0)" using srv(1) c' by simp
  have last: "last_applied es (map (\<lambda>e. Inr ()) es) i = (if es = [] then i else int (le_seq (last es)))" for i
    by (induction es arbitrary: i) auto
  show "es \<noteq> [] \<Longrightarrow> rs_lastAppliedSequence r' = int (le_seq (last es))"
    using srv(3) c'(1) last by simp
qed

end
