(* ===== verification/JS_Text.thy ===== *)
theory JS_Text
  imports JS_String
begin

text \<open>
  What the outer layers use of the text functions of JavaScript: \<open>parseInt(s, 10)\<close>,
  \<open>toLowerCase\<close> as far as a comparison with an ASCII word can tell, \<open>startsWith\<close>,
  \<open>split\<close> at a character, and \<open>decodeURIComponent\<close> with its inverse
  \<open>encodeURIComponent\<close>, which is how a client writes a key in a path.
\<close>

section \<open>Numbers\<close>

text \<open>The white space that \<open>parseInt\<close> skips.\<close>

definition js_space :: "16 word \<Rightarrow> bool" where
  "js_space u \<longleftrightarrow> unat u \<in> {0x9, 0xA, 0xB, 0xC, 0xD, 0x20, 0xA0, 0x1680, 0x2000, 0x2001, 0x2002, 0x2003,
     0x2004, 0x2005, 0x2006, 0x2007, 0x2008, 0x2009, 0x200A, 0x2028, 0x2029, 0x202F, 0x205F, 0x3000, 0xFEFF}"

definition is_digit :: "16 word \<Rightarrow> bool" where
  "is_digit u \<longleftrightarrow> 48 \<le> unat u \<and> unat u \<le> 57"

definition units_value :: "16 word list \<Rightarrow> nat" where
  "units_value us = foldl (\<lambda>a u. a * 10 + (unat u - 48)) 0 us"

text \<open>\<open>None\<close> is NaN. Numbers beyond 2 to the 53 are kept exact where JavaScript rounds them.\<close>

definition parseInt :: "jstring \<Rightarrow> int option" where
  "parseInt s =
     (let us = dropWhile js_space (units s);
          negative = (us \<noteq> [] \<and> unat (hd us) = 45);
          us = (if us \<noteq> [] \<and> (unat (hd us) = 43 \<or> unat (hd us) = 45) then tl us else us);
          digits = takeWhile is_digit us
      in if digits = [] then None
         else Some (if negative then - int (units_value digits) else int (units_value digits)))"

lemma unat_js_char: "unat (word_of_nat (of_char c) :: 16 word) = of_char c"
  using nat_of_char_less_256 [of c] by (simp add: unat_of_nat del: nat_of_char_less_256)

lemma units_value_js: "units_value (units (js s)) = digits_value s"
proof -
  have "foldl (\<lambda>a u. a * 10 + (unat u - 48)) n (units (js s)) = foldl (\<lambda>a c. a * 10 + (of_char c - 48)) n s" for n
    by (induction s arbitrary: n) (simp_all add: js_def unat_js_char)
  then show ?thesis by (simp add: units_value_def digits_value_def)
qed

lemma decimal_digits: "decimal n \<noteq> [] \<and> (\<forall>c\<in>set (decimal n). 48 \<le> (of_char c :: nat) \<and> (of_char c :: nat) \<le> 57)"
proof (induction n rule: decimal.induct)
  case (1 n)
  show ?case
  proof (cases "n < 10")
    case True
    then show ?thesis by (simp add: decimal.simps [of n])
  next
    case False
    then have "n mod 10 \<le> 9" "decimal n = decimal (n div 10) @ [char_of (48 + n mod 10)]"
      by (simp_all add: decimal.simps [of n])
    then show ?thesis using 1 False by simp
  qed
qed

lemma parseInt_decimal: "parseInt (js (decimal n)) = Some (int n)"
proof -
  let ?us = "units (js (decimal n))"
  have d: "\<forall>u\<in>set ?us. is_digit u" "?us \<noteq> []"
    using decimal_digits [of n] by (auto simp: js_def is_digit_def unat_js_char)
  have first: "is_digit (hd ?us)" using d by (meson hd_in_set)
  have "dropWhile js_space ?us = ?us"
    using d(2) first by (cases ?us) (auto simp: js_space_def is_digit_def)
  moreover have "unat (hd ?us) \<noteq> 45" "unat (hd ?us) \<noteq> 43"
    using first by (auto simp: is_digit_def)
  moreover have "takeWhile is_digit ?us = ?us" using d(1) by (simp add: takeWhile_eq_all_conv)
  ultimately show ?thesis
    using d(2) by (simp add: parseInt_def Let_def units_value_js digits_value_decimal del: takeWhile_eq_all_conv)
qed

section \<open>Comparison in lower case\<close>

text \<open>
  Besides the capital letters only the Kelvin sign becomes an ASCII letter of its own; what else
  \<open>toLowerCase\<close> changes stays outside ASCII and is left as it is here.
\<close>

definition lower_unit :: "16 word \<Rightarrow> 16 word" where
  "lower_unit u =
     (if 65 \<le> unat u \<and> unat u \<le> 90 then u + 32 else if unat u = 0x212A then 107 else u)"

definition toLowerCase :: "jstring \<Rightarrow> jstring" where
  "toLowerCase s = JString (map lower_unit (units s))"

section \<open>Parts of a string\<close>

definition startsWith :: "jstring \<Rightarrow> jstring \<Rightarrow> bool" where
  "startsWith s t \<longleftrightarrow> take (length (units t)) (units s) = units t"

text \<open>\<open>s.split(c)\<close>: the parts between the separators, always at least one.\<close>

fun split_units :: "16 word \<Rightarrow> 16 word list \<Rightarrow> 16 word list list" where
  "split_units c [] = [[]]"
| "split_units c (u # us) =
     (if u = c then [] # split_units c us
      else (case split_units c us of [] \<Rightarrow> [[u]] | p # ps \<Rightarrow> (u # p) # ps))"

lemma split_units_hd: "split_units c us \<noteq> [] \<and> hd (split_units c us) = takeWhile (\<lambda>u. u \<noteq> c) us"
  by (induction us) (auto split: list.split)

lemma split_units_first:
  "c \<notin> set us \<Longrightarrow> split_units c (us @ c # vs) = us # split_units c vs"
  by (induction us) auto

section \<open>Percent encoding\<close>

definition hex_value :: "16 word \<Rightarrow> nat option" where
  "hex_value u =
     (let n = unat u in
      if 48 \<le> n \<and> n \<le> 57 then Some (n - 48)
      else if 65 \<le> n \<and> n \<le> 70 then Some (n - 55)
      else if 97 \<le> n \<and> n \<le> 102 then Some (n - 87)
      else None)"

fun percent_byte :: "16 word list \<Rightarrow> (nat \<times> 16 word list) option" where
  "percent_byte (p # h # l # us) =
     (if unat p \<noteq> 37 then None
      else (case (hex_value h, hex_value l) of
              (Some a, Some b) \<Rightarrow> Some (16 * a + b, us)
            | _ \<Rightarrow> None))"
| "percent_byte us = None"

fun percent_bytes :: "nat \<Rightarrow> 16 word list \<Rightarrow> (nat list \<times> 16 word list) option" where
  "percent_bytes 0 us = Some ([], us)"
| "percent_bytes (Suc n) us =
     (case percent_byte us of
        None \<Rightarrow> None
      | Some (b, us) \<Rightarrow> map_option (apfst (Cons b)) (percent_bytes n us))"

lemma percent_byte_shorter: "percent_byte us = Some (b, rest) \<Longrightarrow> length rest < length us"
  by (cases us rule: percent_byte.cases) (auto split: if_splits option.splits)

lemma percent_bytes_shorter: "percent_bytes n us = Some (bs, rest) \<Longrightarrow> length rest \<le> length us"
proof (induction n arbitrary: us bs)
  case (Suc n)
  then obtain b us' bs' where b: "percent_byte us = Some (b, us')" "percent_bytes n us' = Some (bs', rest)"
    by (auto split: option.splits)
  then show ?case using Suc.IH [OF b(2)] percent_byte_shorter [OF b(1)] by simp
qed simp

text \<open>The number of bytes that a lead byte announces: its leading ones.\<close>

definition sequence_length :: "nat \<Rightarrow> nat" where
  "sequence_length b =
     (if 0xC0 \<le> b \<and> b < 0xE0 then 2 else if 0xE0 \<le> b \<and> b < 0xF0 then 3
      else if 0xF0 \<le> b \<and> b < 0xF8 then 4 else 0)"

text \<open>The code units of the one scalar value that the bytes encode.\<close>

definition octets_units :: "byte list \<Rightarrow> 16 word list option" where
  "octets_units bs =
     (case utf8_scan 0 0x80 0xBF 0 bs of
        [c] \<Rightarrow> if utf8_of c = bs then Some (utf16_of c) else None
      | _ \<Rightarrow> None)"

function decode_units :: "16 word list \<Rightarrow> 16 word list res" where
  "decode_units us =
     (case us of
        [] \<Rightarrow> Inr []
      | u # rest \<Rightarrow>
          if unat u \<noteq> 37 then bind_res (decode_units rest) (\<lambda>r. Inr (u # r))
          else
            (case percent_byte us of
               None \<Rightarrow> Inl URIMalformed
             | Some (b, rest) \<Rightarrow>
                 if b < 0x80 then bind_res (decode_units rest) (\<lambda>r. Inr (word_of_nat b # r))
                 else if sequence_length b = 0 then Inl URIMalformed
                 else
                   (case percent_bytes (sequence_length b - 1) rest of
                      None \<Rightarrow> Inl URIMalformed
                    | Some (bs, rest) \<Rightarrow>
                        (case octets_units (map byte_of (b # bs)) of
                           None \<Rightarrow> Inl URIMalformed
                         | Some vs \<Rightarrow> bind_res (decode_units rest) (\<lambda>r. Inr (vs @ r))))))"
  by pat_completeness auto
termination
  by (relation "measure length")
    (auto dest!: percent_byte_shorter percent_bytes_shorter)

declare decode_units.simps [simp del]

definition decodeURIComponent :: "jstring \<Rightarrow> jstring res" where
  "decodeURIComponent s = bind_res (decode_units (units s)) (\<lambda>us. Inr (JString us))"

subsection \<open>The inverse\<close>

definition unreserved :: "nat \<Rightarrow> bool" where
  "unreserved c \<longleftrightarrow> 65 \<le> c \<and> c \<le> 90 \<or> 97 \<le> c \<and> c \<le> 122 \<or> 48 \<le> c \<and> c \<le> 57 \<or>
     c \<in> {45, 95, 46, 33, 126, 42, 39, 40, 41}"

definition hex_unit :: "nat \<Rightarrow> 16 word" where
  "hex_unit n = word_of_nat (if n < 10 then 48 + n else 55 + n)"

definition percent :: "byte \<Rightarrow> 16 word list" where
  "percent b = [37, hex_unit (unat b div 16), hex_unit (unat b mod 16)]"

definition encode_scalar :: "nat \<Rightarrow> 16 word list" where
  "encode_scalar c = (if unreserved c then [word_of_nat c] else concat (map percent (utf8_of c)))"

definition encodeURIComponent :: "jstring \<Rightarrow> jstring res" where
  "encodeURIComponent s =
     (if well_formed s then Inr (JString (concat (map encode_scalar (scalar_values (units s)))))
      else Inl URIMalformed)"

lemma unat_hex_unit: "n < 16 \<Longrightarrow> unat (hex_unit n) = (if n < 10 then 48 + n else 55 + n)"
  by (simp add: hex_unit_def unat_of_nat)

lemma hex_value_unit: "n < 16 \<Longrightarrow> hex_value (hex_unit n) = Some n"
  by (simp add: hex_value_def unat_hex_unit Let_def)

lemma byte_nibbles: "unat (b :: byte) div 16 < 16" "unat b mod 16 < 16"
  by (rule less_mult_imp_div_less) simp_all

lemma percent_byte_percent: "percent_byte (percent b @ us) = Some (unat b, us)"
  using byte_nibbles [of b] by (simp add: percent_def hex_value_unit)

lemma percent_bytes_percents: "percent_bytes (length bs) (concat (map percent bs) @ us) = Some (map unat bs, us)"
  by (induction bs) (simp_all add: percent_byte_percent)

lemma decode_percent:
  "decode_units (percent b @ us) =
     (if unat b < 0x80 then bind_res (decode_units us) (\<lambda>r. Inr (word_of_nat (unat b) # r))
      else if sequence_length (unat b) = 0 then Inl URIMalformed
      else
        (case percent_bytes (sequence_length (unat b) - 1) us of
           None \<Rightarrow> Inl URIMalformed
         | Some (bs, rest) \<Rightarrow>
             (case octets_units (map byte_of (unat b # bs)) of
                None \<Rightarrow> Inl URIMalformed
              | Some vs \<Rightarrow> bind_res (decode_units rest) (\<lambda>r. Inr (vs @ r)))))"
proof -
  have "percent b @ us = 37 # hex_unit (unat b div 16) # hex_unit (unat b mod 16) # us"
    by (simp add: percent_def)
  moreover have "unat (37 :: 16 word) = 37" by simp
  ultimately show ?thesis
    using percent_byte_percent [of b us] by (subst decode_units.simps) simp
qed

lemma octets_units_utf8: "is_scalar c \<Longrightarrow> octets_units (utf8_of c) = Some (utf16_of c)"
  using scan_utf8_of [of c "0x80" "0xBF" 0 "[]"] by (simp add: octets_units_def)

lemma utf8_of_lead:
  assumes "is_scalar c" "0x80 \<le> c"
  obtains b bs where "utf8_of c = b # bs" "sequence_length (unat b) = Suc (length bs)" "0x80 \<le> unat b" "bs \<noteq> []"
proof -
  have d: "c < 0x800 \<Longrightarrow> c div 64 < 32" "c < 0x10000 \<Longrightarrow> c div 4096 < 16" "c div 262144 < 5"
    using assms by (auto simp: is_scalar_def)
  show thesis
    using that assms d unfolding utf8_of_def by (fastforce simp: sequence_length_def split: if_splits)
qed

lemma decode_encode_scalar:
  assumes "is_scalar c"
  shows "decode_units (encode_scalar c @ us) = bind_res (decode_units us) (\<lambda>r. Inr (utf16_of c @ r))"
proof (cases "unreserved c")
  case True
  then have c: "c < 128" "c \<noteq> 37" by (auto simp: unreserved_def)
  then have "unat (word_of_nat c :: 16 word) = c" by (simp add: unat_of_nat)
  then show ?thesis
    using True c by (simp add: encode_scalar_def decode_units.simps [of "_ # _"] utf16_of_def)
next
  case False
  show ?thesis
  proof (cases "c < 0x80")
    case True
    then show ?thesis
      using False decode_percent [of "byte_of c" us] by (simp add: encode_scalar_def utf8_of_def utf16_of_def)
  next
    case high: False
    then obtain b bs where b: "utf8_of c = b # bs" "sequence_length (unat b) = Suc (length bs)" "0x80 \<le> unat b" "bs \<noteq> []"
      using utf8_of_lead [OF assms] by (metis not_le)
    then show ?thesis
      using False octets_units_utf8 [OF assms] decode_percent [of b "concat (map percent bs) @ us"]
        percent_bytes_percents [of bs us]
      by (simp add: encode_scalar_def comp_def)
  qed
qed

lemma decode_encode_scalars:
  "\<forall>c\<in>set cs. is_scalar c \<Longrightarrow> decode_units (concat (map encode_scalar cs)) = Inr (concat (map utf16_of cs))"
  by (induction cs) (simp_all add: decode_units.simps [of "[]"] decode_encode_scalar)

lemma decode_encode:
  "encodeURIComponent s = Inr t \<Longrightarrow> decodeURIComponent t = Inr s"
  using decode_encode_scalars [of "scalar_values (units s)"] scalar_values_scalar [of _ "units s"]
  by (auto simp: encodeURIComponent_def decodeURIComponent_def well_formed_def utf16_of_scalar_values
      split: if_splits)

text \<open>A string of unreserved characters is its own encoding.\<close>

lemma encode_js:
  assumes "\<forall>c\<in>set s. unreserved (of_char c)"
  shows "encodeURIComponent (js s) = Inr (js s)"
proof -
  have unit: "unat (word_of_nat (of_char c) :: 16 word) = of_char c" if "c \<in> set s" for c
    using assms that by (auto simp: unreserved_def unat_of_nat)
  then have "\<forall>u\<in>set (units (js s)). unat u < 0xD800"
    using assms by (auto simp: js_def unreserved_def)
  then have "scalar_values (units (js s)) = map of_char s"
    using unit by (simp add: scalar_values_small) (simp add: js_def)
  moreover have "concat (map encode_scalar (map of_char s)) = units (js s)"
    using assms by (induction s) (auto simp: encode_scalar_def js_def)
  ultimately show ?thesis by (simp add: encodeURIComponent_def well_formed_js jstring.expand)
qed

text \<open>The encoding has no slash, and is not empty unless the string is.\<close>

lemma encode_scalar_units: "u \<in> set (encode_scalar c) \<Longrightarrow> unat u \<noteq> 47"
proof -
  have "unat (word_of_nat c :: 16 word) \<noteq> 47" if "unreserved c"
    using that by (auto simp: unreserved_def unat_of_nat)
  moreover have "unat u \<noteq> 47" if "u \<in> set (percent b)" for b u
    using that byte_nibbles [of b] by (auto simp: percent_def unat_hex_unit split: if_splits)
  ultimately show "u \<in> set (encode_scalar c) \<Longrightarrow> unat u \<noteq> 47"
    by (auto simp: encode_scalar_def split: if_splits)
qed

lemma encode_scalar_nonempty: "encode_scalar c \<noteq> []"
  by (auto simp: encode_scalar_def utf8_of_def percent_def)

lemma scalar_values_empty: "scalar_values us = [] \<longleftrightarrow> us = []"
  by (cases us rule: scalar_values.cases) auto

lemma encode_path:
  assumes "encodeURIComponent s = Inr t"
  shows "\<forall>u\<in>set (units t). unat u \<noteq> 47" "s \<noteq> empty_string \<Longrightarrow> units t \<noteq> []"
proof -
  have t: "t = JString (concat (map encode_scalar (scalar_values (units s))))"
    using assms by (simp add: encodeURIComponent_def split: if_splits)
  show "\<forall>u\<in>set (units t). unat u \<noteq> 47" using encode_scalar_units by (auto simp: t)
  show "s \<noteq> empty_string \<Longrightarrow> units t \<noteq> []"
    using encode_scalar_nonempty scalar_values_empty [of "units s"]
    by (cases "scalar_values (units s)"; cases s) (auto simp: t)
qed

end
