(* ===== verification/Engine.thy ===== *)
theory Engine
  imports Replication_Store
begin

text \<open>
  The interface \<open>IStorageEngine\<close> of src/src/interfaces/Storage.ts that the servers work on: the
  record of its operations, its contract as the locale \<open>storage_engine\<close> (an engine stands for
  a map), and the LSM store as the engine that keeps the contract.
\<close>

section \<open>The interface\<close>

record 's engine =
  eng_put :: "jstring \<Rightarrow> jstring \<Rightarrow> 's \<Rightarrow> unit res \<times> 's"
  eng_get :: "jstring \<Rightarrow> 's \<Rightarrow> jstring option res"
  eng_delete :: "jstring \<Rightarrow> 's \<Rightarrow> unit res \<times> 's"
  eng_batchPut :: "(jstring \<times> jstring) list \<Rightarrow> 's \<Rightarrow> nat res \<times> 's"
  eng_readKeyRange :: "jstring \<Rightarrow> jstring \<Rightarrow> nat option \<Rightarrow> 's \<Rightarrow> (jstring \<times> jstring) list res"

text \<open>
  \<open>stands n c m\<close>: in state \<open>c\<close> the engine stands for the map \<open>m\<close> and has room for \<open>n\<close> more
  writes; \<open>background c c'\<close>: the engine may go from \<open>c\<close> to \<open>c'\<close> on its own; the other parameters
  say what a write may carry.
\<close>

locale storage_engine =
  fixes eng :: "'s engine"
    and stands :: "nat \<Rightarrow> 's \<Rightarrow> (jstring \<rightharpoonup> jstring) \<Rightarrow> bool"
    and put_fits :: "jstring \<Rightarrow> jstring \<Rightarrow> bool"
    and key_fits :: "jstring \<Rightarrow> bool"
    and batch_fits :: "(jstring \<times> jstring) list \<Rightarrow> bool"
    and background :: "'s \<Rightarrow> 's \<Rightarrow> bool"
  assumes background_ok: "stands n c m \<Longrightarrow> background c c' \<Longrightarrow> stands n c' m"
    and fewer: "stands (Suc n) c m \<Longrightarrow> stands n c m"
    and get_ok: "stands n c m \<Longrightarrow> eng_get eng k c = Inr (m k)"
    and put_ok: "stands (Suc n) c m \<Longrightarrow> put_fits k v \<Longrightarrow>
      \<exists>c'. eng_put eng k v c = (Inr (), c') \<and> stands n c' (m(k \<mapsto> v))"
    and delete_ok: "stands (Suc n) c m \<Longrightarrow> key_fits k \<Longrightarrow>
      \<exists>c'. eng_delete eng k c = (Inr (), c') \<and> stands n c' (m(k := None))"
    and batch_ok: "stands (Suc n) c m \<Longrightarrow> batch_fits kvs \<Longrightarrow> kvs \<noteq> [] \<Longrightarrow>
      \<exists>c'. eng_batchPut eng kvs c = (Inr (length kvs), c') \<and> stands n c' (fold (\<lambda>(k, v) m. m(k \<mapsto> v)) kvs m)"
    and range_ok: "stands n c m \<Longrightarrow>
      \<exists>ps. eng_readKeyRange eng a b cap c = Inr (limited cap ps) \<and> ordered_by fst ps \<and>
        (\<forall>k. map_of ps k = (if a \<le> k \<and> k \<le> b then m k else None))"

section \<open>The store as an engine\<close>

definition lsm_engine :: "read_env \<Rightarrow> (store \<times> disk \<Rightarrow> nat) \<Rightarrow> (store \<times> disk) engine" where
  "lsm_engine env clock =
     \<lparr>eng_put = \<lambda>k v c. store_put (env_mem env) (clock c) k v (fst c) (snd c),
      eng_get = \<lambda>k c. store_get env k (fst c),
      eng_delete = \<lambda>k c. store_delete (env_mem env) (clock c) k (fst c) (snd c),
      eng_batchPut = \<lambda>kvs c. store_batchPut (env_mem env) (clock c) kvs (fst c) (snd c),
      eng_readKeyRange = \<lambda>a b cap c. readKeyRange env a b cap (fst c)\<rparr>"

text \<open>
  Under every policy: between two requests no batch waits, since the reply to a write comes after
  the flush of its batch.
\<close>

definition engine_stands ::
  "read_env \<Rightarrow> (store \<times> disk \<Rightarrow> nat) \<Rightarrow> nat \<Rightarrow> store \<times> disk \<Rightarrow> (jstring \<rightharpoonup> jstring) \<Rightarrow> bool" where
  "engine_stands env clock n c m \<longleftrightarrow>
     store_sim env c m \<and> wal_pendingWrites (st_wal (fst c)) = [] \<and>
     wal_sequenceId (st_wal (fst c)) + n \<le> 2 ^ 53 \<and> (\<forall>c. clock c \<le> 2 ^ 53)"

definition write_fits :: "log_body \<Rightarrow> bool" where
  "write_fits b \<longleftrightarrow> storable_body b \<and> length (payload_bytes b) + 21 < 4294967296"

definition lsm_put_fits :: "jstring \<Rightarrow> jstring \<Rightarrow> bool" where
  "lsm_put_fits k v \<longleftrightarrow> write_fits (put_body k v)"

definition lsm_key_fits :: "jstring \<Rightarrow> bool" where
  "lsm_key_fits k \<longleftrightarrow> write_fits (delete_body k)"

definition lsm_batch_fits :: "(jstring \<times> jstring) list \<Rightarrow> bool" where
  "lsm_batch_fits kvs \<longleftrightarrow> write_fits (batch_body (map fst kvs) (map snd kvs))"

lemma write_fits_sound:
  assumes "write_fits b" "i \<le> 2 ^ 53" "t \<le> 2 ^ 53"
  shows "sound_entry (stamp b i t)"
proof -
  have "length (entry_data (stamp b i t)) + 4 < 4294967296"
    using assms(1) by (simp add: length_entry_data write_fits_def)
  then show ?thesis
    using assms storable_body_ok [of b] by (auto simp: sound_entry_def entry_ok_def write_fits_def)
qed

text \<open>Every write that fits is taken, and has its effect on the map.\<close>

lemma engine_write:
  assumes "engine_stands env clock (Suc n) c m" "write_fits b"
  obtains c' where "store_commit (env_mem env) (clock c) b (fst c) (snd c) = (Inr (), c')"
    "engine_stands env clock n c' (view_effect b m)"
proof -
  obtain s d where c: "c = (s, d)" by fastforce
  let ?i = "wal_sequenceId (st_wal s)"
  have st: "store_sim env c m" "wal_pendingWrites (st_wal s) = []" "?i + Suc n \<le> 2 ^ 53" "\<forall>c. clock c \<le> 2 ^ 53"
    using assms(1) by (simp_all add: engine_stands_def c del: split_paired_All)
  have now: "clock c \<le> 2 ^ 53" using st(4) by blast
  obtain tables where inv: "store_inv env s d tables" using st(1) by (auto simp: store_sim_def c)
  have ok: "sound_entry (stamp b ?i (clock c))"
    using write_fits_sound [OF assms(2) _ now] st(3) by simp
  obtain s' d' where w: "store_commit (env_mem env) (clock c) b s d = (Inr (), s', d')"
    "store_run env (\<lambda>s. True) (s, d) [stamp b ?i (clock c)] (s', d')"
    "wal_sequenceId (st_wal s') = Suc ?i" "wal_pendingWrites (st_wal s') = []"
    by (rule store_commit_run [OF inv st(2) now ok])
  have "store_sim env (s', d') (view_effect b m)"
    using store_run_sim [OF w(2)] st(1) by (simp add: c)
  then show thesis
    using that [of "(s', d')"] w st by (simp add: c engine_stands_def del: split_paired_All)
qed

lemma view_effect_put: "view_effect (put_body k v) m = m(k \<mapsto> v)"
  and view_effect_delete: "view_effect (delete_body k) m = m(k := None)"
  by (simp_all add: view_effect_def)

text \<open>
  On its own the store takes the steps of its flush, at times at which the sizes fit and, for the
  checkpoint, the clock has moved on since the log was started.
\<close>

definition flush_ready :: "nat \<Rightarrow> store \<Rightarrow> bool" where
  "flush_ready now s \<longleftrightarrow>
     (case st_flush s of
        Building w \<Rightarrow> table_ok (sw_fileNumber w) now (sw_entries w)
      | Opened \<Rightarrow> wal_currentLogFile (st_wal s) < log_name now \<and> now \<le> 2 ^ 53
      | _ \<Rightarrow> True)"

definition lsm_background :: "read_env \<Rightarrow> store \<times> disk \<Rightarrow> store \<times> disk \<Rightarrow> bool" where
  "lsm_background env c c' \<longleftrightarrow> (\<exists>now. flush_ready now (fst c) \<and> c' = flush_step env now (fst c) (snd c))"

lemma checkpoint_nothing:
  assumes "wal_pendingWrites w = []" "checkpoint mem now w dir = (err, acked, w', dir')"
  shows "acked = []" "wal_pendingWrites w' = []" "wal_sequenceId w' = wal_sequenceId w"
  using assms by (auto simp: checkpoint_def rotateLog_def Let_def)

lemma flush_step_log:
  assumes "wal_pendingWrites (st_wal s) = []"
  shows "wal_pendingWrites (st_wal (fst (flush_step env now s d))) = [] \<and>
    wal_sequenceId (st_wal (fst (flush_step env now s d))) = wal_sequenceId (st_wal s)"
proof (cases "st_flush s")
  case Opened
  obtain err acked w logs where k: "checkpoint (env_mem env) now (st_wal s) (dk_logs d) = (err, acked, w, logs)"
    by (metis prod_cases4)
  note kept = checkpoint_nothing [OF assms k]
  have "st_wal (fst (flush_step env now s d)) = w"
    using Opened by (simp add: flush_step_def k kept(1) Let_def)
  then show ?thesis by (simp add: kept)
qed (simp_all add: flush_step_def assms split: prod.split sum.split)

lemma lsm_background_ok:
  assumes "engine_stands env clock n c m" "lsm_background env c c'"
  shows "engine_stands env clock n c' m"
proof -
  obtain s d where c: "c = (s, d)" by fastforce
  obtain now where now: "flush_ready now s" "c' = flush_step env now s d"
    using assms(2) by (auto simp: lsm_background_def c)
  have st: "store_sim env (s, d) m" and idle: "wal_pendingWrites (st_wal s) = []"
    using assms(1) by (simp_all add: engine_stands_def c del: split_paired_All)
  have step: "c' = (s, d) \<or> store_step env (s, d) [] c'"
  proof (cases "st_flush s")
    case NoFlush
    then show ?thesis by (simp add: now flush_step_def)
  next
    case (Building w)
    then show ?thesis using now step_build [OF Building] by (simp add: flush_ready_def)
  next
    case (Built meta)
    then show ?thesis using now step_record by simp
  next
    case (Recorded meta)
    then show ?thesis using now step_open by simp
  next
    case Opened
    obtain err acked w logs where k: "checkpoint (env_mem env) now (st_wal s) (dk_logs d) = (err, acked, w, logs)"
      by (metis prod_cases4)
    then show ?thesis
      using step_checkpoint [OF Opened _ _ k] now checkpoint_nothing(1) [OF idle k] Opened by (simp add: flush_ready_def)
  qed
  then have "store_sim env c' m" using st store_step_sim by fastforce
  moreover have "wal_pendingWrites (st_wal (fst c')) = [] \<and>
      wal_sequenceId (st_wal (fst c')) = wal_sequenceId (st_wal s)"
    using flush_step_log [OF idle] by (simp add: now(2))
  ultimately show ?thesis
    using assms(1) by (simp add: engine_stands_def c del: split_paired_All)
qed

interpretation lsm: storage_engine "lsm_engine env clock" "engine_stands env clock" lsm_put_fits lsm_key_fits lsm_batch_fits
    "lsm_background env"
  for env clock
proof
  fix n c m c'
  show "engine_stands env clock n c m \<Longrightarrow> lsm_background env c c' \<Longrightarrow> engine_stands env clock n c' m"
    by (rule lsm_background_ok)
next
  fix n c m
  show "engine_stands env clock (Suc n) c m \<Longrightarrow> engine_stands env clock n c m"
    by (simp add: engine_stands_def)
next
  fix n c m k
  show "engine_stands env clock n c m \<Longrightarrow> eng_get (lsm_engine env clock) k c = Inr (m k)"
    using sim_get by (simp add: engine_stands_def lsm_engine_def)
next
  fix n c m k v
  assume "engine_stands env clock (Suc n) c m" "lsm_put_fits k v"
  then show "\<exists>c'. eng_put (lsm_engine env clock) k v c = (Inr (), c') \<and> engine_stands env clock n c' (m(k \<mapsto> v))"
    by (auto simp: lsm_put_fits_def lsm_engine_def store_put_def view_effect_put elim!: engine_write)
next
  fix n c m k
  assume "engine_stands env clock (Suc n) c m" "lsm_key_fits k"
  then show "\<exists>c'. eng_delete (lsm_engine env clock) k c = (Inr (), c') \<and> engine_stands env clock n c' (m(k := None))"
    by (auto simp: lsm_key_fits_def lsm_engine_def store_delete_def view_effect_delete elim!: engine_write)
next
  fix n c m and kvs :: "(jstring \<times> jstring) list"
  assume a: "engine_stands env clock (Suc n) c m" "lsm_batch_fits kvs" "kvs \<noteq> []"
  let ?b = "batch_body (map fst kvs) (map snd kvs)"
  obtain c' where c': "store_commit (env_mem env) (clock c) ?b (fst c) (snd c) = (Inr (), c')"
    "engine_stands env clock n c' (view_effect ?b m)"
    using engine_write [OF a(1), of ?b] a(2) by (auto simp: lsm_batch_fits_def)
  have init: "st_initialized (fst c)"
    using a(1) by (auto simp: engine_stands_def store_sim_def store_inv_def)
  have "eng_batchPut (lsm_engine env clock) kvs c = (Inr (length kvs), c')"
    using c'(1) a(3) init
    by (cases c') (simp add: lsm_engine_def store_batchPut_def ensureInitialized_def)
  moreover have "view_effect ?b m = fold (\<lambda>(k, v) m. m(k \<mapsto> v)) kvs m"
    by (simp add: view_effect_def zip_map_fst_snd)
  ultimately show "\<exists>c'. eng_batchPut (lsm_engine env clock) kvs c = (Inr (length kvs), c') \<and>
      engine_stands env clock n c' (fold (\<lambda>(k, v) m. m(k \<mapsto> v)) kvs m)"
    using c'(2) by auto
next
  fix n c m a b cap
  assume "engine_stands env clock n c m"
  then obtain tables where t: "store_inv env (fst c) (snd c) tables" "store_view (fst c) tables = m"
    by (auto simp: engine_stands_def store_sim_def)
  note reads = store_inv_reads [OF t(1)]
  obtain ps where "readKeyRange env a b cap (fst c) = Inr (limited cap ps)" "ordered_by fst ps"
    "\<forall>k. map_of ps k = (if a \<le> k \<and> k \<le> b then store_view (fst c) tables k else None)"
    by (rule readKeyRange_ok [OF reads(1,3,2), where a = a and b = b and limit = cap])
  then show "\<exists>ps. eng_readKeyRange (lsm_engine env clock) a b cap c = Inr (limited cap ps) \<and> ordered_by fst ps \<and>
      (\<forall>k. map_of ps k = (if a \<le> k \<and> k \<le> b then m k else None))"
    using t(2) by (auto simp: lsm_engine_def)
qed

end
