(* ===== verification/HTTP_Server.thy ===== *)
theory HTTP_Server
  imports Engine JS_Text Replication
begin

text \<open>
  The HTTP interface of src/src/server/HTTPServer.ts: routes, request bodies, the handlers with
  their checks and status codes, and the error path. The storage engine is a record of its
  operations. \<open>new URL\<close> and \<open>URLSearchParams\<close> are taken at their result, the path and the
  query pairs of a request or the error; \<open>JSON.parse\<close> is an argument. The text of a reply is
  the value that is serialised.
\<close>

section \<open>JSON values\<close>

text \<open>
  A number is the text that \<open>String\<close> gives for it; the fields of an object have distinct names.
\<close>

datatype json =
  JNull
| JBool bool
| JNum jstring
| JStr jstring
| JArr "json list"
| JObj "(jstring \<times> json) list"

text \<open>Access to a property that no prototype has; \<open>None\<close> is undefined.\<close>

definition json_prop :: "json \<Rightarrow> string \<Rightarrow> json option" where
  "json_prop j name = (case j of JObj fs \<Rightarrow> map_of fs (js name) | _ \<Rightarrow> None)"

text \<open>
  \<open>String(value)\<close>. An object with a field \<open>toString\<close> of its own has no conversion left:
  JSON has no functions.
\<close>

fun js_String :: "json \<Rightarrow> jstring res" and js_join :: "json list \<Rightarrow> jstring res" where
  "js_String JNull = Inr (js ''null'')"
| "js_String (JBool b) = Inr (if b then js ''true'' else js ''false'')"
| "js_String (JNum t) = Inr t"
| "js_String (JStr s) = Inr s"
| "js_String (JArr xs) = js_join xs"
| "js_String (JObj fs) =
     (if json_prop (JObj fs) ''toString'' \<noteq> None then Inl UndefinedProperty
      else Inr (js ''[object Object]''))"
| "js_join [] = Inr empty_string"
| "js_join (x # xs) =
     bind_res (case x of JNull \<Rightarrow> Inr empty_string | _ \<Rightarrow> js_String x) (\<lambda>s.
     if xs = [] then Inr s
     else bind_res (js_join xs) (\<lambda>t. Inr (js_append s (js_append (js '','') t))))"

section \<open>Replies\<close>

datatype reply =
  ErrorReply jstring
| KeyNotFound jstring
| HealthReply nat
| SuccessReply
| CountReply nat
| ValueReply jstring jstring
| RangeReply nat "(jstring \<times> jstring) list"
| ReplicationDisabled
| ReplicationReply repl_state repl_metrics

text \<open>\<open>ResponseHelper\<close>: only the first \<open>json\<close> is sent, with the status of that moment.\<close>

record response =
  rp_status :: nat
  rp_sent :: "(nat \<times> reply) option"

definition new_response :: response where
  "new_response = \<lparr>rp_status = 200, rp_sent = None\<rparr>"

definition resp_status :: "nat \<Rightarrow> response \<Rightarrow> response" where
  "resp_status code r = r\<lparr>rp_status := code\<rparr>"

definition resp_json :: "reply \<Rightarrow> response \<Rightarrow> response" where
  "resp_json data r = (if rp_sent r \<noteq> None then r else r\<lparr>rp_sent := Some (rp_status r, data)\<rparr>)"

section \<open>Requests and routes\<close>

record parsed_request =
  rq_method :: jstring
  rq_path :: jstring
  rq_params :: "jstring \<rightharpoonup> jstring"
  rq_query :: "jstring \<rightharpoonup> jstring"
  rq_body :: json

text \<open>
  A handler works on the reply and on the state of the engine; it may throw. \<open>now\<close> is the
  clock at the request.
\<close>

type_synonym 's handler = "nat \<Rightarrow> parsed_request \<Rightarrow> response \<times> 's \<Rightarrow> unit res \<times> response \<times> 's"

text \<open>The path of a route: characters, and parameters that match a segment.\<close>

datatype piece = Lit "16 word" | Param jstring

record 's route =
  rt_method :: jstring
  rt_pattern :: "piece list"
  rt_handler :: "'s handler"

definition word_unit :: "16 word \<Rightarrow> bool" where
  "word_unit u \<longleftrightarrow> (let n = unat u in 65 \<le> n \<and> n \<le> 90 \<or> 97 \<le> n \<and> n \<le> 122 \<or> 48 \<le> n \<and> n \<le> 57 \<or> n = 95)"

text \<open>
  The pattern that \<open>addRoute\<close> makes of a path: each \<open>:name\<close> becomes a parameter. The paths
  have no characters that are special in a regular expression.
\<close>

function compile_path :: "16 word list \<Rightarrow> piece list" where
  "compile_path us =
     (case us of
        [] \<Rightarrow> []
      | u # rest \<Rightarrow>
          if unat u = 58 \<and> takeWhile word_unit rest \<noteq> []
          then Param (JString (takeWhile word_unit rest)) # compile_path (dropWhile word_unit rest)
          else Lit u # compile_path rest)"
  by pat_completeness auto
termination
  by (relation "measure length") (auto simp: less_Suc_eq_le length_dropWhile_le)

declare compile_path.simps [simp del]

definition addRoute :: "string \<Rightarrow> string \<Rightarrow> 's handler \<Rightarrow> 's route list \<Rightarrow> 's route list" where
  "addRoute verb path h routes =
     routes @ [\<lparr>rt_method = js verb, rt_pattern = compile_path (units (js path)), rt_handler = h\<rparr>]"

text \<open>
  Matching the whole path; a parameter takes as many characters other than the slash as it
  can, and gives some back if the rest does not match. The result has the groups.
\<close>

primrec match_path :: "piece list \<Rightarrow> 16 word list \<Rightarrow> (jstring \<times> jstring) list option" where
  "match_path [] = (\<lambda>us. if us = [] then Some [] else None)"
| "match_path (p # ps) = (\<lambda>us.
     case p of
       Lit u \<Rightarrow> (case us of v # rest \<Rightarrow> if u = v then match_path ps rest else None | [] \<Rightarrow> None)
     | Param name \<Rightarrow>
         (case filter (\<lambda>k. match_path ps (drop k us) \<noteq> None)
             (rev [1..<Suc (length (takeWhile (\<lambda>u. unat u \<noteq> 47) us))]) of
            [] \<Rightarrow> None
          | k # rest \<Rightarrow> map_option (Cons (name, JString (take k us))) (match_path ps (drop k us))))"

text \<open>The first route that matches, with its decoded parameters.\<close>

fun findRoute :: "'s route list \<Rightarrow> jstring \<Rightarrow> jstring \<Rightarrow> ('s route \<times> (jstring \<rightharpoonup> jstring)) option res" where
  "findRoute [] verb path = Inr None"
| "findRoute (r # routes) verb path =
     (if rt_method r \<noteq> verb then findRoute routes verb path
      else
        (case match_path (rt_pattern r) (units path) of
           None \<Rightarrow> findRoute routes verb path
         | Some groups \<Rightarrow>
             bind_res (map_res (\<lambda>g. bind_res (decodeURIComponent (snd g)) (\<lambda>v. Inr (fst g, v))) groups)
               (\<lambda>params. Inr (Some (r, map_of (rev params))))))"

text \<open>\<open>parseQueryString\<close>: the last of several pairs with one name counts.\<close>

definition parseQueryString :: "(jstring \<times> jstring) list \<Rightarrow> jstring \<rightharpoonup> jstring" where
  "parseQueryString pairs = map_of (rev pairs)"

section \<open>The body\<close>

definition max_body :: nat where "max_body = 10 * 1024 * 1024"

text \<open>The chunks of the body, up to the one that exceeds the limit.\<close>

fun collect_chunks :: "nat \<Rightarrow> byte list list \<Rightarrow> byte list res" where
  "collect_chunks size0 [] = Inr []"
| "collect_chunks size0 (chunk # chunks) =
     (if max_body < size0 + length chunk then Inl BodyTooLarge
      else bind_res (collect_chunks (size0 + length chunk) chunks) (\<lambda>rest. Inr (chunk @ rest)))"

definition parseBody :: "(jstring \<Rightarrow> json option) \<Rightarrow> byte list list \<Rightarrow> json res" where
  "parseBody json_parse chunks =
     bind_res (collect_chunks 0 chunks) (\<lambda>bs.
     if chunks = [] then Inr (JObj [])
     else (case json_parse (utf8_decode bs) of None \<Rightarrow> Inl InvalidJSON | Some body \<Rightarrow> Inr body))"

section \<open>Handlers\<close>

text \<open>\<open>res.status(code).json(...)\<close> with an error text, and \<open>return\<close>.\<close>

definition refuse :: "nat \<Rightarrow> reply \<Rightarrow> response \<times> 's \<Rightarrow> unit res \<times> response \<times> 's" where
  "refuse code data = (\<lambda>(r, s). (Inr (), resp_json data (resp_status code r), s))"

definition answer :: "reply \<Rightarrow> response \<times> 's \<Rightarrow> unit res \<times> response \<times> 's" where
  "answer data = (\<lambda>(r, s). (Inr (), resp_json data r, s))"

definition handleHealth :: "'s handler" where
  "handleHealth now req = answer (HealthReply now)"

text \<open>The value of a field that must be there: neither undefined nor null.\<close>

definition given :: "json option \<Rightarrow> json option" where
  "given v = (case v of Some JNull \<Rightarrow> None | _ \<Rightarrow> v)"

definition key_text :: "json option \<Rightarrow> jstring option" where
  "key_text k = (case k of Some (JStr s) \<Rightarrow> if s = empty_string then None else Some s | _ \<Rightarrow> None)"

definition invalid_key :: reply where
  "invalid_key = ErrorReply (js ''Invalid key: must be non-empty string'')"

definition invalid_value :: reply where
  "invalid_value = ErrorReply (js ''Invalid value: must not be null or undefined'')"

text \<open>The properties of a body that is \<open>null\<close> cannot be taken apart.\<close>

definition handlePut :: "'s engine \<Rightarrow> 's handler" where
  "handlePut eng now req = (\<lambda>(r, s).
     if rq_body req = JNull then (Inl UndefinedProperty, r, s)
     else
       (case key_text (json_prop (rq_body req) ''key'') of
          None \<Rightarrow> refuse 400 invalid_key (r, s)
        | Some key \<Rightarrow>
            (case given (json_prop (rq_body req) ''value'') of
               None \<Rightarrow> refuse 400 invalid_value (r, s)
             | Some value \<Rightarrow>
                 (case js_String value of
                    Inl err \<Rightarrow> (Inl err, r, s)
                  | Inr text \<Rightarrow>
                      (case eng_put eng key text s of
                         (Inl err, s) \<Rightarrow> (Inl err, r, s)
                       | (Inr u, s) \<Rightarrow> answer SuccessReply (r, s))))))"

definition bad_key_at :: "nat \<Rightarrow> jstring" where
  "bad_key_at i = js (''Invalid key at index '' @ decimal i @ '': must be non-empty string'')"

definition bad_value_at :: "nat \<Rightarrow> jstring" where
  "bad_value_at i = js (''Invalid value at index '' @ decimal i @ '': must not be null or undefined'')"

text \<open>
  One turn of either loop of the batch, and the rest of the loop after it: it ends with the text
  of the first problem, with an error, or with the pairs.
\<close>

definition batch_entry ::
  "nat \<Rightarrow> json option \<Rightarrow> json option \<Rightarrow> (jstring + (jstring \<times> jstring) list) res \<Rightarrow>
   (jstring + (jstring \<times> jstring) list) res" where
  "batch_entry i k v rest =
     (case key_text k of
        None \<Rightarrow> Inr (Inl (bad_key_at i))
      | Some key \<Rightarrow>
          (case given v of
             None \<Rightarrow> Inr (Inl (bad_value_at i))
           | Some value \<Rightarrow>
               bind_res (js_String value) (\<lambda>text.
               bind_res rest (\<lambda>r. Inr (case r of Inl msg \<Rightarrow> Inl msg | Inr ps \<Rightarrow> Inr ((key, text) # ps))))))"

fun entries_loop :: "nat \<Rightarrow> json list \<Rightarrow> (jstring + (jstring \<times> jstring) list) res" where
  "entries_loop i [] = Inr (Inr [])"
| "entries_loop i (e # es) =
     batch_entry i (json_prop e ''key'') (json_prop e ''value'') (entries_loop (i + 1) es)"

fun pairs_loop :: "nat \<Rightarrow> json list \<Rightarrow> json list \<Rightarrow> (jstring + (jstring \<times> jstring) list) res" where
  "pairs_loop i (k # ks) (v # vs) = batch_entry i (Some k) (Some v) (pairs_loop (i + 1) ks vs)"
| "pairs_loop i ks vs = Inr (Inr [])"

definition parse_batch :: "json \<Rightarrow> (jstring + (jstring \<times> jstring) list) res" where
  "parse_batch body =
     (if body = JNull then Inl UndefinedProperty
      else
        (case json_prop body ''entries'' of
           Some (JArr entries) \<Rightarrow> entries_loop 0 entries
         | _ \<Rightarrow>
             (case (json_prop body ''keys'', json_prop body ''values'') of
                (Some (JArr ks), Some (JArr vs)) \<Rightarrow>
                  if length ks \<noteq> length vs
                  then Inr (Inl (js ''Keys and values arrays must have the same length''))
                  else pairs_loop 0 ks vs
              | _ \<Rightarrow>
                  Inr (Inl (js (''Invalid request body: provide either '' @ [char_of (34 :: nat)] @ ''entries'' @
                    [char_of (34 :: nat)] @ '' array or '' @ [char_of (34 :: nat)] @ ''keys'' @ [char_of (34 :: nat)] @
                    '' and '' @ [char_of (34 :: nat)] @ ''values'' @ [char_of (34 :: nat)] @ '' arrays''))))))"

definition handleBatchPut :: "'s engine \<Rightarrow> 's handler" where
  "handleBatchPut eng now req = (\<lambda>(r, s).
     case parse_batch (rq_body req) of
       Inl err \<Rightarrow> (Inl err, r, s)
     | Inr (Inl msg) \<Rightarrow> refuse 400 (ErrorReply msg) (r, s)
     | Inr (Inr parsedEntries) \<Rightarrow>
         if parsedEntries = [] then refuse 400 (ErrorReply (js ''No entries provided'')) (r, s)
         else
           (case eng_batchPut eng parsedEntries s of
              (Inl err, s) \<Rightarrow> (Inl err, r, s)
            | (Inr n, s) \<Rightarrow> answer (CountReply n) (r, s)))"

definition handleGet :: "'s engine \<Rightarrow> 's handler" where
  "handleGet eng now req = (\<lambda>(r, s).
     if falsy (rq_params req (js ''key'')) then refuse 400 (ErrorReply (js ''Key parameter required'')) (r, s)
     else
       let key = the (rq_params req (js ''key'')) in
       (case eng_get eng key s of
          Inl err \<Rightarrow> (Inl err, r, s)
        | Inr None \<Rightarrow> refuse 404 (KeyNotFound key) (r, s)
        | Inr (Some value) \<Rightarrow> answer (ValueReply key value) (r, s)))"

definition handleDelete :: "'s engine \<Rightarrow> 's handler" where
  "handleDelete eng now req = (\<lambda>(r, s).
     if falsy (rq_params req (js ''key'')) then refuse 400 (ErrorReply (js ''Key parameter required'')) (r, s)
     else
       (case eng_delete eng (the (rq_params req (js ''key''))) s of
          (Inl err, s) \<Rightarrow> (Inl err, r, s)
        | (Inr u, s) \<Rightarrow> answer SuccessReply (r, s)))"

text \<open>The limit of a range query: 100 if there is none, \<open>None\<close> if it is refused.\<close>

definition range_limit :: "jstring option \<Rightarrow> nat option" where
  "range_limit given_limit =
     (case given_limit of
        None \<Rightarrow> Some 100
      | Some text \<Rightarrow>
          (case parseInt text of
             None \<Rightarrow> None
           | Some n \<Rightarrow> if n < 1 then None else Some (nat n)))"

definition handleRange :: "'s engine \<Rightarrow> 's handler" where
  "handleRange eng now req = (\<lambda>(r, s).
     if falsy (rq_query req (js ''start'')) then
       refuse 400 (ErrorReply (js ''Invalid start: must be non-empty string'')) (r, s)
     else if falsy (rq_query req (js ''end'')) then
       refuse 400 (ErrorReply (js ''Invalid end: must be non-empty string'')) (r, s)
     else
       (case range_limit (rq_query req (js ''limit'')) of
          None \<Rightarrow> refuse 400 (ErrorReply (js ''Invalid limit: must be positive integer'')) (r, s)
        | Some parsedLimit \<Rightarrow>
            (case eng_readKeyRange eng (the (rq_query req (js ''start''))) (the (rq_query req (js ''end'')))
                (Some parsedLimit) s of
               Inl err \<Rightarrow> (Inl err, r, s)
             | Inr results \<Rightarrow> answer (RangeReply (length results) results) (r, s))))"

text \<open>The status provider gives the state and the metrics as they are at a time.\<close>

type_synonym status_provider = "nat \<Rightarrow> repl_state \<times> repl_metrics"

definition manager_status :: "repl_manager \<Rightarrow> status_provider" where
  "manager_status m now = (manager_getState now m, rm_metrics m)"

definition server_status :: "repl_server \<Rightarrow> status_provider" where
  "server_status r now = (server_getState now r, rs_metrics r)"

definition handleReplicationStatus :: "status_provider option \<Rightarrow> 's handler" where
  "handleReplicationStatus provider now req =
     (case provider of
        None \<Rightarrow> answer ReplicationDisabled
      | Some p \<Rightarrow> (case p now of (st, metrics) \<Rightarrow> answer (ReplicationReply st metrics)))"

section \<open>The server\<close>

definition registerRoutes :: "'s engine \<Rightarrow> status_provider option \<Rightarrow> 's route list" where
  "registerRoutes eng provider =
     addRoute ''GET'' ''/replication/status'' (handleReplicationStatus provider)
     (addRoute ''GET'' ''/range'' (handleRange eng)
     (addRoute ''DELETE'' ''/delete/:key'' (handleDelete eng)
     (addRoute ''GET'' ''/get/:key'' (handleGet eng)
     (addRoute ''POST'' ''/batch-put'' (handleBatchPut eng)
     (addRoute ''POST'' ''/put'' (handlePut eng)
     (addRoute ''GET'' ''/health'' handleHealth []))))))"

record http_request =
  hr_method :: "jstring option"
  hr_url :: "(jstring \<times> (jstring \<times> jstring) list) res"
  hr_chunks :: "byte list list"

definition internal_error :: reply where
  "internal_error = ErrorReply (js ''Internal server error'')"

definition route_request ::
  "'s route list \<Rightarrow> (jstring \<Rightarrow> json option) \<Rightarrow> nat \<Rightarrow> http_request \<Rightarrow> response \<times> 's \<Rightarrow> unit res \<times> response \<times> 's" where
  "route_request routes json_parse now req = (\<lambda>(r, s).
     case hr_url req of
       Inl err \<Rightarrow> (Inl err, r, s)
     | Inr (path, search) \<Rightarrow>
         let verb = (case hr_method req of None \<Rightarrow> js ''GET'' | Some v \<Rightarrow> if v = empty_string then js ''GET'' else v) in
         (case findRoute routes verb path of
            Inl err \<Rightarrow> (Inl err, r, s)
          | Inr None \<Rightarrow> refuse 404 (ErrorReply (js ''Not found'')) (r, s)
          | Inr (Some (route, params)) \<Rightarrow>
              (case (if verb = js ''POST'' \<or> verb = js ''PUT'' then parseBody json_parse (hr_chunks req)
                     else Inr (JObj [])) of
                 Inl err \<Rightarrow> (Inl err, r, s)
               | Inr body \<Rightarrow>
                   rt_handler route now
                     \<lparr>rq_method = verb, rq_path = path, rq_params = params,
                      rq_query = parseQueryString search, rq_body = body\<rparr> (r, s))))"

text \<open>\<open>handleRequest\<close>: its result is what was sent, and the state of the engine.\<close>

definition handleRequest ::
  "'s route list \<Rightarrow> (jstring \<Rightarrow> json option) \<Rightarrow> nat \<Rightarrow> http_request \<Rightarrow> 's \<Rightarrow> (nat \<times> reply) option \<times> 's" where
  "handleRequest routes json_parse now req s =
     (case route_request routes json_parse now req (new_response, s) of
        (Inr u, r, s) \<Rightarrow> (rp_sent r, s)
      | (Inl err, r, s) \<Rightarrow> (rp_sent (resp_json internal_error (resp_status 500 r)), s))"

end
