(* ===== verification/HTTP_Proofs.thy ===== *)
theory HTTP_Proofs
  imports HTTP_Server
begin

text \<open>
  What the HTTP server promises: every request gets exactly one reply, a refused request changes
  nothing, the routes reach the handlers with the decoded key, and over any engine that keeps
  the contract \<open>storage_engine\<close> requests read and write the map the engine stands for.
\<close>

section \<open>One reply for every request\<close>

text \<open>
  A handler that has returned has sent one reply, and has changed the engine only if the status
  is 200; one that has thrown has sent nothing.
\<close>

definition well_behaved :: "'s handler \<Rightarrow> bool" where
  "well_behaved h \<longleftrightarrow> (\<forall>now req s. case h now req (new_response, s) of
     (Inl err, r, s') \<Rightarrow> r = new_response
   | (Inr u, r, s') \<Rightarrow> (\<exists>code data. rp_sent r = Some (code, data) \<and> code \<in> {200, 400, 404} \<and>
       (code \<noteq> 200 \<longrightarrow> s' = s)))"

definition reading :: "'s handler \<Rightarrow> bool" where
  "reading h \<longleftrightarrow> (\<forall>now req r s. snd (snd (h now req (r, s))) = s)"

lemma replies [simp]:
  "refuse code data (new_response, s) = (Inr (), \<lparr>rp_status = code, rp_sent = Some (code, data)\<rparr>, s)"
  "answer data (new_response, s) = (Inr (), \<lparr>rp_status = 200, rp_sent = Some (200, data)\<rparr>, s)"
  "snd (snd (refuse code data (r, s))) = s" "snd (snd (answer data (r, s))) = s"
  by (simp_all add: refuse_def answer_def new_response_def resp_json_def resp_status_def)

lemma handlers_behave:
  "well_behaved handleHealth" "well_behaved (handlePut eng)" "well_behaved (handleBatchPut eng)"
  "well_behaved (handleGet eng)" "well_behaved (handleDelete eng)" "well_behaved (handleRange eng)"
  "well_behaved (handleReplicationStatus p)"
proof -
  show "well_behaved handleHealth" by (simp add: well_behaved_def handleHealth_def)
  show "well_behaved (handlePut eng)"
    by (auto simp: well_behaved_def handlePut_def split: option.splits sum.splits prod.splits if_splits)
  show "well_behaved (handleBatchPut eng)"
    by (auto simp: well_behaved_def handleBatchPut_def split: option.splits sum.splits prod.splits if_splits)
  show "well_behaved (handleGet eng)"
    by (auto simp: well_behaved_def handleGet_def Let_def split: option.splits sum.splits prod.splits if_splits)
  show "well_behaved (handleDelete eng)"
    by (auto simp: well_behaved_def handleDelete_def split: option.splits sum.splits prod.splits if_splits)
  show "well_behaved (handleRange eng)"
    by (auto simp: well_behaved_def handleRange_def split: option.splits sum.splits prod.splits if_splits)
  show "well_behaved (handleReplicationStatus p)"
    by (auto simp: well_behaved_def handleReplicationStatus_def split: option.splits prod.splits)
qed

lemma handlers_read:
  "reading handleHealth" "reading (handleGet eng)" "reading (handleRange eng)" "reading (handleReplicationStatus p)"
  by (auto simp: reading_def handleHealth_def handleGet_def handleRange_def handleReplicationStatus_def Let_def
      split: option.splits sum.splits prod.splits if_splits)

lemma findRoute_member:
  "findRoute routes verb path = Inr (Some (r, params)) \<Longrightarrow> r \<in> set routes \<and> rt_method r = verb"
  by (induction routes verb path rule: findRoute.induct)
    (auto simp: bind_res_eq_Inr split: if_splits option.splits)

lemma request_reply:
  assumes "\<forall>r\<in>set routes. well_behaved (rt_handler r)" "handleRequest routes jp now req s = (sent, s')"
  shows "\<exists>code data. sent = Some (code, data) \<and> code \<in> {200, 400, 404, 500} \<and> (code = 400 \<or> code = 404 \<longrightarrow> s' = s)"
proof -
  obtain x r s1 where run: "route_request routes jp now req (new_response, s) = (x, r, s1)" by (metis prod_cases3)
  have "case x of Inl err \<Rightarrow> r = new_response
    | Inr u \<Rightarrow> \<exists>code data. rp_sent r = Some (code, data) \<and> code \<in> {200, 400, 404} \<and> (code \<noteq> 200 \<longrightarrow> s1 = s)"
    using run assms(1) unfolding route_request_def
    by (fastforce simp: Let_def well_behaved_def dest!: findRoute_member split: sum.splits option.splits prod.splits)
  then show ?thesis
    using assms(2) run
    by (auto simp: handleRequest_def new_response_def resp_json_def resp_status_def split: sum.splits)
qed

lemma request_reads:
  assumes "\<forall>r\<in>set routes. rt_method r = js ''GET'' \<longrightarrow> reading (rt_handler r)" "hr_method req = None \<or> hr_method req = Some (js ''GET'')"
  shows "snd (handleRequest routes jp now req s) = s"
proof -
  have "snd (snd (route_request routes jp now req (new_response, s))) = s"
    using assms unfolding route_request_def
    by (auto simp: Let_def reading_def dest!: findRoute_member split: sum.splits option.splits)
  then show ?thesis
    by (cases "route_request routes jp now req (new_response, s)")
      (auto simp: handleRequest_def split: sum.splits)
qed

lemma routes_behave:
  "\<forall>r\<in>set (registerRoutes eng p). well_behaved (rt_handler r)"
  "\<forall>r\<in>set (registerRoutes eng p). rt_method r = js ''GET'' \<longrightarrow> reading (rt_handler r)"
  using handlers_behave handlers_read by (auto simp: registerRoutes_def addRoute_def)

section \<open>Routing\<close>

lemma route_patterns:
  "compile_path (units (js ''/health'')) = map Lit (units (js ''/health''))"
  "compile_path (units (js ''/put'')) = map Lit (units (js ''/put''))"
  "compile_path (units (js ''/batch-put'')) = map Lit (units (js ''/batch-put''))"
  "compile_path (units (js ''/range'')) = map Lit (units (js ''/range''))"
  "compile_path (units (js ''/get/:key'')) = map Lit (units (js ''/get/'')) @ [Param (js ''key'')]"
  "compile_path (units (js ''/delete/:key'')) = map Lit (units (js ''/delete/'')) @ [Param (js ''key'')]"
  by code_simp+

lemma match_literal: "match_path (map Lit us @ ps) (us @ vs) = match_path ps vs"
  by (induction us) simp_all

lemma match_exact: "match_path (map Lit us) vs = (if vs = us then Some [] else None)"
  by (induction us arbitrary: vs) (auto split: list.split)

lemma match_last_param:
  assumes "us \<noteq> []" "\<forall>u\<in>set us. unat u \<noteq> 47"
  shows "match_path [Param name] us = Some [(name, JString us)]"
proof -
  have "takeWhile (\<lambda>u. unat u \<noteq> 47) us = us" using assms(2) by (simp add: takeWhile_eq_all_conv)
  moreover have "rev [1..<Suc (length us)] = length us # rev [1..<length us]"
    using assms(1) by (cases us) simp_all
  ultimately show ?thesis by (simp del: upt_Suc takeWhile_eq_all_conv)
qed

text \<open>The path under which a client finds a key.\<close>

definition key_path :: "string \<Rightarrow> jstring \<Rightarrow> jstring" where
  "key_path pre t = js_append (js pre) t"

lemma units_key_path: "units (key_path pre t) = units (js pre) @ units t"
  by (simp add: key_path_def js_append_def)

lemma key_route:
  assumes "encodeURIComponent k = Inr t" "k \<noteq> empty_string" "rt_pattern r = map Lit (units (js pre)) @ [Param (js ''key'')]"
  shows "findRoute (r # routes) (rt_method r) (key_path pre t) = Inr (Some (r, [js ''key'' \<mapsto> k]))"
proof -
  note path = encode_path [OF assms(1)]
  have "match_path (rt_pattern r) (units (key_path pre t)) = Some [(js ''key'', t)]"
    using match_last_param [of "units t" "js ''key''"] path assms(2)
    unfolding assms(3) units_key_path match_literal by simp
  then show ?thesis using decode_encode [OF assms(1)] by simp
qed

lemma health_not_get: "match_path (compile_path (units (js ''/health''))) (units (key_path ''/get/'' t)) = None"
  unfolding route_patterns match_exact units_key_path by (simp add: js_def)

lemma route_get:
  assumes "encodeURIComponent k = Inr t" "k \<noteq> empty_string"
  shows "\<exists>r. findRoute (registerRoutes eng p) (js ''GET'') (key_path ''/get/'' t) = Inr (Some (r, [js ''key'' \<mapsto> k])) \<and>
    rt_handler r = handleGet eng"
proof -
  let ?r = "\<lparr>rt_method = js ''GET'', rt_pattern = compile_path (units (js ''/get/:key'')), rt_handler = handleGet eng\<rparr>"
  obtain rest where "findRoute (registerRoutes eng p) (js ''GET'') (key_path ''/get/'' t) =
      findRoute (?r # rest) (js ''GET'') (key_path ''/get/'' t)"
    by (rule that [of "drop 4 (registerRoutes eng p)"]) (simp add: registerRoutes_def addRoute_def health_not_get)
  then show ?thesis
    using key_route [OF assms, of ?r "''/get/''" rest] route_patterns(5) by (intro exI [of _ ?r]) (simp del: findRoute.simps)
qed

lemma route_delete:
  assumes "encodeURIComponent k = Inr t" "k \<noteq> empty_string"
  shows "\<exists>r. findRoute (registerRoutes eng p) (js ''DELETE'') (key_path ''/delete/'' t) = Inr (Some (r, [js ''key'' \<mapsto> k])) \<and>
    rt_handler r = handleDelete eng"
proof -
  let ?r = "\<lparr>rt_method = js ''DELETE'', rt_pattern = compile_path (units (js ''/delete/:key'')), rt_handler = handleDelete eng\<rparr>"
  obtain rest where "findRoute (registerRoutes eng p) (js ''DELETE'') (key_path ''/delete/'' t) =
      findRoute (?r # rest) (js ''DELETE'') (key_path ''/delete/'' t)"
    by (rule that [of "drop 5 (registerRoutes eng p)"]) (simp add: registerRoutes_def addRoute_def)
  then show ?thesis
    using key_route [OF assms, of ?r "''/delete/''" rest] route_patterns(6) by (intro exI [of _ ?r]) (simp del: findRoute.simps)
qed

lemma route_put:
  "\<exists>r. findRoute (registerRoutes eng p) (js ''POST'') (js ''/put'') = Inr (Some (r, Map.empty)) \<and> rt_handler r = handlePut eng"
  by (simp add: registerRoutes_def addRoute_def route_patterns match_exact)

lemma route_batch:
  "\<exists>r. findRoute (registerRoutes eng p) (js ''POST'') (js ''/batch-put'') = Inr (Some (r, Map.empty)) \<and>
    rt_handler r = handleBatchPut eng"
proof -
  have "match_path (compile_path (units (js ''/put''))) (units (js ''/batch-put'')) = None" by code_simp
  then show ?thesis by (simp add: registerRoutes_def addRoute_def) (simp add: route_patterns match_exact)
qed

lemma route_range:
  "\<exists>r. findRoute (registerRoutes eng p) (js ''GET'') (js ''/range'') = Inr (Some (r, Map.empty)) \<and> rt_handler r = handleRange eng"
proof -
  have "match_path (compile_path (units (js ''/get/:key''))) (units (js ''/range'')) = None"
    "match_path (compile_path (units (js ''/health''))) (units (js ''/range'')) = None"
    by code_simp+
  then show ?thesis by (simp add: registerRoutes_def addRoute_def) (simp add: route_patterns match_exact)
qed

section \<open>Bodies\<close>

lemma collect_chunks_eq:
  "n \<le> max_body \<Longrightarrow> collect_chunks n chunks =
     (if n + length (concat chunks) \<le> max_body then Inr (concat chunks) else Inl BodyTooLarge)"
  by (induction chunks arbitrary: n) (auto simp: add.assoc)

lemma parseBody_eq:
  "parseBody jp chunks =
     (if max_body < length (concat chunks) then Inl BodyTooLarge
      else if chunks = [] then Inr (JObj [])
      else (case jp (utf8_decode (concat chunks)) of None \<Rightarrow> Inl InvalidJSON | Some body \<Rightarrow> Inr body))"
  using collect_chunks_eq [of 0 chunks] by (simp add: parseBody_def)

section \<open>Requests over an engine\<close>

definition get_request :: "string \<Rightarrow> jstring \<Rightarrow> http_request" where
  "get_request pre t = \<lparr>hr_method = Some (js ''GET''), hr_url = Inr (key_path pre t, []), hr_chunks = []\<rparr>"

definition delete_request :: "jstring \<Rightarrow> http_request" where
  "delete_request t = \<lparr>hr_method = Some (js ''DELETE''), hr_url = Inr (key_path ''/delete/'' t, []), hr_chunks = []\<rparr>"

definition put_request :: "byte list list \<Rightarrow> http_request" where
  "put_request chunks = \<lparr>hr_method = Some (js ''POST''), hr_url = Inr (js ''/put'', []), hr_chunks = chunks\<rparr>"

definition range_request :: "(jstring \<times> jstring) list \<Rightarrow> http_request" where
  "range_request search = \<lparr>hr_method = Some (js ''GET''), hr_url = Inr (js ''/range'', search), hr_chunks = []\<rparr>"

lemma handle_get:
  assumes "encodeURIComponent k = Inr t" "k \<noteq> empty_string"
  shows "handleRequest (registerRoutes eng p) jp now (get_request ''/get/'' t) s =
    (case eng_get eng k s of
       Inl err \<Rightarrow> (Some (500, internal_error), s)
     | Inr None \<Rightarrow> (Some (404, KeyNotFound k), s)
     | Inr (Some v) \<Rightarrow> (Some (200, ValueReply k v), s))"
proof -
  obtain r where "findRoute (registerRoutes eng p) (js ''GET'') (key_path ''/get/'' t) = Inr (Some (r, [js ''key'' \<mapsto> k]))"
    "rt_handler r = handleGet eng" using route_get [OF assms] by blast
  then show ?thesis
    using assms(2)
    by (simp add: handleRequest_def route_request_def get_request_def handleGet_def falsy_def Let_def new_response_def
        resp_json_def resp_status_def refuse_def answer_def split: sum.split option.split)
qed

lemma handle_delete:
  assumes "encodeURIComponent k = Inr t" "k \<noteq> empty_string"
  shows "handleRequest (registerRoutes eng p) jp now (delete_request t) s =
    (case eng_delete eng k s of
       (Inl err, s) \<Rightarrow> (Some (500, internal_error), s)
     | (Inr u, s) \<Rightarrow> (Some (200, SuccessReply), s))"
proof -
  obtain r where "findRoute (registerRoutes eng p) (js ''DELETE'') (key_path ''/delete/'' t) = Inr (Some (r, [js ''key'' \<mapsto> k]))"
    "rt_handler r = handleDelete eng" using route_delete [OF assms] by blast
  then show ?thesis
    using assms(2)
    by (simp add: handleRequest_def route_request_def delete_request_def handleDelete_def falsy_def Let_def
        new_response_def resp_json_def resp_status_def answer_def split: sum.split prod.split)
qed

lemma handle_put:
  assumes "parseBody jp chunks = Inr body" "json_prop body ''key'' = Some (JStr k)" "k \<noteq> empty_string"
    "given (json_prop body ''value'') = Some v" "js_String v = Inr t"
  shows "handleRequest (registerRoutes eng p) jp now (put_request chunks) s =
    (case eng_put eng k t s of
       (Inl err, s) \<Rightarrow> (Some (500, internal_error), s)
     | (Inr u, s) \<Rightarrow> (Some (200, SuccessReply), s))"
proof -
  obtain r where "findRoute (registerRoutes eng p) (js ''POST'') (js ''/put'') = Inr (Some (r, Map.empty))"
    "rt_handler r = handlePut eng" using route_put by blast
  moreover have "body \<noteq> JNull" using assms(2) by (auto simp: json_prop_def)
  ultimately show ?thesis
    using assms
    by (simp add: handleRequest_def route_request_def put_request_def handlePut_def key_text_def Let_def
        new_response_def resp_json_def resp_status_def answer_def split: sum.split prod.split)
qed

definition batch_request :: "byte list list \<Rightarrow> http_request" where
  "batch_request chunks = \<lparr>hr_method = Some (js ''POST''), hr_url = Inr (js ''/batch-put'', []), hr_chunks = chunks\<rparr>"

lemma handle_batch:
  assumes "parseBody jp chunks = Inr body" "parse_batch body = Inr (Inr kvs)" "kvs \<noteq> []"
  shows "handleRequest (registerRoutes eng p) jp now (batch_request chunks) s =
    (case eng_batchPut eng kvs s of
       (Inl err, s) \<Rightarrow> (Some (500, internal_error), s)
     | (Inr n, s) \<Rightarrow> (Some (200, CountReply n), s))"
proof -
  obtain r where "findRoute (registerRoutes eng p) (js ''POST'') (js ''/batch-put'') = Inr (Some (r, Map.empty))"
    "rt_handler r = handleBatchPut eng" using route_batch by blast
  then show ?thesis
    using assms
    by (simp add: handleRequest_def route_request_def batch_request_def handleBatchPut_def Let_def
        new_response_def resp_json_def resp_status_def answer_def split: sum.split prod.split)
qed

lemma handle_range:
  assumes "parseQueryString search (js ''start'') = Some a" "parseQueryString search (js ''end'') = Some b"
    "a \<noteq> empty_string" "b \<noteq> empty_string" "range_limit (parseQueryString search (js ''limit'')) = Some n"
  shows "handleRequest (registerRoutes eng p) jp now (range_request search) s =
    (case eng_readKeyRange eng a b (Some n) s of
       Inl err \<Rightarrow> (Some (500, internal_error), s)
     | Inr results \<Rightarrow> (Some (200, RangeReply (length results) results), s))"
proof -
  obtain r where "findRoute (registerRoutes eng p) (js ''GET'') (js ''/range'') = Inr (Some (r, Map.empty))"
    "rt_handler r = handleRange eng" using route_range by blast
  then show ?thesis
    using assms
    by (simp add: handleRequest_def route_request_def range_request_def handleRange_def falsy_def Let_def
        new_response_def resp_json_def resp_status_def answer_def split: sum.split)
qed

section \<open>Sequences of requests\<close>

text \<open>What a client asks for, and the requests that ask for it.\<close>

datatype client_op =
  OpPut jstring jstring
| OpGet jstring
| OpDelete jstring
| OpBatch "(jstring \<times> jstring) list"
| OpRange jstring jstring nat

text \<open>
  A request carries the path as the URL parser of Node gives it. The parser takes the segments
  \<open>.\<close> and \<open>..\<close> out of a path, so no path has such a key.
\<close>

definition dot_segment :: "jstring \<Rightarrow> bool" where
  "dot_segment k \<longleftrightarrow> k = js ''.'' \<or> k = js ''..''"

inductive asks :: "(jstring \<Rightarrow> json option) \<Rightarrow> client_op \<Rightarrow> http_request \<Rightarrow> bool" for jp where
  asks_put:
    "parseBody jp chunks = Inr body \<Longrightarrow> json_prop body ''key'' = Some (JStr k) \<Longrightarrow> k \<noteq> empty_string \<Longrightarrow>
     given (json_prop body ''value'') = Some v \<Longrightarrow> js_String v = Inr t \<Longrightarrow> asks jp (OpPut k t) (put_request chunks)"
| asks_get: "encodeURIComponent k = Inr u \<Longrightarrow> k \<noteq> empty_string \<Longrightarrow> \<not> dot_segment k \<Longrightarrow>
     asks jp (OpGet k) (get_request ''/get/'' u)"
| asks_delete: "encodeURIComponent k = Inr u \<Longrightarrow> k \<noteq> empty_string \<Longrightarrow> \<not> dot_segment k \<Longrightarrow>
     asks jp (OpDelete k) (delete_request u)"
| asks_batch:
    "parseBody jp chunks = Inr body \<Longrightarrow> parse_batch body = Inr (Inr kvs) \<Longrightarrow> kvs \<noteq> [] \<Longrightarrow>
     asks jp (OpBatch kvs) (batch_request chunks)"
| asks_range:
    "parseQueryString search (js ''start'') = Some a \<Longrightarrow> parseQueryString search (js ''end'') = Some b \<Longrightarrow>
     a \<noteq> empty_string \<Longrightarrow> b \<noteq> empty_string \<Longrightarrow> range_limit (parseQueryString search (js ''limit'')) = Some i \<Longrightarrow>
     asks jp (OpRange a b i) (range_request search)"

text \<open>What it does to the map, and the reply it gets.\<close>

fun op_effect :: "client_op \<Rightarrow> (jstring \<rightharpoonup> jstring) \<Rightarrow> jstring \<rightharpoonup> jstring" where
  "op_effect (OpPut k t) m = m(k \<mapsto> t)"
| "op_effect (OpDelete k) m = m(k := None)"
| "op_effect (OpBatch kvs) m = fold (\<lambda>(k, v) m. m(k \<mapsto> v)) kvs m"
| "op_effect (OpGet k) m = m"
| "op_effect (OpRange a b i) m = m"

fun answers :: "client_op \<Rightarrow> (jstring \<rightharpoonup> jstring) \<Rightarrow> (nat \<times> reply) option \<Rightarrow> bool" where
  "answers (OpPut k t) m sent \<longleftrightarrow> sent = Some (200, SuccessReply)"
| "answers (OpDelete k) m sent \<longleftrightarrow> sent = Some (200, SuccessReply)"
| "answers (OpBatch kvs) m sent \<longleftrightarrow> sent = Some (200, CountReply (length kvs))"
| "answers (OpGet k) m sent \<longleftrightarrow>
     sent = Some (case m k of None \<Rightarrow> (404, KeyNotFound k) | Some v \<Rightarrow> (200, ValueReply k v))"
| "answers (OpRange a b i) m sent \<longleftrightarrow>
     (\<exists>ps. ordered_by fst ps \<and> (\<forall>k. map_of ps k = (if a \<le> k \<and> k \<le> b then m k else None)) \<and>
        sent = Some (200, RangeReply (length (take (max 1 i) ps)) (take (max 1 i) ps)))"

fun all_answered :: "client_op list \<Rightarrow> (jstring \<rightharpoonup> jstring) \<Rightarrow> (nat \<times> reply) option list \<Rightarrow> bool" where
  "all_answered [] m outs \<longleftrightarrow> outs = []"
| "all_answered (x # xs) m outs \<longleftrightarrow>
     (\<exists>sent rest. outs = sent # rest \<and> answers x m sent \<and> all_answered xs (op_effect x m) rest)"

text \<open>The requests one after the other, each at its time; in between the engine works on its own.\<close>

inductive served ::
  "'s route list \<Rightarrow> (jstring \<Rightarrow> json option) \<Rightarrow> ('s \<Rightarrow> 's \<Rightarrow> bool) \<Rightarrow> 's \<Rightarrow> (nat \<times> http_request) list \<Rightarrow>
   (nat \<times> reply) option list \<Rightarrow> 's \<Rightarrow> bool"
  for routes jp bg where
  served_all: "served routes jp bg c [] [] c"
| served_request:
    "handleRequest routes jp now req c = (sent, c1) \<Longrightarrow> served routes jp bg c1 reqs outs c2 \<Longrightarrow>
     served routes jp bg c ((now, req) # reqs) (sent # outs) c2"
| served_background:
    "bg c c1 \<Longrightarrow> served routes jp bg c1 reqs outs c2 \<Longrightarrow> served routes jp bg c reqs outs c2"

text \<open>What the engine can take, by what it can take of each kind of write.\<close>

fun op_fits ::
  "(jstring \<Rightarrow> jstring \<Rightarrow> bool) \<Rightarrow> (jstring \<Rightarrow> bool) \<Rightarrow> ((jstring \<times> jstring) list \<Rightarrow> bool) \<Rightarrow> client_op \<Rightarrow> bool" where
  "op_fits pf kf bf (OpPut k t) \<longleftrightarrow> pf k t"
| "op_fits pf kf bf (OpDelete k) \<longleftrightarrow> kf k"
| "op_fits pf kf bf (OpBatch kvs) \<longleftrightarrow> bf kvs"
| "op_fits pf kf bf (OpGet k) \<longleftrightarrow> True"
| "op_fits pf kf bf (OpRange a b i) \<longleftrightarrow> True"

context storage_engine
begin

lemma range_reply:
  assumes "stands n c m" "parseQueryString search (js ''start'') = Some a" "parseQueryString search (js ''end'') = Some b"
    "a \<noteq> empty_string" "b \<noteq> empty_string" "range_limit (parseQueryString search (js ''limit'')) = Some i"
  shows "\<exists>ps. handleRequest (registerRoutes eng p) jp now (range_request search) c =
      (Some (200, RangeReply (length (take (max 1 i) ps)) (take (max 1 i) ps)), c) \<and> ordered_by fst ps \<and>
    (\<forall>k. map_of ps k = (if a \<le> k \<and> k \<le> b then m k else None))"
  using range_ok [OF assms(1), of a b "Some i"] handle_range [OF assms(2-6), of eng p jp now c]
  by (auto simp: limited_def)

lemma one_request:
  assumes "asks jp x req" "op_fits put_fits key_fits batch_fits x" "stands (Suc n) c m"
  shows "\<exists>sent c'. handleRequest (registerRoutes eng p) jp now req c = (sent, c') \<and> answers x m sent \<and>
    stands n c' (op_effect x m)"
  using assms(1)
proof cases
  case (asks_put chunks body k v t)
  obtain c' where "eng_put eng k t c = (Inr (), c')" "stands n c' (m(k \<mapsto> t))"
    using put_ok [OF assms(3)] assms(2) asks_put(1) by auto
  then show ?thesis by (simp add: asks_put(1,2) handle_put [OF asks_put(3-7)])
next
  case (asks_get k u)
  show ?thesis
    using fewer [OF assms(3)] by (simp add: asks_get(1,2) handle_get [OF asks_get(3,4)] get_ok [OF assms(3)] split: option.split)
next
  case (asks_delete k u)
  obtain c' where "eng_delete eng k c = (Inr (), c')" "stands n c' (m(k := None))"
    using delete_ok [OF assms(3)] assms(2) asks_delete(1) by auto
  then show ?thesis by (simp add: asks_delete(1,2) handle_delete [OF asks_delete(3,4)])
next
  case (asks_batch chunks body kvs)
  obtain c' where "eng_batchPut eng kvs c = (Inr (length kvs), c')"
    "stands n c' (fold (\<lambda>(k, v) m. m(k \<mapsto> v)) kvs m)"
    using batch_ok [OF assms(3) _ asks_batch(5)] assms(2) asks_batch(1) by auto
  then show ?thesis by (simp add: asks_batch(1,2) handle_batch [OF asks_batch(3-5)])
next
  case (asks_range search a b i)
  obtain ps where "handleRequest (registerRoutes eng p) jp now (range_request search) c =
      (Some (200, RangeReply (length (take (max 1 i) ps)) (take (max 1 i) ps)), c)" "ordered_by fst ps"
    "\<forall>k. map_of ps k = (if a \<le> k \<and> k \<le> b then m k else None)"
    using range_reply [OF assms(3) asks_range(3-7), of p jp now] by blast
  then show ?thesis
    unfolding asks_range(1,2) answers.simps op_effect.simps using fewer [OF assms(3)] by blast
qed

text \<open>Every request is answered from the map that the requests before it have left.\<close>

lemma all_requests:
  assumes "served (registerRoutes eng p) jp background c reqs outs c'"
    "list_all2 (\<lambda>x (now, req). asks jp x req) xs reqs" "\<forall>x\<in>set xs. op_fits put_fits key_fits batch_fits x"
    "stands (length xs + n) c m"
  shows "all_answered xs m outs \<and> stands n c' (fold op_effect xs m)"
  using assms
proof (induction arbitrary: xs m rule: served.induct)
  case (served_request now req c sent c1 reqs outs c2)
  obtain x rest where xs: "xs = x # rest" and a: "asks jp x req"
    and l: "list_all2 (\<lambda>x (now, req). asks jp x req) rest reqs"
    using served_request.prems(1) by (auto simp: list_all2_Cons2)
  have one: "answers x m sent" "stands (length rest + n) c1 (op_effect x m)"
    using one_request [OF a, of "length rest + n" c m p now] served_request.prems(2,3) served_request.hyps(1) by (auto simp: xs)
  show ?case
    using served_request.IH [OF l _ one(2)] served_request.prems(2) one by (auto simp: xs)
next
  case (served_background c c1 reqs outs c2)
  then show ?case using background_ok by blast
qed simp

end

end
