(* ===== verification/Configuration.thy ===== *)
theory Configuration
  imports Replication JS_Text LSM_Store
begin

text \<open>
  The configuration of src/src/common/Config.ts with its defaults and the check of the table
  tuning, and the command line of src/src/cli/CLIParser.ts that makes a configuration.
\<close>

section \<open>The configuration\<close>

text \<open>\<open>Partial<SSTableTuning>\<close> and what it is resolved to.\<close>

record partial_tuning =
  pt_sparseIndexInterval :: "int option"
  pt_bloomFilterFalsePositiveRate :: "real option"

record tuning =
  tn_sparseIndexInterval :: int
  tn_bloomFilterFalsePositiveRate :: real

record storage_config =
  sc_dataDir :: jstring
  sc_memTableSizeLimit :: int
  sc_syncPolicy :: sync_policy
  sc_httpPort :: int
  sc_tcpPort :: int
  sc_enableCompaction :: "bool option"
  sc_compactionThreshold :: "int option"
  sc_sstableTuning :: "partial_tuning option"
  sc_replication :: "repl_config option"

definition DEFAULT_SSTABLE_TUNING :: tuning where
  "DEFAULT_SSTABLE_TUNING = \<lparr>tn_sparseIndexInterval = 10, tn_bloomFilterFalsePositiveRate = 1 / 100\<rparr>"

definition DEFAULT_CONFIG :: storage_config where
  "DEFAULT_CONFIG =
     \<lparr>sc_dataDir = js ''./data'', sc_memTableSizeLimit = 4 * 1024 * 1024, sc_syncPolicy = GROUP_COMMIT_100MS,
      sc_httpPort = 3000, sc_tcpPort = 3001, sc_enableCompaction = Some True, sc_compactionThreshold = Some 4,
      sc_sstableTuning = None, sc_replication = None\<rparr>"

definition resolveSSTableTuning :: "partial_tuning option \<Rightarrow> tuning res" where
  "resolveSSTableTuning config =
     (let resolved =
        (case config of
           None \<Rightarrow> DEFAULT_SSTABLE_TUNING
         | Some c \<Rightarrow>
             \<lparr>tn_sparseIndexInterval =
                or_default (pt_sparseIndexInterval c) (tn_sparseIndexInterval DEFAULT_SSTABLE_TUNING),
              tn_bloomFilterFalsePositiveRate =
                or_default (pt_bloomFilterFalsePositiveRate c) (tn_bloomFilterFalsePositiveRate DEFAULT_SSTABLE_TUNING)\<rparr>)
      in if tn_sparseIndexInterval resolved < 1 then Inl InvalidTuning
         else if 1000 < tn_sparseIndexInterval resolved then Inl InvalidTuning
         else if tn_bloomFilterFalsePositiveRate resolved \<le> 0 \<or> 1 \<le> tn_bloomFilterFalsePositiveRate resolved
         then Inl InvalidTuning
         else Inr resolved)"

section \<open>The command line\<close>

definition with_equals :: "string \<Rightarrow> jstring" where
  "with_equals flag = js (flag @ ''='')"

text \<open>
  \<open>getString\<close>: the first argument \<open>flag=value\<close>, of which only the part between the first
  two equals signs counts; otherwise the argument after the first \<open>flag\<close>.
\<close>

fun next_arg :: "jstring \<Rightarrow> jstring list \<Rightarrow> jstring option" where
  "next_arg flag [] = None"
| "next_arg flag (a # rest) =
     (if a = flag then (case rest of [] \<Rightarrow> None | b # bs \<Rightarrow> Some b) else next_arg flag rest)"

definition getString :: "jstring list \<Rightarrow> string \<Rightarrow> jstring option" where
  "getString args flag =
     (case filter (\<lambda>arg. startsWith arg (with_equals flag)) args of
        arg # rest \<Rightarrow> Some (JString (split_units 61 (units arg) ! 1))
      | [] \<Rightarrow> next_arg (js flag) args)"

definition getNumber :: "jstring list \<Rightarrow> string \<Rightarrow> int option res" where
  "getNumber args flag =
     (let str = getString args flag in
      if falsy str then Inr None
      else (case parseInt (the str) of None \<Rightarrow> Inl InvalidNumber | Some n \<Rightarrow> Inr (Some n)))"

definition hasFlag :: "jstring list \<Rightarrow> string \<Rightarrow> bool" where
  "hasFlag args flag \<longleftrightarrow> js flag \<in> set args"

definition parseRole :: "jstring \<Rightarrow> repl_role res" where
  "parseRole v =
     (let normalized = toLowerCase v in
      if normalized = js ''primary'' then Inr PRIMARY
      else if normalized = js ''backup'' then Inr BACKUP
      else if normalized = js ''standalone'' then Inr STANDALONE
      else Inl InvalidRole)"

definition parseSyncPolicy :: "jstring list \<Rightarrow> sync_policy option res" where
  "parseSyncPolicy args =
     (let v = getString args ''--sync-policy'' in
      if falsy v then Inr None
      else
        let normalized = toLowerCase (the v) in
        if normalized = js ''sync'' then Inr (Some SYNC_EVERY_WRITE)
        else if normalized = js ''group'' then Inr (Some GROUP_COMMIT_100MS)
        else if normalized = js ''periodic'' then Inr (Some PERIODIC_10MS)
        else Inl InvalidSyncPolicy)"

definition no_repl_config :: repl_config where
  "no_repl_config = \<lparr>rc_role = None, rc_backupHost = None, rc_backupPort = None, rc_replicationPort = None,
     rc_connectionTimeoutMs = None, rc_reconnectIntervalMs = None\<rparr>"

definition primary_config :: "jstring \<Rightarrow> int \<Rightarrow> repl_config" where
  "primary_config h p = no_repl_config\<lparr>rc_role := Some PRIMARY, rc_backupHost := Some h, rc_backupPort := Some p\<rparr>"

definition backup_config :: "int \<Rightarrow> repl_config" where
  "backup_config p = no_repl_config\<lparr>rc_role := Some BACKUP, rc_replicationPort := Some p\<rparr>"

text \<open>A number that is missing or zero.\<close>

definition no_number :: "int option \<Rightarrow> bool" where
  "no_number n \<longleftrightarrow> n = None \<or> n = Some 0"

definition parseReplicationConfig :: "jstring list \<Rightarrow> repl_config option res" where
  "parseReplicationConfig args =
     (let roleStr = getString args ''--role'' in
      if falsy roleStr then Inr None
      else
        bind_res (parseRole (the roleStr)) (\<lambda>role.
        if role = STANDALONE then Inr None
        else if role = PRIMARY then
          let backupHost = getString args ''--backup-host'' in
          bind_res (getNumber args ''--backup-port'') (\<lambda>backupPort.
          if falsy backupHost \<or> no_number backupPort then Inl MissingOption
          else Inr (Some (primary_config (the backupHost) (the backupPort))))
        else
          bind_res (getNumber args ''--replication-port'') (\<lambda>replicationPort.
          if no_number replicationPort then Inl MissingOption
          else Inr (Some (backup_config (the replicationPort))))))"

text \<open>\<open>parse\<close>: the configuration, and whether help is asked for.\<close>

definition cli_parse :: "jstring list \<Rightarrow> (storage_config \<times> bool) res" where
  "cli_parse args =
     (if hasFlag args ''--help'' \<or> hasFlag args ''-h'' then Inr (DEFAULT_CONFIG, True)
      else
        bind_res (parseReplicationConfig args) (\<lambda>replication.
        bind_res (getNumber args ''--http-port'') (\<lambda>httpPort.
        bind_res (getNumber args ''--tcp-port'') (\<lambda>tcpPort.
        bind_res (getNumber args ''--memtable-size'') (\<lambda>memTableSize.
        bind_res (parseSyncPolicy args) (\<lambda>policy.
        Inr (DEFAULT_CONFIG
               \<lparr>sc_dataDir := or_default (getString args ''--data-dir'') (sc_dataDir DEFAULT_CONFIG),
                sc_httpPort := or_default httpPort (sc_httpPort DEFAULT_CONFIG),
                sc_tcpPort := or_default tcpPort (sc_tcpPort DEFAULT_CONFIG),
                sc_memTableSizeLimit := or_default memTableSize (sc_memTableSizeLimit DEFAULT_CONFIG),
                sc_syncPolicy := or_default policy (sc_syncPolicy DEFAULT_CONFIG),
                sc_replication := (if replication = None then sc_replication DEFAULT_CONFIG else replication)\<rparr>,
             False)))))))"

section \<open>What the command line gives\<close>

lemma no_equals_js:
  assumes "CHR ''='' \<notin> set s"
  shows "(61 :: 16 word) \<notin> set (units (js s))"
proof
  assume "(61 :: 16 word) \<in> set (units (js s))"
  then obtain c where c: "c \<in> set s" "(61 :: 16 word) = word_of_nat (of_char c)" by (auto simp: js_def)
  then have "of_char c = (61 :: nat)" using unat_js_char [of c] by simp
  moreover have "char_of (of_char c :: nat) = c" by simp
  ultimately have "c = char_of (61 :: nat)" by simp
  also have "char_of (61 :: nat) = CHR ''=''" by code_simp
  finally show False using assms c(1) by simp
qed

text \<open>Of the value of \<open>flag=value\<close>, the part before an equals sign of its own.\<close>

definition before_equals :: "jstring \<Rightarrow> jstring" where
  "before_equals v = JString (takeWhile (\<lambda>u. u \<noteq> 61) (units v))"

lemma split_value:
  assumes "CHR ''='' \<notin> set flag"
  shows "JString (split_units 61 (units (js_append (with_equals flag) v)) ! 1) = before_equals v"
proof -
  have "(61 :: 16 word) \<notin> set (units (js flag))" by (rule no_equals_js [OF assms])
  moreover have "units (js_append (with_equals flag) v) = units (js flag) @ 61 # units v"
    by (simp add: js_append_def with_equals_def js_def)
  moreover have "split_units 61 (units v) ! 0 = takeWhile (\<lambda>u. u \<noteq> 61) (units v)"
    using split_units_hd [of 61 "units v"] by (cases "split_units 61 (units v)") auto
  ultimately show ?thesis by (simp add: split_units_first before_equals_def)
qed

lemma before_equals_whole: "(61 :: 16 word) \<notin> set (units v) \<Longrightarrow> before_equals v = v"
  by (cases v) (auto simp: before_equals_def intro: takeWhile_eq_all_conv [THEN iffD2])

lemma before_equals_js: "CHR ''='' \<notin> set s \<Longrightarrow> before_equals (js s) = js s"
  by (rule before_equals_whole [OF no_equals_js])

subsection \<open>Reading back the arguments of a configuration\<close>

definition cli_arg :: "string \<Rightarrow> jstring \<Rightarrow> jstring" where
  "cli_arg flag v = js_append (with_equals flag) v"

lemma units_cli_arg: "units (cli_arg flag v) = units (js flag) @ 61 # units v"
  by (simp add: cli_arg_def js_append_def with_equals_def js_def)

lemma takeWhile_cli_arg:
  "CHR ''='' \<notin> set flag \<Longrightarrow> takeWhile (\<lambda>u. u \<noteq> 61) (units (cli_arg flag v)) = units (js flag)"
proof -
  assume "CHR ''='' \<notin> set flag"
  then have "\<forall>u\<in>set (units (js flag)). u \<noteq> 61" using no_equals_js [of flag] by metis
  then show ?thesis by (simp add: units_cli_arg takeWhile_append2)
qed

lemma startsWith_cli_arg:
  assumes "CHR ''='' \<notin> set flag" "CHR ''='' \<notin> set f"
  shows "startsWith (cli_arg f v) (with_equals flag) \<longleftrightarrow> f = flag"
proof
  assume "startsWith (cli_arg f v) (with_equals flag)"
  then have "take (Suc (length flag)) (units (cli_arg f v)) = units (js flag) @ [61]"
    by (simp add: startsWith_def with_equals_def js_def)
  then have "units (cli_arg f v) = units (cli_arg flag (JString (drop (Suc (length flag)) (units (cli_arg f v)))))"
    unfolding units_cli_arg [of flag] by (metis append.assoc append_Cons append_Nil append_take_drop_id jstring.sel)
  then have "units (js f) = units (js flag)"
    using takeWhile_cli_arg [OF assms(1)] takeWhile_cli_arg [OF assms(2)] by metis
  then show "f = flag" using js_inject jstring.expand by blast
qed (simp add: startsWith_def units_cli_arg, simp add: with_equals_def js_def)

lemma cli_arg_not_flag: "CHR ''='' \<notin> set flag \<Longrightarrow> cli_arg f v \<noteq> js flag"
  using no_equals_js [of flag] units_cli_arg [of f v] by auto

lemma getString_cli:
  assumes "CHR ''='' \<notin> set flag" "CHR ''='' \<notin> set f"
  shows "getString (cli_arg f v # rest) flag = (if f = flag then Some (before_equals v) else getString rest flag)"
  using assms split_value [of flag v]
  by (simp add: getString_def startsWith_cli_arg cli_arg_not_flag split: list.split) (simp add: cli_arg_def)

lemma getString_Nil [simp]: "getString [] flag = None"
  by (simp add: getString_def)

lemma hasFlag_cli: "CHR ''='' \<notin> set flag \<Longrightarrow> hasFlag (cli_arg f v # rest) flag = hasFlag rest flag"
  by (simp add: hasFlag_def) (metis cli_arg_not_flag)

definition number_text :: "int \<Rightarrow> jstring" where
  "number_text n = js (decimal (nat n))"

lemma number_text_read:
  "0 \<le> n \<Longrightarrow> parseInt (before_equals (number_text n)) = Some n" "before_equals (number_text n) \<noteq> empty_string"
proof -
  have "CHR ''='' \<notin> set (decimal (nat n))" using decimal_digits [of "nat n"] by fastforce
  then have "before_equals (number_text n) = number_text n"
    by (simp add: number_text_def before_equals_js)
  then show "0 \<le> n \<Longrightarrow> parseInt (before_equals (number_text n)) = Some n" "before_equals (number_text n) \<noteq> empty_string"
    using decimal_digits [of "nat n"] by (simp_all add: number_text_def parseInt_decimal)
qed

definition policy_text :: "sync_policy \<Rightarrow> jstring" where
  "policy_text p = js (case p of SYNC_EVERY_WRITE \<Rightarrow> ''sync'' | GROUP_COMMIT_100MS \<Rightarrow> ''group'' | PERIODIC_10MS \<Rightarrow> ''periodic'')"

definition role_args :: "repl_config option \<Rightarrow> jstring list" where
  "role_args r =
     (case r of
        None \<Rightarrow> []
      | Some c \<Rightarrow>
          if rc_role c = Some PRIMARY then
            [cli_arg ''--role'' (js ''primary''), cli_arg ''--backup-host'' (the (rc_backupHost c)),
             cli_arg ''--backup-port'' (number_text (the (rc_backupPort c)))]
          else [cli_arg ''--role'' (js ''backup''), cli_arg ''--replication-port'' (number_text (the (rc_replicationPort c)))])"

text \<open>The arguments that stand for a configuration.\<close>

definition config_args :: "storage_config \<Rightarrow> jstring list" where
  "config_args c =
     [cli_arg ''--data-dir'' (sc_dataDir c), cli_arg ''--http-port'' (number_text (sc_httpPort c)),
      cli_arg ''--tcp-port'' (number_text (sc_tcpPort c)), cli_arg ''--memtable-size'' (number_text (sc_memTableSizeLimit c)),
      cli_arg ''--sync-policy'' (policy_text (sc_syncPolicy c))] @ role_args (sc_replication c)"

text \<open>A role as the command line can give it.\<close>

definition cli_role :: "repl_config option \<Rightarrow> bool" where
  "cli_role r \<longleftrightarrow> r = None \<or>
     (\<exists>h p. r = Some (primary_config h p) \<and>
        h \<noteq> empty_string \<and> p \<noteq> 0) \<or>
     (\<exists>p. r = Some (backup_config p) \<and> p \<noteq> 0)"

definition cli_config :: "storage_config \<Rightarrow> bool" where
  "cli_config c \<longleftrightarrow> 0 \<le> sc_httpPort c \<and> 0 \<le> sc_tcpPort c \<and> 0 \<le> sc_memTableSizeLimit c \<and>
     sc_enableCompaction c = Some True \<and> sc_compactionThreshold c = Some 4 \<and> sc_sstableTuning c = None \<and>
     cli_role (sc_replication c) \<and>
     (\<forall>r. sc_replication c = Some r \<longrightarrow>
        (\<forall>h. rc_backupHost r = Some h \<longrightarrow> (61 :: 16 word) \<notin> set (units h)) \<and>
        (\<forall>p. rc_backupPort r = Some p \<longrightarrow> 0 \<le> p) \<and> (\<forall>p. rc_replicationPort r = Some p \<longrightarrow> 0 \<le> p))"

lemma role_configs [simp]:
  "rc_role (primary_config h p) = Some PRIMARY" "rc_role (backup_config p) = Some BACKUP"
  "rc_backupHost (primary_config h p) = Some h" "rc_backupPort (primary_config h p) = Some p"
  "rc_backupHost (backup_config p) = None" "rc_backupPort (backup_config p) = None"
  "rc_replicationPort (backup_config p) = Some p" "rc_replicationPort (primary_config h p) = None"
  by (simp_all add: primary_config_def backup_config_def no_repl_config_def)

lemma role_configs_inject [simp]:
  "primary_config h p = primary_config h' p' \<longleftrightarrow> h = h' \<and> p = p'"
  "backup_config p = backup_config p' \<longleftrightarrow> p = p'"
  "primary_config h p \<noteq> backup_config q" "backup_config q \<noteq> primary_config h p"
proof -
  have "h = h' \<and> p = p'" if "primary_config h p = primary_config h' p'"
    using arg_cong [OF that, of rc_backupHost] arg_cong [OF that, of rc_backupPort] by simp
  then show "primary_config h p = primary_config h' p' \<longleftrightarrow> h = h' \<and> p = p'" by auto
  have "p = p'" if "backup_config p = backup_config p'"
    using arg_cong [OF that, of rc_replicationPort] by simp
  then show "backup_config p = backup_config p' \<longleftrightarrow> p = p'" by auto
  show "primary_config h p \<noteq> backup_config q"
    using role_configs(3) [of h p] role_configs(5) [of q] by (metis option.distinct(1))
  then show "backup_config q \<noteq> primary_config h p" by metis
qed

lemma policy_read:
  "parseSyncPolicy args = Inr (Some p)" if "getString args ''--sync-policy'' = Some (before_equals (policy_text p))"
proof -
  have "before_equals (policy_text p) = policy_text p"
    by (cases p) (simp_all add: policy_text_def before_equals_js)
  moreover have "toLowerCase (policy_text p) = policy_text p" by (cases p; simp add: policy_text_def; code_simp)
  moreover have "policy_text p \<noteq> empty_string" by (cases p) (simp_all add: policy_text_def)
  ultimately show ?thesis
    using that by (cases p) (simp_all add: parseSyncPolicy_def falsy_def Let_def policy_text_def)
qed

lemma getNumber_read:
  "getString args flag = Some (before_equals (number_text n)) \<Longrightarrow> 0 \<le> n \<Longrightarrow> getNumber args flag = Inr (Some n)"
  by (simp add: getNumber_def falsy_def number_text_read)

lemma role_read:
  assumes "getString args ''--role'' = Some (before_equals (js v))" "v = ''primary'' \<or> v = ''backup''"
  shows "\<not> falsy (getString args ''--role'')"
    "parseRole (the (getString args ''--role'')) = Inr (if v = ''primary'' then PRIMARY else BACKUP)"
proof -
  have "toLowerCase (js ''primary'') = js ''primary''" "toLowerCase (js ''backup'') = js ''backup''" by code_simp+
  then show "\<not> falsy (getString args ''--role'')"
    "parseRole (the (getString args ''--role'')) = Inr (if v = ''primary'' then PRIMARY else BACKUP)"
    using assms by (auto simp: before_equals_js falsy_def parseRole_def Let_def)
qed

lemma replication_read:
  assumes "cli_config c"
  shows "parseReplicationConfig (config_args c) = Inr (sc_replication c)"
proof -
  have "cli_role (sc_replication c)" using assms by (simp add: cli_config_def)
  then consider "sc_replication c = None"
    | h p where "sc_replication c = Some (primary_config h p)"
      "h \<noteq> empty_string" "p \<noteq> 0"
    | p where "sc_replication c = Some (backup_config p)" "p \<noteq> 0"
    unfolding cli_role_def by (elim disjE exE conjE)
  then show ?thesis
  proof cases
    case 1
    then show ?thesis
      by (simp add: parseReplicationConfig_def config_args_def role_args_def getString_cli falsy_def)
  next
    case 2
    have h: "before_equals h = h" "0 \<le> p" using assms 2(1) by (auto simp: cli_config_def intro: before_equals_whole)
    let ?args = "config_args c"
    have g: "getString ?args ''--role'' = Some (before_equals (js ''primary''))" "getString ?args ''--backup-host'' = Some h"
      "getString ?args ''--backup-port'' = Some (before_equals (number_text p))"
      using 2(1) h by (simp_all add: config_args_def role_args_def getString_cli)
    show ?thesis
      using role_read [OF g(1)] getNumber_read [OF g(3) h(2)] g(2) 2
      by (simp add: parseReplicationConfig_def Let_def falsy_def no_number_def)
  next
    case 3
    have p: "0 \<le> p" using assms 3(1) by (auto simp: cli_config_def)
    let ?args = "config_args c"
    have g: "getString ?args ''--role'' = Some (before_equals (js ''backup''))"
      "getString ?args ''--replication-port'' = Some (before_equals (number_text p))"
      using 3(1) by (simp_all add: config_args_def role_args_def getString_cli)
    show ?thesis
      using role_read [OF g(1)] getNumber_read [OF g(2) p] 3
      by (simp add: parseReplicationConfig_def Let_def no_number_def)
  qed
qed

lemma cli_parse_args:
  assumes "cli_config c"
  shows "cli_parse (config_args c) = Inr (c\<lparr>sc_dataDir := before_equals (sc_dataDir c)\<rparr>, False)"
proof -
  let ?args = "config_args c"
  have flags: "\<not> hasFlag ?args ''--help''" "\<not> hasFlag ?args ''-h''"
    by (simp_all add: config_args_def role_args_def hasFlag_cli split: option.split) (simp_all add: hasFlag_def)
  have g: "getString ?args ''--data-dir'' = Some (before_equals (sc_dataDir c))"
    "getString ?args ''--http-port'' = Some (before_equals (number_text (sc_httpPort c)))"
    "getString ?args ''--tcp-port'' = Some (before_equals (number_text (sc_tcpPort c)))"
    "getString ?args ''--memtable-size'' = Some (before_equals (number_text (sc_memTableSizeLimit c)))"
    "getString ?args ''--sync-policy'' = Some (before_equals (policy_text (sc_syncPolicy c)))"
    by (simp_all add: config_args_def getString_cli)
  have n: "0 \<le> sc_httpPort c" "0 \<le> sc_tcpPort c" "0 \<le> sc_memTableSizeLimit c" "sc_enableCompaction c = Some True"
    "sc_compactionThreshold c = Some 4" "sc_sstableTuning c = None"
    using assms by (simp_all add: cli_config_def)
  show ?thesis
    using flags replication_read [OF assms] getNumber_read [OF g(2) n(1)] getNumber_read [OF g(3) n(2)]
      getNumber_read [OF g(4) n(3)] policy_read [OF g(5)] g(1) n
    by (cases c) (simp add: cli_parse_def or_default_def DEFAULT_CONFIG_def)
qed

text \<open>Whatever the arguments, a configuration that is parsed has a complete role and the default tuning.\<close>

lemma cli_parse_role:
  assumes "cli_parse args = Inr (c, h)"
  shows "cli_role (sc_replication c)" "sc_sstableTuning c = None" "sc_enableCompaction c = Some True"
proof -
  have "cli_role r" if "parseReplicationConfig args = Inr r" for r
    using that
    by (auto simp: parseReplicationConfig_def Let_def bind_res_eq_Inr cli_role_def falsy_def no_number_def
        split: if_splits)
  then show "cli_role (sc_replication c)" "sc_sstableTuning c = None" "sc_enableCompaction c = Some True"
    using assms by (auto simp: cli_parse_def bind_res_eq_Inr DEFAULT_CONFIG_def cli_role_def split: if_splits)
qed

end
