(* ===== verification/Application.thy ===== *)
theory Application
  imports Configuration HTTP_Server TCP_Link Compaction_Proofs
begin

text \<open>
  Putting the parts together: the constructor of the store, StorageFactory.ts and the functions
  of src/src/index.ts that create, start and stop the application. \<open>path.join\<close> is an argument;
  the listeners of the servers are flags.
\<close>

section \<open>The store\<close>

text \<open>
  \<open>LSMStoreDependencies\<close>: what can be injected. Of the listener of the log it only matters
  whether there is one.
\<close>

record store_deps =
  sd_wal :: "wal option"
  sd_activeMemTable :: "mem_table option"
  sd_manifest :: "manifest option"
  sd_compactionManager :: "compactor option"
  sd_listener :: bool

definition no_deps :: store_deps where
  "no_deps = \<lparr>sd_wal = None, sd_activeMemTable = None, sd_manifest = None, sd_compactionManager = None,
     sd_listener = False\<rparr>"

definition table_config :: "(jstring \<Rightarrow> jstring \<Rightarrow> jstring) \<Rightarrow> storage_config \<Rightarrow> tuning \<Rightarrow> sst_config" where
  "table_config path_join config t =
     \<lparr>cf_dataDir = path_join (sc_dataDir config) (js ''sstables''),
      cf_sparseIndexInterval = nat (tn_sparseIndexInterval t),
      cf_falsePositiveRate = tn_bloomFilterFalsePositiveRate t\<rparr>"

text \<open>
  The constructor of \<open>LSMStore\<close>: the store, its compactor, and whether its log calls the
  listener. A log that is injected does not.
\<close>

type_synonym new_parts = "store \<times> compactor option \<times> bool"

definition construct_store ::
  "(jstring \<Rightarrow> jstring \<Rightarrow> jstring) \<Rightarrow> nat \<Rightarrow> store_deps \<Rightarrow> storage_config \<Rightarrow> new_parts res" where
  "construct_store path_join now deps config =
     bind_res (resolveSSTableTuning (sc_sstableTuning config)) (\<lambda>t.
     let s = new_store (sc_syncPolicy config) (sc_memTableSizeLimit config) (table_config path_join config t) now in
     Inr (s\<lparr>st_active := or_default (sd_activeMemTable deps) (st_active s),
            st_wal := or_default (sd_wal deps) (st_wal s),
            st_manifest := or_default (sd_manifest deps) (st_manifest s)\<rparr>,
          sd_compactionManager deps, sd_wal deps = None \<and> sd_listener deps))"

definition use_compaction :: "storage_config \<Rightarrow> bool" where
  "use_compaction config \<longleftrightarrow> sc_enableCompaction config \<noteq> Some False"

definition createWAL :: "storage_config \<Rightarrow> wal" where
  "createWAL config = new_wal (sc_syncPolicy config)"

definition createMemTable :: "storage_config \<Rightarrow> mem_table" where
  "createMemTable config = new_mem_table (sc_memTableSizeLimit config)"

text \<open>\<open>ApplicationBuilder\<close>; a factory is what its two methods give.\<close>

record app_builder =
  ab_config :: storage_config
  ab_factory :: "(wal \<times> mem_table) option"
  ab_dependencies :: "store_deps option"

definition new_builder :: "storage_config \<Rightarrow> app_builder" where
  "new_builder config = \<lparr>ab_config = config, ab_factory = None, ab_dependencies = None\<rparr>"

definition withFactory :: "wal \<times> mem_table \<Rightarrow> app_builder \<Rightarrow> app_builder" where
  "withFactory f b = b\<lparr>ab_factory := Some f\<rparr>"

definition withDependencies :: "store_deps \<Rightarrow> app_builder \<Rightarrow> app_builder" where
  "withDependencies deps b = b\<lparr>ab_dependencies := Some deps\<rparr>"

definition buildStorage :: "(jstring \<Rightarrow> jstring \<Rightarrow> jstring) \<Rightarrow> nat \<Rightarrow> app_builder \<Rightarrow> new_parts res" where
  "buildStorage path_join now b =
     (case ab_dependencies b of
        Some deps \<Rightarrow> construct_store path_join now deps (ab_config b)
      | None \<Rightarrow>
          (case ab_factory b of
             Some (w, m) \<Rightarrow>
               construct_store path_join now (no_deps\<lparr>sd_wal := Some w, sd_activeMemTable := Some m\<rparr>) (ab_config b)
           | None \<Rightarrow> construct_store path_join now no_deps (ab_config b)))"

section \<open>The application\<close>

record manager_config =
  mc_backupHost :: jstring
  mc_backupPort :: int
  mc_connectionTimeoutMs :: int
  mc_reconnectIntervalMs :: int

definition createReplicationManagerConfig :: "repl_config \<Rightarrow> manager_config res" where
  "createReplicationManagerConfig c =
     (if falsy (rc_backupHost c) \<or> no_number (rc_backupPort c) then Inl MissingOption
      else Inr \<lparr>mc_backupHost = the (rc_backupHost c), mc_backupPort = the (rc_backupPort c),
        mc_connectionTimeoutMs = or_default (rc_connectionTimeoutMs c) DEFAULT_CONNECTION_TIMEOUT_MS,
        mc_reconnectIntervalMs = or_default (rc_reconnectIntervalMs c) DEFAULT_RECONNECT_INTERVAL_MS\<rparr>)"

text \<open>The port.\<close>

definition createReplicationServerConfig :: "repl_config \<Rightarrow> int res" where
  "createReplicationServerConfig c =
     (if no_number (rc_replicationPort c) then Inl MissingOption else Inr (the (rc_replicationPort c)))"

record application =
  ap_config :: storage_config
  ap_store :: store
  ap_compactor :: "compactor option"
  ap_listener :: bool
  ap_manager :: "(manager_config \<times> repl_manager) option"
  ap_backup :: "(int \<times> repl_server) option"
  ap_http :: bool
  ap_tcp :: tcp_server

definition app_role :: "storage_config \<Rightarrow> repl_role" where
  "app_role config =
     (case sc_replication config of None \<Rightarrow> STANDALONE | Some c \<Rightarrow> or_default (rc_role c) STANDALONE)"

definition createApplication :: "(jstring \<Rightarrow> jstring \<Rightarrow> jstring) \<Rightarrow> nat \<Rightarrow> storage_config \<Rightarrow> application res" where
  "createApplication path_join now config =
     bind_res
       (case sc_replication config of
          Some c \<Rightarrow>
            if app_role config = PRIMARY
            then bind_res (createReplicationManagerConfig c) (\<lambda>mc. Inr (Some (mc, new_manager))) else Inr None
        | None \<Rightarrow> Inr None) (\<lambda>manager.
     bind_res (construct_store path_join now (no_deps\<lparr>sd_listener := manager \<noteq> None\<rparr>) config) (\<lambda>(s, cm, listener).
     bind_res
       (case sc_replication config of
          Some c \<Rightarrow>
            if app_role config = BACKUP
            then bind_res (createReplicationServerConfig c) (\<lambda>port. Inr (Some (port, new_repl_server))) else Inr None
        | None \<Rightarrow> Inr None) (\<lambda>backup.
     Inr \<lparr>ap_config = config, ap_store = s, ap_compactor = cm, ap_listener = listener, ap_manager = manager, ap_backup = backup,
       ap_http = False, ap_tcp = new_tcp_server\<rparr>)))"

text \<open>What \<open>/replication/status\<close> asks.\<close>

definition app_provider :: "application \<Rightarrow> status_provider option" where
  "app_provider app =
     (case ap_backup app of
        Some (port, r) \<Rightarrow> Some (server_status r)
      | None \<Rightarrow> map_option (\<lambda>(mc, m). manager_status m) (ap_manager app))"

text \<open>
  The first connection of the manager, from \<open>connect\<close> to the end of its await. The socket
  throws at once when the port is out of range.
\<close>

datatype connect_outcome = Reached | ErrorEvent | TimeoutEvent

definition first_connect :: "nat \<Rightarrow> connect_outcome \<Rightarrow> manager_config \<Rightarrow> repl_manager \<Rightarrow> repl_manager" where
  "first_connect now outcome mc m =
     (let m = repl_connect False m in
      if mc_backupPort mc < 0 \<or> 65535 < mc_backupPort mc then attempt_fails m
      else (case outcome of
              Reached \<Rightarrow> repl_on_connect m
            | ErrorEvent \<Rightarrow> repl_on_error now m
            | TimeoutEvent \<Rightarrow> repl_on_timeout now m))"

text \<open>\<open>HTTPServer.start\<close>: the server is made anew, and stays when it cannot listen.\<close>

definition http_start :: "(int list \<Rightarrow> int) \<Rightarrow> int \<Rightarrow> int list \<Rightarrow> unit res \<times> int list \<times> bool" where
  "http_start pick port ports = (case listen_on pick port ports of (r, ports) \<Rightarrow> (r, ports, True))"

text \<open>
  \<open>startApplication\<close>. A first connection that fails is only reported. An error of a server
  rejects the start, and \<open>main\<close> ends the process.
\<close>

definition startApplication ::
  "read_env \<Rightarrow> nat \<Rightarrow> (int list \<Rightarrow> int) \<Rightarrow> int list \<Rightarrow> connect_outcome \<Rightarrow> application \<Rightarrow> disk \<Rightarrow> (application \<times> disk) res" where
  "startApplication env now pick ports outcome app d =
     bind_res (store_initialize env now (ap_store app) d) (\<lambda>(s, d).
     let compactor = start_compaction (use_compaction (ap_config app)) (st_sstConfig s) (st_manifest s) (ap_compactor app);
         manager = map_option (\<lambda>(mc, m). (mc, first_connect now outcome mc m)) (ap_manager app)
     in bind_res
          (case ap_backup app of
             None \<Rightarrow> Inr (None, ports)
           | Some (port, r) \<Rightarrow>
               (case repl_start pick port ports r of
                  (Inl err, ports, r) \<Rightarrow> Inl err
                | (Inr u, ports, r) \<Rightarrow> Inr (Some (port, r), ports))) (\<lambda>(backup, ports).
        (case http_start pick (sc_httpPort (ap_config app)) ports of
           (Inl err, ports, http) \<Rightarrow> Inl err
         | (Inr u, ports, http) \<Rightarrow>
             (case tcp_start pick (sc_tcpPort (ap_config app)) ports (ap_tcp app) of
                (Inl err, ports, tcp) \<Rightarrow> Inl err
              | (Inr u, ports, tcp) \<Rightarrow>
                  Inr (app\<lparr>ap_store := s, ap_compactor := compactor, ap_manager := manager, ap_backup := backup,
                         ap_http := http, ap_tcp := tcp\<rparr>, d)))))"

text \<open>The ports of an application, in the order in which it listens to them.\<close>

definition app_ports :: "storage_config \<Rightarrow> int list" where
  "app_ports c = (if app_role c = BACKUP then [the (rc_replicationPort (the (sc_replication c)))] else []) @
     [sc_httpPort c, sc_tcpPort c]"

section \<open>Shutting down\<close>

text \<open>
  What still runs when the servers are stopped: the steps of a compaction (\<open>True\<close>) and of a
  flush, each at its time, in any order.
\<close>

type_synonym background = "compactor option \<times> store \<times> disk"

definition background_step :: "read_env \<Rightarrow> (nat \<Rightarrow> nat) \<Rightarrow> bool \<times> nat \<Rightarrow> background \<Rightarrow> background" where
  "background_step env clock e = (\<lambda>(cm, s, d).
     if fst e then
       (case cm of
          None \<Rightarrow> (None, s, d)
        | Some c \<Rightarrow> (case compact_step env clock (snd e) (c, s, d) of (c, s, d) \<Rightarrow> (Some c, s, d)))
     else (case flush_step env (snd e) s d of (s, d) \<Rightarrow> (cm, s, d)))"

definition compacting :: "compactor option \<Rightarrow> bool" where
  "compacting cm \<longleftrightarrow> (case cm of None \<Rightarrow> False | Some c \<Rightarrow> isCompacting c)"

text \<open>The error with which a step rejects the running compaction.\<close>

definition background_error :: "read_env \<Rightarrow> (nat \<Rightarrow> nat) \<Rightarrow> bool \<times> nat \<Rightarrow> background \<Rightarrow> js_error option" where
  "background_error env clock e = (\<lambda>(cm, s, d).
     case cm of None \<Rightarrow> None | Some c \<Rightarrow> if fst e then compaction_error env clock (snd e) (c, s, d) else None)"

text \<open>
  \<open>LSMStore.close\<close> after the compactor is stopped. \<open>awaited\<close>: the compactor was running, and its
  compaction is waited for; if it fails, the close is rejected and the rest of it does not
  happen. Then the flush is waited for, whose errors are caught. \<open>es\<close> are the steps that come
  meanwhile; when they are not enough, the close still waits.
\<close>

datatype end_result = Complete | Failed js_error | Waiting

fun close_run ::
  "read_env \<Rightarrow> (nat \<Rightarrow> nat) \<Rightarrow> nat \<Rightarrow> bool \<Rightarrow> (bool \<times> nat) list \<Rightarrow> background \<Rightarrow> end_result \<times> background" where
  "close_run env clock now awaited es (cm, s, d) =
     (if awaited \<and> compacting cm \<or> st_flush s \<noteq> NoFlush then
        (case es of
           [] \<Rightarrow> (Waiting, cm, s, d)
         | e # es \<Rightarrow>
             (case (if awaited then background_error env clock e (cm, s, d) else None) of
                Some err \<Rightarrow> (Failed err, background_step env clock e (cm, s, d))
              | None \<Rightarrow> close_run env clock now awaited es (background_step env clock e (cm, s, d))))
      else
        (case store_close (env_mem env) now s d of
           (Inl err, s, d) \<Rightarrow> (Failed err, cm, s, d)
         | (Inr u, s, d) \<Rightarrow> (Complete, cm, s, d)))"

definition close_after ::
  "read_env \<Rightarrow> (nat \<Rightarrow> nat) \<Rightarrow> nat \<Rightarrow> (bool \<times> nat) list \<Rightarrow> background \<Rightarrow> end_result \<times> background" where
  "close_after env clock now es = (\<lambda>(cm, s, d).
     close_run env clock now (case cm of None \<Rightarrow> False | Some c \<Rightarrow> cm_running c) es (map_option compaction_stop cm, s, d))"

text \<open>
  \<open>disconnect\<close>: with a socket it waits for the callback of \<open>end\<close>, which may not come
  (\<open>ended\<close> is false).
\<close>

definition manager_shutdown :: "nat \<Rightarrow> bool \<Rightarrow> repl_manager \<Rightarrow> bool \<times> repl_manager" where
  "manager_shutdown now ended m =
     (let m = repl_disconnect now m in
      if rm_socket m = None then (True, m) else if ended then (True, repl_ended m) else (False, m))"

text \<open>
  \<open>shutdownApplication\<close>. The TCP server and the server of the backup destroy their sockets and so
  are closed; the HTTP server waits for its connections (\<open>drained\<close>: they all come to an end).
  Entries that the close still logs find the manager disconnected: they are not sent.
\<close>

definition shutdownApplication ::
  "read_env \<Rightarrow> (nat \<Rightarrow> nat) \<Rightarrow> nat \<Rightarrow> bool \<Rightarrow> bool \<Rightarrow> (bool \<times> nat) list \<Rightarrow> application \<Rightarrow> disk \<Rightarrow>
   end_result \<times> application \<times> disk" where
  "shutdownApplication env clock now drained ended es app d =
     (let app = app\<lparr>ap_tcp := tcp_stop (ap_tcp app)\<rparr> in
      if ap_http app \<and> \<not> drained then (Waiting, app\<lparr>ap_http := False\<rparr>, d)
      else
        let app = app\<lparr>ap_http := False\<rparr>;
            left = map_option (\<lambda>(mc, m). (mc, manager_shutdown now ended m)) (ap_manager app);
            app = app\<lparr>ap_manager := map_option (\<lambda>(mc, r, m). (mc, m)) left\<rparr>
        in if \<exists>mc m. left = Some (mc, False, m) then (Waiting, app, d)
           else
             let app = app\<lparr>ap_backup := map_option (\<lambda>(port, r). (port, repl_stop r)) (ap_backup app)\<rparr>
             in case close_after env clock now es (ap_compactor app, ap_store app, d) of
                  (r, cm, s, d) \<Rightarrow> (r, app\<lparr>ap_compactor := cm, ap_store := s\<rparr>, d))"

section \<open>What the command line makes of it\<close>

lemma default_tuning: "resolveSSTableTuning None = Inr DEFAULT_SSTABLE_TUNING"
  by (simp add: resolveSSTableTuning_def DEFAULT_SSTABLE_TUNING_def)

text \<open>A tuning that passes the check is what the tables need.\<close>

lemma tuning_bounds:
  "resolveSSTableTuning c = Inr t \<Longrightarrow>
   1 \<le> tn_sparseIndexInterval t \<and> tn_sparseIndexInterval t \<le> 1000 \<and>
   0 < tn_bloomFilterFalsePositiveRate t \<and> tn_bloomFilterFalsePositiveRate t < 1"
  by (auto simp: resolveSSTableTuning_def Let_def split: if_splits)

lemma construct_fresh:
  "sc_sstableTuning c = None \<Longrightarrow> construct_store pj now (no_deps\<lparr>sd_listener := b\<rparr>) c =
     Inr (new_store (sc_syncPolicy c) (sc_memTableSizeLimit c) (table_config pj c DEFAULT_SSTABLE_TUNING) now, None, b)"
  by (simp add: construct_store_def default_tuning or_default_def new_store_def no_deps_def)

lemma default_factory:
  "buildStorage pj now (withFactory (createWAL c, createMemTable c) (new_builder c)) = buildStorage pj now (new_builder c)"
  by (simp add: buildStorage_def withFactory_def new_builder_def construct_store_def createWAL_def createMemTable_def
      or_default_def new_store_def no_deps_def)

lemma create_application:
  assumes "cli_role (sc_replication c)" "sc_sstableTuning c = None"
  obtains app where "createApplication pj now c = Inr app" "ap_config app = c"
    "ap_store app = new_store (sc_syncPolicy c) (sc_memTableSizeLimit c) (table_config pj c DEFAULT_SSTABLE_TUNING) now"
    "\<forall>h p. sc_replication c = Some (primary_config h p) \<longrightarrow>
       (\<exists>mc. ap_manager app = Some (mc, new_manager) \<and> mc_backupHost mc = h \<and> mc_backupPort mc = p)"
    "ap_manager app \<noteq> None \<longleftrightarrow> app_role c = PRIMARY"
    "\<forall>p. sc_replication c = Some (backup_config p) \<longrightarrow> ap_backup app = Some (p, new_repl_server)"
    "ap_backup app = (if app_role c = BACKUP then Some (the (rc_replicationPort (the (sc_replication c))), new_repl_server) else None)"
    "ap_compactor app = None" "ap_tcp app = new_tcp_server" "ap_listener app \<longleftrightarrow> app_role c = PRIMARY"
proof -
  consider "sc_replication c = None"
    | (primary) h p where "sc_replication c = Some (primary_config h p)" "h \<noteq> empty_string" "p \<noteq> 0"
    | (backup) p where "sc_replication c = Some (backup_config p)" "p \<noteq> 0"
    using assms(1) unfolding cli_role_def by (elim disjE exE conjE)
  then show thesis
  proof cases
    case 1
    then show ?thesis
      by (intro that) (auto simp: createApplication_def construct_fresh assms(2) app_role_def)
  next
    case primary
    then show ?thesis
      using primary
      by (intro that) (auto simp: createApplication_def construct_fresh assms(2) app_role_def or_default_def
          createReplicationManagerConfig_def falsy_def no_number_def)
  next
    case backup
    then show ?thesis
      using backup
      by (intro that) (auto simp: createApplication_def construct_fresh assms(2) app_role_def or_default_def
          createReplicationServerConfig_def no_number_def)
  qed
qed

lemma start_application:
  assumes "store_initialize env now (ap_store app) d = Inr (s, d')" "ap_tcp app = new_tcp_server"
    "ap_backup app = (if app_role (ap_config app) = BACKUP
       then Some (the (rc_replicationPort (the (sc_replication (ap_config app)))), new_repl_server) else None)"
  shows "if ports_free pick ports (app_ports (ap_config app))
    then \<exists>app'. startApplication env now pick ports outcome app d = Inr (app', d') \<and> ap_store app' = s \<and> ap_http app' \<and>
      ts_started (ap_tcp app') \<and> ap_listener app' = ap_listener app \<and>
      ap_compactor app' = start_compaction (use_compaction (ap_config app)) (st_sstConfig s) (st_manifest s) (ap_compactor app) \<and>
      map_option fst (ap_manager app') = map_option fst (ap_manager app) \<and>
      map_option fst (ap_backup app') = map_option fst (ap_backup app)
    else \<exists>err. startApplication env now pick ports outcome app d = Inl err \<and> err \<in> {BadPort, ListenFailed}"
proof -
  have fst: "map_option fst (map_option (\<lambda>(mc, m). (mc, f mc m)) x) = map_option fst x" for f :: "'a \<Rightarrow> 'b \<Rightarrow> 'b" and x
    by (cases x) auto
  show ?thesis
    by (simp add: startApplication_def assms app_ports_def Let_def http_start_def tcp_start_def repl_start_def new_tcp_server_def
        new_repl_server_def listen_on_def fst)
qed

text \<open>What the start makes of the manager.\<close>

lemma start_manager:
  assumes "startApplication env now pick ports outcome app d = Inr (app', d')"
  shows "ap_manager app' = map_option (\<lambda>(mc, m). (mc, first_connect now outcome mc m)) (ap_manager app)"
  using assms unfolding startApplication_def Let_def
  by (auto simp: bind_res_eq_Inr split_beta split: sum.splits)
    (metis (full_types) old.unit.exhaust sum.exhaust)+

section \<open>Background work comes to an end\<close>

fun flush_left :: "flush_phase \<Rightarrow> nat" where
  "flush_left (Building w) = 4"
| "flush_left (Built m) = 3"
| "flush_left (Recorded m) = 2"
| "flush_left Opened = 1"
| "flush_left NoFlush = 0"

lemma flush_left_0 [simp]: "flush_left ph = 0 \<longleftrightarrow> ph = NoFlush"
  by (cases ph) simp_all

lemma flush_left_4: "flush_left ph \<le> 4"
  by (cases ph) simp_all

lemma steps_left_7: "steps_left ph \<le> 7"
  by (cases ph) simp_all

text \<open>Whatever fails, a step of a flush is one of the last it takes; so is one of a compaction.\<close>

lemma flush_step_left:
  "flush_left (st_flush (fst (flush_step env now s d))) \<le> flush_left (st_flush s) - 1"
  by (auto simp: flush_step_def Let_def split: flush_phase.split prod.split sum.split)

lemma compact_step_left:
  assumes "compact_step env clock now (c, s, d) = (c', s', d')"
  shows "steps_left (cm_phase c') \<le> steps_left (cm_phase c) - 1" "st_flush s' = st_flush s"
    "cm_running c' = cm_running c" "cm_timer c' = cm_timer c"
  using assms
  by (auto simp: compact_step_def Let_def updateStats_def close_compacted_def
      split: compact_phase.splits prod.splits sum.splits option.splits if_splits)

definition compaction_left :: "compactor option \<Rightarrow> nat" where
  "compaction_left cm = (case cm of None \<Rightarrow> 0 | Some c \<Rightarrow> steps_left (cm_phase c))"

definition work_left :: "bool \<Rightarrow> background \<Rightarrow> nat" where
  "work_left b = (\<lambda>(cm, s, d). if b then compaction_left cm else flush_left (st_flush s))"

definition stopped :: "compactor option \<Rightarrow> bool" where
  "stopped cm \<longleftrightarrow> (\<forall>c. cm = Some c \<longrightarrow> \<not> cm_running c)"

lemma background_step_cases:
  obtains (compaction) c c' s' where "fst e" "fst x = Some c"
      "fst (background_step env clock e x) = Some c'" "fst (snd (background_step env clock e x)) = s'"
      "steps_left (cm_phase c') \<le> steps_left (cm_phase c) - 1" "st_flush s' = st_flush (fst (snd x))"
      "cm_running c' = cm_running c" "cm_timer c' = cm_timer c"
  | (none) "fst e" "fst x = None" "background_step env clock e x = x"
  | (flush) "\<not> fst e" "fst (background_step env clock e x) = fst x"
      "flush_left (st_flush (fst (snd (background_step env clock e x)))) \<le> flush_left (st_flush (fst (snd x))) - 1"
proof -
  obtain cm s d where x: "x = (cm, s, d)" by (cases x)
  show thesis
  proof (cases "fst e")
    case False
    then show ?thesis
      using flush_step_left [of env "snd e" s d] flush by (cases "flush_step env (snd e) s d") (auto simp: x background_step_def)
  next
    case True
    show ?thesis
    proof (cases cm)
      case None
      then show ?thesis using True none by (simp add: x background_step_def)
    next
      case (Some c)
      obtain c' s' d' where step: "compact_step env clock (snd e) (c, s, d) = (c', s', d')" by (metis prod_cases3)
      then show ?thesis
        using True Some compact_step_left [OF step] by (intro compaction [of c c' s']) (simp_all add: x background_step_def)
    qed
  qed
qed

lemma background_step_left:
  "work_left b (background_step env clock e x) \<le> work_left b x - (if fst e = b then 1 else 0)"
  "stopped (fst x) \<Longrightarrow> stopped (fst (background_step env clock e x))"
  by (cases rule: background_step_cases [of e x env clock];
      simp add: work_left_def compaction_left_def stopped_def split_beta)+

lemma stop_stopped: "stopped (map_option compaction_stop cm)"
  by (cases cm) (simp_all add: stopped_def compaction_stop_def)

lemma stopped_stays: "stopped (Some c) \<Longrightarrow> checkAndTrigger m c = c"
  by (simp add: stopped_def checkAndTrigger_def)

text \<open>Nothing that runs in the background touches the queue of the log or opens or closes the store.\<close>

lemma finish_write_initialized [simp]: "st_initialized (finish_write now e s) = st_initialized s"
  by (simp add: finish_write_def maybeFlush_def triggerFlush_def Let_def split: sum.split)

lemma finish_writes_initialized [simp]: "st_initialized (fold (finish_write now) es s) = st_initialized s"
  by (induction es arbitrary: s) simp_all

lemma flush_step_initialized: "st_initialized (fst (flush_step env now s d)) = st_initialized s"
  by (simp add: flush_step_def Let_def split: flush_phase.split prod.split sum.split)

lemma compact_step_log:
  "compact_step env clock now (c, s, d) = (c', s', d') \<Longrightarrow> st_wal s' = st_wal s \<and> st_initialized s' = st_initialized s"
  by (auto simp: compact_step_def Let_def split: compact_phase.splits prod.splits sum.splits option.splits if_splits)

lemma background_step_keeps:
  "st_initialized (fst (snd (background_step env clock e x))) = st_initialized (fst (snd x))"
  "wal_pendingWrites (st_wal (fst (snd x))) = [] \<Longrightarrow>
     wal_pendingWrites (st_wal (fst (snd (background_step env clock e x)))) = []"
proof -
  obtain cm s d where x: "x = (cm, s, d)" by (cases x)
  have flush: "st_initialized (fst (flush_step env (snd e) s d)) = st_initialized s"
    "wal_pendingWrites (st_wal s) = [] \<Longrightarrow> wal_pendingWrites (st_wal (fst (flush_step env (snd e) s d))) = []"
    using flush_step_initialized flush_step_log by blast+
  have compact: "st_initialized (fst (snd (compact_step env clock (snd e) (c, s, d)))) = st_initialized s \<and>
      st_wal (fst (snd (compact_step env clock (snd e) (c, s, d)))) = st_wal s" for c
    using compact_step_log by (metis prod_cases3 fst_conv snd_conv)
  show "st_initialized (fst (snd (background_step env clock e x))) = st_initialized (fst (snd x))"
    "wal_pendingWrites (st_wal (fst (snd x))) = [] \<Longrightarrow>
      wal_pendingWrites (st_wal (fst (snd (background_step env clock e x)))) = []"
    using flush compact by (auto simp: x background_step_def split_beta split: option.split)
qed

lemma compacting_left: "compacting cm \<longleftrightarrow> compaction_left cm \<noteq> 0"
  by (cases cm) (simp_all add: compacting_def compaction_left_def isCompacting_def)

lemma background_step_compacting: "compacting (fst (background_step env clock e x)) \<Longrightarrow> compacting (fst x)"
  using background_step_left(1) [of True env clock e x] by (simp add: compacting_left work_left_def split_beta)

lemma background_error_compacting: "background_error env clock e x = Some err \<Longrightarrow> compacting (fst x)"
  by (auto simp: background_error_def compacting_def isCompacting_def compaction_error_def split: option.splits if_splits prod.splits)

section \<open>The end of a close\<close>

lemma store_close_result:
  assumes "store_close mem now s d = (r, s', d')"
  shows "r = Inr () \<Longrightarrow> (\<forall>t\<in>set (st_sstables s'). rd_state (snd t) = None) \<and> \<not> st_initialized s' \<and>
      (wal_pendingWrites (st_wal s) = [] \<longrightarrow> st_flush s' = st_flush s)"
    "r = Inl err \<Longrightarrow> st_initialized s' = st_initialized s \<and> wal_pendingWrites (st_wal s) \<noteq> []"
proof -
  have tables: "st_sstables (fold (finish_write now) es s0) = st_sstables s0" for es s0
    by (induction es arbitrary: s0) (simp_all add: finish_write_def maybeFlush_def triggerFlush_def Let_def split: sum.split)
  show "r = Inr () \<Longrightarrow> (\<forall>t\<in>set (st_sstables s'). rd_state (snd t) = None) \<and> \<not> st_initialized s' \<and>
      (wal_pendingWrites (st_wal s) = [] \<longrightarrow> st_flush s' = st_flush s)"
    "r = Inl err \<Longrightarrow> st_initialized s' = st_initialized s \<and> wal_pendingWrites (st_wal s) \<noteq> []"
    using assms by (auto simp: store_close_def Let_def reader_close_def wal_close_def flushBatch_def tables
        split: prod.splits option.splits if_splits)
qed

text \<open>One turn of the close: it is done, or it waits for the next step.\<close>

definition must_wait :: "bool \<Rightarrow> background \<Rightarrow> bool" where
  "must_wait aw x \<longleftrightarrow> aw \<and> compacting (fst x) \<or> st_flush (fst (snd x)) \<noteq> NoFlush"

declare close_run.simps [simp del]

lemma close_run_Nil: "must_wait aw x \<Longrightarrow> close_run env clock now aw [] x = (Waiting, x)"
  by (cases x) (simp add: must_wait_def close_run.simps)

lemma close_run_Cons:
  assumes "must_wait aw x"
  shows "close_run env clock now aw (e # es) x =
     (case (if aw then background_error env clock e x else None) of
        Some err \<Rightarrow> (Failed err, background_step env clock e x)
      | None \<Rightarrow> close_run env clock now aw es (background_step env clock e x))"
proof -
  obtain cm s d where x: "x = (cm, s, d)" by (cases x)
  show ?thesis
    unfolding x close_run.simps [of env clock now aw "e # es"]
    using assms by (simp add: must_wait_def x del: if_splits)
qed

lemma close_run_done:
  "\<not> must_wait aw (cm, s, d) \<Longrightarrow> close_run env clock now aw es (cm, s, d) =
     (case store_close (env_mem env) now s d of
        (Inl err, s, d) \<Rightarrow> (Failed err, cm, s, d) | (Inr u, s, d) \<Rightarrow> (Complete, cm, s, d))"
  by (subst close_run.simps) (simp only: must_wait_def fst_conv snd_conv if_False)

lemma must_wait_left: "must_wait aw x \<Longrightarrow> work_left True x \<noteq> 0 \<or> work_left False x \<noteq> 0"
  by (auto simp: must_wait_def compacting_left work_left_def split: prod.split)

definition run_good :: "bool \<Rightarrow> (bool \<times> nat) list \<Rightarrow> background \<Rightarrow> end_result \<times> background \<Rightarrow> bool" where
  "run_good aw es x = (\<lambda>(r, cm, s, d).
     (work_left True x \<le> length (filter fst es) \<longrightarrow> work_left False x \<le> length (filter (\<lambda>e. \<not> fst e) es) \<longrightarrow> r \<noteq> Waiting) \<and>
     (r = Complete \<longrightarrow> (aw \<longrightarrow> \<not> compacting cm) \<and> stopped cm \<and> (\<forall>t\<in>set (st_sstables s). rd_state (snd t) = None) \<and>
        \<not> st_initialized s \<and> (wal_pendingWrites (st_wal (fst (snd x))) = [] \<longrightarrow> st_flush s = NoFlush)) \<and>
     (\<forall>err. r = Failed err \<longrightarrow> aw \<and> compacting (fst x) \<or> wal_pendingWrites (st_wal (fst (snd x))) \<noteq> []) \<and>
     (r \<noteq> Complete \<longrightarrow> st_initialized s = st_initialized (fst (snd x))))"

lemma close_run_finish:
  assumes "\<not> must_wait aw x" "stopped (fst x)"
  shows "run_good aw es x (close_run env clock now aw es x)"
proof -
  obtain cm s d where x: "x = (cm, s, d)" by (cases x)
  obtain r s' d' where c: "store_close (env_mem env) now s d = (r, s', d')" by (metis prod_cases3)
  have idle: "st_flush s = NoFlush" "aw \<longrightarrow> \<not> compacting cm" using assms(1) by (auto simp: must_wait_def x)
  show ?thesis
    unfolding x close_run_done [OF assms(1) [unfolded x]]
    using idle assms(2) store_close_result [OF c] by (cases r) (auto simp: run_good_def c x)
qed

lemma close_run_good: "stopped (fst x) \<Longrightarrow> run_good aw es x (close_run env clock now aw es x)"
proof (induction es arbitrary: x)
  case Nil
  show ?case
  proof (cases "must_wait aw x")
    case True
    then show ?thesis
      using must_wait_left [OF True] by (cases x) (auto simp: close_run_Nil run_good_def)
  qed (use close_run_finish [OF _ Nil] in blast)
next
  case (Cons e es)
  show ?case
  proof (cases "must_wait aw x")
    case True
    let ?x = "background_step env clock e x"
    note kept = background_step_keeps [where x = x and env = env and clock = clock and e = e]
    have stopped: "stopped (fst ?x)" by (rule background_step_left(2) [OF Cons.prems])
    show ?thesis
    proof (cases "if aw then background_error env clock e x else None")
      case (Some err)
      then have "aw" "compacting (fst x)" using background_error_compacting by (auto split: if_splits)
      then show ?thesis
        unfolding close_run_Cons [OF True] Some using kept by (cases ?x) (simp add: run_good_def)
    next
      case None
      have less: "work_left b ?x \<le> work_left b x - (if fst e = b then 1 else 0)" for b
        by (rule background_step_left(1))
      have "run_good aw es ?x (close_run env clock now aw es ?x)" by (rule Cons.IH [OF stopped])
      then show ?thesis
        unfolding close_run_Cons [OF True] None option.case
        using kept background_step_compacting [of env clock e x] less [of True] less [of False]
        by (cases "fst e") (auto simp: run_good_def split: prod.splits)
    qed
  qed (use close_run_finish [OF _ Cons.prems] in blast)
qed

lemma close_run_None:
  "fst (snd (close_run env clock now aw es (None, s, d))) = None"
proof (induction es arbitrary: s d)
  case Nil
  show ?case by (simp add: close_run.simps split: prod.split sum.split)
next
  case (Cons e es)
  have "\<exists>s' d'. background_step env clock e (None, s, d) = (None, s', d')"
    by (simp add: background_step_def split: prod.split)
  then obtain s' d' where step: "background_step env clock e (None, s, d) = (None, s', d')" by blast
  have no: "background_error env clock e (None, s, d) = None" by (simp add: background_error_def)
  have IH: "fst (snd (close_run env clock now aw es (None, s', d'))) = None" by (rule Cons.IH)
  show ?case
    unfolding close_run.simps [of env clock now aw "e # es"] using IH
    by (cases aw) (simp_all add: no step compacting_def split: prod.split sum.split)
qed

text \<open>The rest of a flush is at most four steps, that of a compaction at most seven.\<close>

lemma close_after_good:
  assumes "close_after env clock now es (cm, s, d) = (r, cm', s', d')" "\<forall>c. cm = Some c \<longrightarrow> cm_running c"
    "7 \<le> length (filter fst es)" "4 \<le> length (filter (\<lambda>e. \<not> fst e) es)"
  shows "r \<noteq> Waiting"
    "r = Complete \<Longrightarrow> \<not> compacting cm' \<and> stopped cm' \<and> (\<forall>t\<in>set (st_sstables s'). rd_state (snd t) = None) \<and>
       \<not> st_initialized s' \<and> (wal_pendingWrites (st_wal s) = [] \<longrightarrow> st_flush s' = NoFlush)"
    "r = Failed err \<Longrightarrow> compacting cm \<or> wal_pendingWrites (st_wal s) \<noteq> []"
    "r \<noteq> Complete \<Longrightarrow> st_initialized s' = st_initialized s"
proof -
  let ?x = "(map_option compaction_stop cm, s, d)" and ?aw = "case cm of None \<Rightarrow> False | Some c \<Rightarrow> cm_running c"
  have left: "work_left True ?x \<le> 7" "work_left False ?x \<le> 4"
    using steps_left_7 flush_left_4 by (simp_all add: work_left_def compaction_left_def split: option.split)
  have same: "compacting (map_option compaction_stop cm) = compacting cm"
    by (cases cm) (simp_all add: compacting_def isCompacting_def compaction_stop_def)
  have good: "run_good ?aw es ?x (r, cm', s', d')"
    using close_run_good [of ?x ?aw es env clock now] stop_stopped assms(1) by (simp add: close_after_def)
  have none: "\<not> compacting cm'" if "r = Complete"
  proof (cases cm)
    case None
    then show ?thesis
      using assms(1) close_run_None [of env clock now False es s d] by (simp add: close_after_def compacting_def)
  next
    case (Some c)
    then show ?thesis using good that assms(2) by (simp add: run_good_def)
  qed
  show "r \<noteq> Waiting" "r = Failed err \<Longrightarrow> compacting cm \<or> wal_pendingWrites (st_wal s) \<noteq> []"
    "r \<noteq> Complete \<Longrightarrow> st_initialized s' = st_initialized s"
    "r = Complete \<Longrightarrow> \<not> compacting cm' \<and> stopped cm' \<and> (\<forall>t\<in>set (st_sstables s'). rd_state (snd t) = None) \<and>
       \<not> st_initialized s' \<and> (wal_pendingWrites (st_wal s) = [] \<longrightarrow> st_flush s' = NoFlush)"
    using good left assms(3,4) none same by (auto simp: run_good_def)
qed

lemma manager_shutdown_ends:
  "manager_shutdown now ended m = (True, m') \<Longrightarrow> rm_socket m' = None \<and> rm_pendingAcks m' = []"
  "rm_socket m = None \<or> ended \<Longrightarrow> fst (manager_shutdown now ended m)"
proof -
  have "rm_pendingAcks (repl_disconnect now m) = []" by (simp add: repl_disconnect_def repl_rejectAllPending_def)
  then show "manager_shutdown now ended m = (True, m') \<Longrightarrow> rm_socket m' = None \<and> rm_pendingAcks m' = []"
    by (auto simp: manager_shutdown_def Let_def repl_ended_def split: if_splits)
  have "rm_socket (fold (pending_reject now) ps m1) = rm_socket m1" for ps m1
    by (induction ps arbitrary: m1) (simp_all add: pending_reject_def rm_updateMetricsFailure_def Let_def)
  then have "rm_socket (repl_disconnect now m) = rm_socket m"
    by (simp add: repl_disconnect_def repl_rejectAllPending_def stopReconnectTimer_def)
  then show "rm_socket m = None \<or> ended \<Longrightarrow> fst (manager_shutdown now ended m)"
    by (auto simp: manager_shutdown_def Let_def)
qed

text \<open>A store that is not initialised takes no write, and so starts no flush.\<close>

lemma closed_store_refuses:
  "\<not> st_initialized s \<Longrightarrow> store_commit mem now b s d = (Inl NotInitialized, s, d)"
  "\<not> st_initialized s \<Longrightarrow> applyReplicatedEntry mem now e s d = (Inl NotInitialized, s, d)"
  by (simp_all add: store_commit_def store_write_def store_enqueue_def applyReplicatedEntry_def ensureInitialized_def)

text \<open>The shutdown of an application that was started.\<close>

lemma shutdown_result:
  assumes "shutdownApplication env clock now drained ended es app d = (r, app', d')"
    "\<forall>c. ap_compactor app = Some c \<longrightarrow> cm_running c"
    "7 \<le> length (filter fst es)" "4 \<le> length (filter (\<lambda>e. \<not> fst e) es)"
  obtains (waiting) "r = Waiting" "ap_http app \<and> \<not> drained \<or> (\<exists>mc m. ap_manager app = Some (mc, m) \<and> rm_socket m \<noteq> None \<and> \<not> ended)"
      "ap_store app' = ap_store app" "\<not> ap_http app'" "\<not> ts_started (ap_tcp app')"
    | (closing) cm' s' where "r \<noteq> Waiting" "close_after env clock now es (ap_compactor app, ap_store app, d) = (r, cm', s', d')"
      "ap_compactor app' = cm'" "ap_store app' = s'" "\<not> ap_http app'" "\<not> ts_started (ap_tcp app')"
      "\<forall>port r. ap_backup app' = Some (port, r) \<longrightarrow> \<not> rs_started r"
      "\<forall>mc m. ap_manager app' = Some (mc, m) \<longrightarrow> rm_socket m = None \<and> rm_pendingAcks m = []"
proof -
  have tcp: "\<not> ts_started (tcp_stop t)" and backup: "\<not> rs_started (repl_stop b)" for t b
    by (simp_all add: tcp_stop_def repl_stop_def)
  let ?left = "map_option (\<lambda>(mc, m). (mc, manager_shutdown now ended m)) (ap_manager app)"
  consider (http) "ap_http app \<and> \<not> drained"
    | (socket) mc m where "\<not> (ap_http app \<and> \<not> drained)" "?left = Some (mc, False, m)"
    | (store) "\<not> (ap_http app \<and> \<not> drained)" "\<nexists>mc m. ?left = Some (mc, False, m)" by blast
  then show thesis
  proof cases
    case http
    then show ?thesis using assms(1) tcp by (intro waiting) (auto simp: shutdownApplication_def)
  next
    case socket
    then obtain m0 where m0: "ap_manager app = Some (mc, m0)" "manager_shutdown now ended m0 = (False, m)" by auto
    then have "\<not> (rm_socket m0 = None \<or> ended)" using manager_shutdown_ends(2) [of m0 ended now] by fastforce
    then have "\<exists>mc m. ap_manager app = Some (mc, m) \<and> rm_socket m \<noteq> None \<and> \<not> ended" using m0(1) by blast
    moreover have "(r, app', d') = (Waiting, app\<lparr>ap_tcp := tcp_stop (ap_tcp app), ap_http := False,
        ap_manager := Some (mc, m)\<rparr>, d)"
      using assms(1) socket(1) m0 by (auto simp: shutdownApplication_def Let_def)
    ultimately show ?thesis using tcp by (intro waiting) auto
  next
    case store
    obtain r1 cm' s' d1 where c: "close_after env clock now es (ap_compactor app, ap_store app, d) = (r1, cm', s', d1)"
      by (metis prod_cases4)
    have "\<not> (\<exists>mc m b. ap_manager app = Some (mc, b) \<and> manager_shutdown now ended b = (False, m))"
      using store(2) by fastforce
    then have "shutdownApplication env clock now drained ended es app d =
        (r1, app\<lparr>ap_tcp := tcp_stop (ap_tcp app), ap_http := False,
          ap_manager := map_option (\<lambda>(mc, r, m). (mc, m)) ?left,
          ap_backup := map_option (\<lambda>(port, r). (port, repl_stop r)) (ap_backup app), ap_compactor := cm', ap_store := s'\<rparr>, d1)"
      using store(1) c by (auto simp: shutdownApplication_def Let_def)
    then have app': "r = r1" "d' = d1" "app' = app\<lparr>ap_tcp := tcp_stop (ap_tcp app), ap_http := False,
        ap_manager := map_option (\<lambda>(mc, r, m). (mc, m)) ?left,
        ap_backup := map_option (\<lambda>(port, r). (port, repl_stop r)) (ap_backup app), ap_compactor := cm', ap_store := s'\<rparr>"
      using assms(1) by simp_all
    have "\<forall>mc m. ap_manager app' = Some (mc, m) \<longrightarrow> rm_socket m = None \<and> rm_pendingAcks m = []"
    proof (intro allI impI)
      fix mc m assume "ap_manager app' = Some (mc, m)"
      then obtain b m0 where "ap_manager app = Some (mc, m0)" "manager_shutdown now ended m0 = (b, m)"
        by (auto simp: app'(3))
      then have "manager_shutdown now ended m0 = (True, m)" using store(2) by (cases b) auto
      then show "rm_socket m = None \<and> rm_pendingAcks m = []" by (rule manager_shutdown_ends(1))
    qed
    moreover have "r \<noteq> Waiting" using close_after_good(1) [OF c assms(2-4)] app'(1) by simp
    ultimately show ?thesis
      using c app' tcp backup by (intro closing [of cm' s']) auto
  qed
qed

end
