(* ===== verification/Spec2Isabelle.thy ===== *)
theory Spec2Isabelle
  imports Log_Codec Min_Heap Merge_Iterator Sorted_Map Sorted_Map_Delete Mem_Table Bloom_Filter SSTable_Codec
    SSTable_Writer SSTable_Reader Wal Manifest LSM_Store Store_Reads Store_Writes Store_Steps Store_Recovery
    Compaction Compaction_Proofs Compaction_Races Compaction_Writes Store_Examples
    Framing TCP_Protocol TCP_Link Replication_Protocol Replication Replication_Proofs Replication_Store
    JS_Text Engine HTTP_Server HTTP_Proofs Configuration Application
begin

text \<open>
  A verification development for the LSM key-value store in src/src (TypeScript on Node.js).

  \<^bold>\<open>The program.\<close> A write is appended to a write-ahead log and put into a memtable, a red-black
  tree. A memtable that is full becomes immutable and is flushed in the background to a sorted table,
  a file with a sparse index and a Bloom filter, which the manifest lists; then the log is cut. Reads
  look in the two memtables and in the tables, newest first; range queries merge them. A compaction
  merges all tables into one. A restart reads the manifest and replays the log. Over this engine lie
  an HTTP server, a streaming TCP server with its client, and a replication that sends the entries
  of the log from a primary to a backup.

  \<^bold>\<open>What models what.\<close> Names of definitions are the source's names, with a prefix where they clash
  (\<open>sm_\<close> sorted map, \<open>mt_\<close> memtable, \<open>bf_\<close> filter, \<open>sst_\<close> and \<open>sw_\<close> sorted tables, \<open>repl_\<close>, \<open>tcp_\<close>).

  \<^item> \<open>KV_Prelude\<close>, \<open>JS_String\<close>, \<open>JS_Buffer\<close>, \<open>JS_Text\<close>: errors and the result type \<open>'a res\<close>; strings
    of UTF-16 units with their order and UTF-8; buffers, of which reading out of range throws and
    whose fresh content is unknown; \<open>parseInt\<close>, \<open>split\<close>, \<open>toLowerCase\<close> and the percent encoding.
  \<^item> \<open>Log_Codec\<close>, \<open>Wal\<close> (storage/wal): the record format with its CRC-32, and the log as a machine
    over its directory with its three sync policies, its batches, its lock and the checkpoint.
  \<^item> \<open>Sorted_Map\<close>, \<open>Sorted_Map_Delete\<close>, \<open>Mem_Table\<close> (storage/memtable): insertion and deletion with
    their rotations; a position with its parent pointers is a subtree and the frames above it.
  \<^item> \<open>Bloom_Filter\<close>, \<open>SSTable_Codec\<close>, \<open>SSTable_Writer\<close>, \<open>SSTable_Reader\<close> (storage/sstable), \<open>Manifest\<close>
    (storage/manifest), \<open>Min_Heap\<close> (common), \<open>Merge_Iterator\<close> (storage/iterator).
  \<^item> \<open>LSM_Store\<close> (storage/LSMStore.ts): the record \<open>store\<close>, the directory \<open>disk\<close>, and one definition for
    every piece of code between two awaits; \<open>flush_step\<close> is the background flush.
    \<open>Compaction\<close> (engine/compaction): \<open>compact_step\<close> likewise, with the switch of the readers.
  \<^item> \<open>Framing\<close>, \<open>TCP_Protocol\<close>, \<open>TCP_Link\<close> (server/TCPProtocol.ts, TCPServer.ts, TCPClient.ts),
    \<open>Replication_Protocol\<close>, \<open>Replication\<close> (replication): formats, buffers, pending requests and the
    connection of the manager. A socket is the list of what was written to it.
  \<^item> \<open>Engine\<close> (interfaces/Storage.ts), \<open>HTTP_Server\<close> (server/HTTPServer.ts), \<open>Configuration\<close>
    (common/Config.ts, cli/CLIParser.ts), \<open>Application\<close> (factory/StorageFactory.ts, index.ts): the start
    with the errors of the listeners, the shutdown with what it waits for and what rejects it.

  \<^bold>\<open>What is proved.\<close>
  \<^item> \<open>Store_Reads\<close> to \<open>Store_Recovery\<close>: memtables and tables are layers of a map (\<open>store_view\<close>); the
    invariant \<open>store_inv\<close> is kept by every step of the relation \<open>store_step\<close> (writes, batch commits
    and flush steps in any order), which is a step of a map; \<open>durable\<close> says that log and tables hold
    what memory holds. \<open>traced\<close> says where each acknowledged entry is, and which entries of refused
    batches are in the log beside them; it is kept as long as no flush ends while newer writes are in
    memory (\<open>cautious\<close>): otherwise acknowledged writes are lost, which is a theorem too. \<open>crash_image\<close>
    is what a crash leaves: complete records that nobody has acknowledged, a torn one, half-written
    temporary files.
  \<^item> \<open>Compaction_Proofs\<close>, \<open>Compaction_Races\<close>: a compaction keeps the content at every step, also in a
    crash; next to a flush it may take the flush's file number and destroy its table.
    \<open>Compaction_Writes\<close>: the relation \<open>system_step\<close> interleaves the steps of store, flush and
    compactor; its invariant \<open>system_good\<close> carries the map of the acknowledged writes through any
    number of flushes and compactions, with writes between their steps.
  \<^item> \<open>Replication_Proofs\<close>, \<open>Replication_Store\<close>: however the stream is cut, entries are applied once and
    in order and acknowledgements settle them; a backup that was connected all the time has the
    map of the primary; one that was not does not catch up.
  \<^item> \<open>TCP_Link\<close>, \<open>HTTP_Proofs\<close>: the clients' view of the store, for HTTP with the flush at work
    between the requests. \<open>Configuration\<close>, \<open>Application\<close>: what is parsed can be started if its ports
    are free, and how a shutdown ends. \<open>Store_Examples\<close> has the stores of the
    witnesses. The properties of this theory put these lemmas together.

  \<^bold>\<open>Interfaces.\<close> \<open>ordered_map\<close> and \<open>deleting_map\<close> (what the memtable needs of the tree), \<open>key_filter\<close>
  (what a reader needs of the filter), \<open>sorted_table\<close> (what the store needs of a reader),
  \<open>comparator\<close> and \<open>priority_queue\<close> (what the merge needs of the heap), \<open>merge_source\<close> (what it needs
  of a source), \<open>framing\<close> (what both ends of a
  stream need of a message format), \<open>storage_engine\<close> (what a server needs of an engine),
  \<open>store_invariant\<close> (what the compactions need of an invariant of the store); each is
  interpreted on the definitions of the component that provides it.

  \<^bold>\<open>Bounds.\<close> Memory of at least 2147483647 bytes per buffer (\<open>env_limit\<close>): the reader allocates as many
  as the first bytes of a key say. Keys begin with an ASCII character and have at most 65535 bytes,
  values have at most 16 MiB (\<open>storable_key\<close>, \<open>storable_value\<close>); times and sequence numbers are at most
  \<open>2 ^ 53\<close>, up to which a JavaScript number is exact; a table has at most \<open>2 ^ 32 / 28\<close> entries in
  \<open>2 ^ 52\<close> bytes, and file numbers are below \<open>2 ^ 32\<close> (\<open>table_ok\<close>). No fuel is used: loops are recursive on what they consume, and a
  flush has at most four steps left, a compaction at most seven.

  \<^bold>\<open>Concurrency.\<close> JavaScript runs code between two awaits without interruption. Steps of these pieces
  may come in any order, and the theorems are over all orders unless they say otherwise; a timer is
  a step that may come at any time. A flush and a compaction that overlap do harm each other
  (\<open>compaction_overwrites_flush\<close>), so \<open>system_step\<close> starts neither while the other runs; writes, batch
  commits and reads come between the steps of both. A compaction that finds nothing alive leaves
  the engine with tables that the manifest no longer lists; \<open>system_step\<close> leaves it out. A checkpoint
  is one step: of its inside only the new log beside the old ones is a point at which a crash is
  considered. Under group commit the relation \<open>store_step\<close> separates the queueing of an entry from the
  commit of its batch; \<open>store_commit\<close> is a request that waits for both with nothing in between.

  \<^bold>\<open>Ports.\<close> \<open>listen_on\<close> knows the ports that the system does not give and takes as an argument which
  port it picks for 0.

  \<^bold>\<open>Not modelled.\<close> Disk errors other than missing or damaged files, and torn directory updates; a
  completed \<open>fsync\<close> or rename is on disk. Of sockets, timers, URL and JSON texts only the results the code
  sees: \<open>JSON.parse\<close>, \<open>path.join\<close> and the parsed URL are arguments. Floating point is used by the
  filter's parameters only, which are computed over the reals. Console output, the printing of
  help and of start-up information, signals and the exit of the process are left out, as are the
  statistics of the filter, and the promise of the batch timer that rejects with nobody to handle it.
  Type declarations and re-exports have no behaviour.
\<close>

section \<open>The store across a crash\<close>

text \<open>C1. From an empty directory: whatever writes are acknowledged and between whichever two steps the
  process dies, the next start succeeds, and every lookup answers from the acknowledged writes in
  their order. Two kinds of writes may come with them that nobody has acknowledged: the records
  \<open>us\<close> of the append under way that were complete (the next one may be torn), which come last, and
  entries \<open>xs\<close> of batches that the log refused after it had written a part of them, which all are
  in \<open>refused\<close>; when every queued entry can be written, \<open>refused\<close> may be empty, and then \<open>rs\<close> is \<open>es\<close>.
  The run must be \<open>cautious\<close>: a flush does not end while newer writes are in memory or in the queue.
  Flushes and compactions may come and go, one at a time, with writes between their steps; the
  crash may fall between any of them. Left out are compactions that find nothing alive in the
  tables. A checkpoint is one step of the run; a crash within it is covered when its new log file
  is there beside the old ones, but not when a part of several old ones is deleted.\<close>

theorem acknowledged_writes_survive:
  assumes "2147483647 \<le> env_limit env" "cf_falsePositiveRate cfg < 1" "now \<le> 2 ^ 53" "now' \<le> 2 ^ 53"
    and "store_initialize env now (new_store policy limit cfg t) empty_disk = Inr (s0, d0)"
    and "cm_phase c0 = NoCompaction" "cm_config c0 = cfg"
    and "system_run env (cautious refused) (c0, s0, d0) es (c, s, d)" "crash_image s us d d'"
  shows "\<exists>s1 d1 rs xs. store_initialize env now' (new_store policy' limit' cfg t') d' = Inr (s1, d1) \<and>
    set xs \<subseteq> refused \<and> rs \<in> shuffles es xs \<and> (\<forall>k. store_get env k s1 = Inr (fold view_effect (rs @ us) Map.empty k))"
proof -
  have good: "system_good env (traced env refused es) (fold view_effect es Map.empty) (c, s, d)"
    using lasting.system_run_good [OF assms(8) fresh_system(1) [OF assms(1-3,5-7), of refused]] by simp
  have "st_sstConfig s = cfg" using system_run_config [OF assms(8)] fresh_system(3) [OF assms(1-3,5-7)] by simp
  moreover obtain s1 d1 tables xs rs where "store_initialize env now' (new_store policy' limit' (st_sstConfig s) t') d' = Inr (s1, d1)"
    "st_initialized s1" "tables_open env (st_sstables s1) tables" "set xs \<subseteq> refused" "rs \<in> shuffles es xs"
    "store_view s1 tables = fold view_effect (rs @ us) Map.empty"
    by (rule system_crash [OF good assms(9,4)])
  ultimately show ?thesis
    by (intro exI [of _ s1] exI [of _ d1] exI [of _ rs] exI [of _ xs]) (simp add: store_get_ok)
qed

lemma acknowledged_writes_survive_witness:
  "\<exists>s0 d0 s d s1 d1.
    store_initialize demo_env 1 (new_store SYNC_EVERY_WRITE 1000 demo_cfg 0) empty_disk = Inr (s0, d0) \<and>
    store_put (env_mem demo_env) 9 (js ''k'') (js ''v'') s0 d0 = (Inr (), s, d) \<and>
    store_initialize demo_env 11 (new_store SYNC_EVERY_WRITE 1000 demo_cfg 10) d = Inr (s1, d1) \<and>
    store_get demo_env (js ''k'') s1 = Inr (Some (js ''v''))"
proof -
  obtain s0 d0 s d where s0: "store_initialize demo_env 1 (new_store SYNC_EVERY_WRITE 1000 demo_cfg 0) empty_disk = Inr (s0, d0)"
    "store_put (env_mem demo_env) 9 (js ''k'') (js ''v'') s0 d0 = (Inr (), s, d)"
    "store_run demo_env (cautious {}) (s0, d0) [demo_log_entry] (s, d)"
    by (rule one_put_run)
  note run = store_run_system [OF s0(3) demo_compactor_simps(1)]
  obtain s1 d1 where "store_initialize demo_env 11 (new_store SYNC_EVERY_WRITE 1000 demo_cfg 10) d = Inr (s1, d1)"
    "\<forall>k. store_get demo_env k s1 = Inr (fold view_effect [demo_log_entry] Map.empty k)"
    using acknowledged_writes_survive [OF demo_env_ok _ _ s0(1) demo_compactor_simps run, where d' = d and now' = 11 and
        policy' = SYNC_EVERY_WRITE and limit' = 1000 and t' = 10 and us = "[]"] crash_image_same
    by auto
  then show ?thesis
    using s0(1,2) by (auto simp: demo_log_entry_def view_effect_def)
qed

text \<open>C2. As long as the process runs, the store is a map: through any interleaving of writes,
  batch commits, flush steps and compaction steps, every lookup returns what the acknowledged
  writes, applied one by one to the empty map, give, and every range query the pairs of that
  map in order. Flushes and compactions must not overlap. Left out are compactions that find
  nothing alive in the tables, and the moment in which a compaction has closed the old readers
  and not yet opened the new one.\<close>

theorem store_refines_map:
  assumes "2147483647 \<le> env_limit env" "cf_falsePositiveRate cfg < 1" "now \<le> 2 ^ 53"
    and "store_initialize env now (new_store policy limit cfg t) empty_disk = Inr (s0, d0)"
    and "cm_phase c0 = NoCompaction" "cm_config c0 = cfg"
    and "system_run env (\<lambda>s. True) (c0, s0, d0) es (c, s, d)" "\<forall>meta kept. cm_phase c \<noteq> Swapping meta kept"
  shows "store_get env k s = Inr (fold view_effect es Map.empty k) \<and>
    (\<exists>ps. readKeyRange env a b limit' s = Inr (limited limit' ps) \<and> ordered_by fst ps \<and>
      (\<forall>k. map_of ps k = (if a \<le> k \<and> k \<le> b then fold view_effect es Map.empty k else None)))"
proof -
  have good: "system_good env (store_inv env) (fold view_effect es Map.empty) (c, s, d)"
    by (rule running.system_run_good [OF assms(7) fresh_system(2) [OF assms(1-6)]])
  obtain tables where reads: "st_initialized s" "memory_ok s" "tables_open env (st_sstables s) tables"
    and view: "store_view s tables = fold view_effect es Map.empty"
    by (rule running.system_reads [OF good assms(8)])
  obtain ps where "readKeyRange env a b limit' s = Inr (limited limit' ps)" "ordered_by fst ps"
    "\<forall>k. map_of ps k = (if a \<le> k \<and> k \<le> b then store_view s tables k else None)"
    by (rule readKeyRange_ok [OF reads, where a = a and b = b and limit = limit'])
  then have "\<exists>ps. readKeyRange env a b limit' s = Inr (limited limit' ps) \<and> ordered_by fst ps \<and>
      (\<forall>k. map_of ps k = (if a \<le> k \<and> k \<le> b then store_view s tables k else None))" by blast
  then show ?thesis using store_get_ok [OF reads(1,3)] by (simp only: view simp_thms)
qed

lemma store_refines_map_witness:
  "\<exists>s0 d0 s d.
    store_initialize demo_env 1 (new_store SYNC_EVERY_WRITE 1000 demo_cfg 0) empty_disk = Inr (s0, d0) \<and>
    store_put (env_mem demo_env) 9 (js ''k'') (js ''v'') s0 d0 = (Inr (), s, d) \<and>
    store_get demo_env (js ''k'') s = Inr (Some (js ''v''))"
proof -
  obtain s0 d0 s d where s0: "store_initialize demo_env 1 (new_store SYNC_EVERY_WRITE 1000 demo_cfg 0) empty_disk = Inr (s0, d0)"
    "store_put (env_mem demo_env) 9 (js ''k'') (js ''v'') s0 d0 = (Inr (), s, d)"
    "store_run demo_env (\<lambda>s. True) (s0, d0) [demo_log_entry] (s, d)"
    by (rule one_put_run)
  note run = store_run_system [OF s0(3) demo_compactor_simps(1)]
  have "store_get demo_env (js ''k'') s = Inr (fold view_effect [demo_log_entry] Map.empty (js ''k''))"
    using store_refines_map [OF demo_env_ok _ s0(1) demo_compactor_simps run, of "js ''k''" "js ''a''" "js ''b''" None] by simp
  then show ?thesis using s0(1,2) by (auto simp: demo_log_entry_def view_effect_def)
qed

text \<open>C3. Both stores start empty, the manager is connected before the first write, and every entry the
  primary's log acknowledges is handed to it, through the flushes of the primary and its
  compactions, which do not overlap and find something alive. Once the bytes have arrived, in
  chunks of any sizes and with any flush steps of the backup between the entries (but no
  compaction there), the backup answers every lookup and every range query as the primary does,
  which must not be about to swap its readers. Both logs may have any policy: the backup handles
  an entry to its end, its batch included, before the next.\<close>

theorem replica_matches_primary:
  assumes "2147483647 \<le> env_limit envp" "cf_falsePositiveRate cfgp < 1" "nowp \<le> 2 ^ 53"
    and "store_initialize envp nowp (new_store policy limitp cfgp tp) empty_disk = Inr (p0, pd0)"
    and "cm_phase cp0 = NoCompaction" "cm_config cp0 = cfgp"
    and "system_run envp (\<lambda>s. True) (cp0, p0, pd0) es (cp, p, pd)" "\<forall>meta kept. cm_phase cp \<noteq> Swapping meta kept"
    and "length es \<le> 2 ^ 53"
    and "2147483647 \<le> env_limit envb" "cf_falsePositiveRate cfgb < 1" "nowb \<le> 2 ^ 53"
    and "store_initialize envb nowb (new_store policyb limitb cfgb tb) empty_disk = Inr (b0, bd0)"
    and "rm_socket (replicate_all mem es (repl_on_connect (repl_connect False new_manager))) = Some sent"
    and "concat chunks = concat sent" "\<forall>c. clock c \<le> 2 ^ 53" "background_ok envb background"
    and "fold (repl_on_data (backup_handler envb clock background) time mem') chunks
      ((b0, bd0), snd (repl_handleConnection new_repl_server)) = ((b, bd), r)"
  shows "store_get envb k b = store_get envp k p \<and> readKeyRange envb x y n b = readKeyRange envp x y n p"
proof -
  note p0 = fresh_system(2) [OF assms(1-6)] and b0 = fresh_store_sim [OF assms(10-13)]
  have "system_good envp (store_inv envp) (fold view_effect es Map.empty) (cp, p, pd)"
    by (rule running.system_run_good [OF assms(7) p0])
  then obtain ts where p: "st_initialized p" "memory_ok p" "tables_open envp (st_sstables p) ts"
    "store_view p ts = fold view_effect es Map.empty"
    using running.system_reads [OF _ assms(8)] by metis
  have "store_sim envb (b, bd) (fold view_effect es Map.empty)"
    by (rule replicate_to_store(1) [OF b0(1) _ _ assms(16,17) system_run_sound [OF assms(7) p0] _ _ assms(14,15) _ assms(18)])
      (use assms(9) b0 in \<open>simp_all add: repl_on_connect_def repl_connect_def new_manager_def
        repl_handleConnection_def new_repl_server_def\<close>)
  then obtain tb where b: "st_initialized b" "memory_ok b" "tables_open envb (st_sstables b) tb"
    "store_view b tb = fold view_effect es Map.empty"
    using store_inv_reads by (fastforce simp: store_sim_def)
  show ?thesis
    using store_get_ok [OF p(1,3)] store_get_ok [OF b(1,3)] same_ranges [OF p(1-3) b(1-3)] p(4) b(4) by simp
qed

lemma replica_matches_primary_witness:
  "\<exists>p0 pd0 p pd sent b0 bd0 b bd r.
     store_initialize demo_env 1 (new_store SYNC_EVERY_WRITE 1000 demo_cfg 0) empty_disk = Inr (p0, pd0) \<and>
     store_put (env_mem demo_env) 9 (js ''k'') (js ''v'') p0 pd0 = (Inr (), p, pd) \<and>
     rm_socket (replicate_all (\<lambda>i. 0) [demo_log_entry] (repl_on_connect (repl_connect False new_manager))) = Some sent \<and>
     store_initialize demo_env 5 (new_store GROUP_COMMIT_100MS 100 demo_cfg 0) empty_disk = Inr (b0, bd0) \<and>
     fold (repl_on_data (backup_handler demo_env (\<lambda>c. 7) (\<lambda>c. c)) (\<lambda>c. 8) (\<lambda>i. 1)) (map (\<lambda>x. [x]) (concat sent))
       ((b0, bd0), snd (repl_handleConnection new_repl_server)) = ((b, bd), r) \<and>
     store_get demo_env (js ''k'') b = store_get demo_env (js ''k'') p"
proof -
  obtain p0 pd0 p pd where p: "store_initialize demo_env 1 (new_store SYNC_EVERY_WRITE 1000 demo_cfg 0) empty_disk = Inr (p0, pd0)"
    "store_put (env_mem demo_env) 9 (js ''k'') (js ''v'') p0 pd0 = (Inr (), p, pd)"
    "store_run demo_env (\<lambda>s. True) (p0, pd0) [demo_log_entry] (p, pd)"
    by (rule one_put_run)
  note run = store_run_system [OF p(3) demo_compactor_simps(1)]
  obtain b0 bd0 where b0: "store_initialize demo_env 5 (new_store GROUP_COMMIT_100MS 100 demo_cfg 0) empty_disk = Inr (b0, bd0)"
    by (rule fresh_start [OF demo_env_ok, of 5]) simp_all
  let ?m = "repl_on_connect (repl_connect False new_manager)"
  have m: "rm_connected ?m" "rm_socket ?m = Some []"
    by (simp_all add: repl_on_connect_def repl_connect_def new_manager_def)
  have "\<forall>e\<in>set [demo_log_entry]. repl_entry_ok e"
    using store_run_sound [OF p(3) fresh_store_sim(1) [OF demo_env_ok _ p(1)]] sound_repl_ok by simp
  then obtain sent where sent: "rm_socket (replicate_all (\<lambda>i. 0) [demo_log_entry] ?m) = Some sent"
    using replicate_connected [OF m] by simp
  obtain b bd r where f: "fold (repl_on_data (backup_handler demo_env (\<lambda>c. 7) (\<lambda>c. c)) (\<lambda>c. 8) (\<lambda>i. 1))
      (map (\<lambda>x. [x]) (concat sent)) ((b0, bd0), snd (repl_handleConnection new_repl_server)) = ((b, bd), r)"
    by (metis prod.exhaust)
  have "concat (map (\<lambda>x. [x]) (concat sent)) = concat sent" by simp
  then have "store_get demo_env (js ''k'') b = store_get demo_env (js ''k'') p"
    using replica_matches_primary [OF demo_env_ok _ p(1) demo_compactor_simps run _ _ demo_env_ok _ b0 sent _ _
        background_none f, of "js ''k''"] by simp
  then show ?thesis using p(1,2) b0 sent f by blast
qed

text \<open>C4. A flush ends with a checkpoint that deletes every older log. A key written while the
  flush was running is answered from memory before a crash, but after the restart it has the
  value of the tables: the acknowledged write is lost.\<close>

theorem flush_forgets_newer_writes:
  assumes "store_inv env s d tables" "st_flush s = Opened" "wal_pendingWrites (st_wal s) = []"
    and "wal_currentLogFile (st_wal s) < log_name now" "now \<le> 2 ^ 53" "now' \<le> 2 ^ 53"
    and "mt_getEntry (st_active s) k = Some e" "flush_step env now s d = (s1, d1)"
  shows "\<exists>s2 d2. store_get env k s1 = Inr (entry_value e) \<and>
    store_initialize env now' (new_store policy limit (st_sstConfig s) t) d1 = Inr (s2, d2) \<and>
    store_get env k s2 = Inr (view (map table_layer tables) k)"
proof -
  obtain s2 d2 where r: "store_view s1 tables = store_view s tables" "store_inv env s1 d1 tables"
    "st_active s1 = st_active s"
    "store_initialize env now' (new_store policy limit (st_sstConfig s) t) d1 = Inr (s2, d2)"
    "st_initialized s2" "tables_open env (st_sstables s2) tables" "store_view s2 tables = view (map table_layer tables)"
    by (rule forgetful_checkpoint [OF assms(1-5,8,6)])
  have "store_view s tables k = entry_value e"
    using assms(7) by (simp add: store_view_def memory_layers_def view_Cons mem_layer_def)
  then show ?thesis
    using r store_get_ok store_inv_reads [OF r(2)] by metis
qed

lemma flush_forgets_newer_writes_witness:
  fixes env cfg
  defines "env \<equiv> \<lparr>env_mem = \<lambda>i. 0, env_limit = 4294967296\<rparr>"
    and "cfg \<equiv> \<lparr>cf_dataDir = js ''d'', cf_sparseIndexInterval = 2, cf_falsePositiveRate = 1 / 100\<rparr>"
  shows "\<exists>s d s1 d1 s2 d2. flush_step env 2 s d = (s1, d1) \<and> store_get env (js ''b'') s1 = Inr (Some (js ''v'')) \<and>
    store_initialize env 3 (new_store SYNC_EVERY_WRITE 100 cfg 0) d1 = Inr (s2, d2) \<and>
    store_get env (js ''b'') s2 = Inr None"
proof -
  have st: "storable_key (js ''a'')" "storable_key (js ''b'')" "storable_value (js ''v'')"
    by (simp_all add: storable_key_def storable_value_def string_ok_js) (simp_all add: ascii_start_def js_def)
  have u: "utf8 (js ''a'') = [byte_of 97]" "utf8 (js ''v'') = [byte_of 118]"
    by (simp_all add: utf8_js utf8_of_def)
  obtain s d where s: "store_inv env s d [[\<lparr>se_key = js ''a'', se_value = js ''v'', se_time = 4, se_deleted = False\<rparr>]]"
    "st_flush s = Opened" "wal_pendingWrites (st_wal s) = []" "wal_currentLogFile (st_wal s) = log_name 1"
    "st_active s = mt_put 5 (js ''b'') (js ''v'') False (new_mem_table 100)" "st_sstConfig s = cfg"
    by (rule opened_store_exists [OF st(1,3,2,3), of cfg env])
      (simp_all add: env_def cfg_def data_bytes_def length_sst_entry_bytes sst_entrySize_def u)
  obtain s1 d1 where f: "flush_step env 2 s d = (s1, d1)" by fastforce
  have "log_name 1 < log_name 2" by code_simp
  then obtain s2 d2 where r: "store_get env (js ''b'') s1 = Inr (entry_value \<lparr>mt_value = js ''v'', mt_time = 5, mt_deleted = False\<rparr>)"
    "store_initialize env 3 (new_store SYNC_EVERY_WRITE 100 (st_sstConfig s) 0) d1 = Inr (s2, d2)"
    "store_get env (js ''b'') s2 = Inr (view (map table_layer
       [[\<lparr>se_key = js ''a'', se_value = js ''v'', se_time = 4, se_deleted = False\<rparr>]]) (js ''b''))"
    using flush_forgets_newer_writes [OF s(1-3) _ _ _ _ f, of 3 "js ''b''"
        "\<lparr>mt_value = js ''v'', mt_time = 5, mt_deleted = False\<rparr>" SYNC_EVERY_WRITE 100 0] s(4-5)
    by (auto simp: getEntry_put)
  have "view (map table_layer [[\<lparr>se_key = js ''a'', se_value = js ''v'', se_time = 4, se_deleted = False\<rparr>]]) (js ''b'') = None"
    by (simp add: view_def table_layer_def)
  then have "store_get env (js ''b'') s2 = Inr None" using r(3) by simp
  moreover have "store_get env (js ''b'') s1 = Inr (Some (js ''v''))" using r(1) by (simp add: entry_value_def)
  ultimately show ?thesis using f r(2) s(6) by blast
qed

section \<open>The HTTP interface\<close>

text \<open>C5. Requests that ask for the operations \<open>xs\<close>, one after the other, are answered from the map that the
  operations before them have left, whatever steps of the background flush happen in between, and
  leave the store standing for the last map. Keys come from the
  path, percent-encoded, or from a JSON body; the store must have room for the sequence numbers and
  no batch waiting, and what is written must be storable. The policy of the log does not matter:
  under group commit a request is over when its batch is written. A path has no key \<open>.\<close> or \<open>..\<close>
  (\<open>dot_segment\<close>): the URL parser takes them out.\<close>

theorem http_requests:
  assumes "served (registerRoutes (lsm_engine env clock) p) jp (lsm_background env) c reqs outs c'"
    and "list_all2 (\<lambda>x (now, req). asks jp x req) xs reqs"
    and "\<forall>x\<in>set xs. op_fits lsm_put_fits lsm_key_fits lsm_batch_fits x"
    and "engine_stands env clock (length xs + n) c m"
  shows "all_answered xs m outs \<and> engine_stands env clock n c' (fold op_effect xs m)"
  by (rule lsm.all_requests [OF assms])

lemma http_requests_witness:
  "\<exists>s d outs c. store_initialize demo_env 1 (new_store GROUP_COMMIT_100MS 1000 demo_cfg 0) empty_disk = Inr (s, d) \<and>
     served (registerRoutes (lsm_engine demo_env (\<lambda>c. 9)) None)
       (\<lambda>t. Some (JObj [(js ''key'', JStr (js ''k'')), (js ''value'', JStr (js ''v''))])) (lsm_background demo_env) (s, d)
       [(1, put_request [[0]]), (2, get_request ''/get/'' (js ''k'')), (3, delete_request (js ''k'')),
        (4, get_request ''/get/'' (js ''k''))]
       [Some (200, SuccessReply), Some (200, ValueReply (js ''k'') (js ''v'')), Some (200, SuccessReply),
         Some (404, KeyNotFound (js ''k''))] c"
proof -
  obtain s d where s: "store_initialize demo_env 1 (new_store GROUP_COMMIT_100MS 1000 demo_cfg 0) empty_disk = Inr (s, d)"
    by (rule fresh_start [OF demo_env_ok, of 1 GROUP_COMMIT_100MS 1000 0]) simp_all
  let ?xs = "[OpPut (js ''k'') (js ''v''), OpGet (js ''k''), OpDelete (js ''k''), OpGet (js ''k'')]"
  let ?jp = "\<lambda>t. Some (JObj [(js ''key'', JStr (js ''k'')), (js ''value'', JStr (js ''v''))])"
  note f = fresh_store_sim [OF demo_env_ok _ s]
  have stands: "engine_stands demo_env (\<lambda>c. 9) (length ?xs + 0) (s, d) Map.empty"
    using f by (simp add: engine_stands_def)
  have enc: "encodeURIComponent (js ''k'') = Inr (js ''k'')" by (rule encode_js) (simp add: unreserved_def)
  have "asks ?jp (OpPut (js ''k'') (js ''v'')) (put_request [[0]])"
    by (rule asks_put [where body = "JObj [(js ''key'', JStr (js ''k'')), (js ''value'', JStr (js ''v''))]" and v = "JStr (js ''v'')"])
      (simp_all add: parseBody_def json_prop_def given_def max_body_def)
  note a = this asks_get [OF enc, of ?jp] asks_delete [OF enc, of ?jp]
  let ?reqs = "[(1, put_request [[0]]), (2, get_request ''/get/'' (js ''k'')), (3, delete_request (js ''k'')),
      (4, get_request ''/get/'' (js ''k''))]"
  have "\<not> dot_segment (js ''k'')" by (simp add: dot_segment_def js_def)
  then have asked: "list_all2 (\<lambda>x (now, req). asks ?jp x req) ?xs ?reqs" using a by simp
  have sk: "storable_key (js ''k'')" "storable_value (js ''v'')"
    by (simp_all add: storable_key_def storable_value_def string_ok_js) (simp add: ascii_start_def js_def)
  have "storable_body (put_body (js ''k'') (js ''v''))" "storable_body (delete_body (js ''k''))"
    unfolding storable_body_def using sk by force+
  then have fits: "\<forall>x\<in>set ?xs. op_fits lsm_put_fits lsm_key_fits lsm_batch_fits x"
    by (simp add: lsm_put_fits_def lsm_key_fits_def write_fits_def payload_bytes_def payload_writes_def put_writes_def
        utf8_js utf8_of_def)
  have "\<exists>outs c. served (registerRoutes (lsm_engine demo_env (\<lambda>c. 9)) None) ?jp (lsm_background demo_env) (s, d) ?reqs outs c"
    using served_request [OF surjective_pairing] served_all by meson
  then obtain outs c where run: "served (registerRoutes (lsm_engine demo_env (\<lambda>c. 9)) None) ?jp (lsm_background demo_env) (s, d) ?reqs outs c"
    by blast
  have outs: "all_answered ?xs Map.empty outs" using http_requests [OF run asked fits stands] by blast
  have "outs = [Some (200, SuccessReply), Some (200, ValueReply (js ''k'') (js ''v'')), Some (200, SuccessReply),
      Some (404, KeyNotFound (js ''k''))]"
    using outs by auto
  then show ?thesis using s run by blast
qed

text \<open>C6. Whatever the request and the engine, there is exactly one reply. A refused request and any GET leave
  the engine as it was.\<close>

theorem http_one_reply:
  assumes "handleRequest (registerRoutes eng p) jp now req s = (sent, s')"
  shows "(\<exists>code data. sent = Some (code, data) \<and> code \<in> {200, 400, 404, 500} \<and> (code \<in> {400, 404} \<longrightarrow> s' = s)) \<and>
    (hr_method req = Some (js ''GET'') \<longrightarrow> s' = s)"
  using request_reply [OF routes_behave(1) assms] request_reads [OF routes_behave(2), of req eng p jp now s] assms
  by auto

lemma http_one_reply_witness:
  "\<exists>sent. handleRequest (registerRoutes (lsm_engine demo_env (\<lambda>c. 9)) None) (\<lambda>t. None) 5
      \<lparr>hr_method = Some (js ''GET''), hr_url = Inr (js ''/nowhere'', []), hr_chunks = []\<rparr>
      (new_store SYNC_EVERY_WRITE 1000 demo_cfg 0, empty_disk) =
    (Some sent, (new_store SYNC_EVERY_WRITE 1000 demo_cfg 0, empty_disk))"
proof -
  let ?req = "\<lparr>hr_method = Some (js ''GET''), hr_url = Inr (js ''/nowhere'', []), hr_chunks = []\<rparr>"
  let ?c = "(new_store SYNC_EVERY_WRITE 1000 demo_cfg 0, empty_disk)"
  obtain sent c' where run: "handleRequest (registerRoutes (lsm_engine demo_env (\<lambda>c. 9)) None) (\<lambda>t. None) 5 ?req ?c = (sent, c')"
    by (metis surj_pair)
  show ?thesis using http_one_reply [OF run] run by auto
qed

text \<open>C7. The empty string is neither null nor undefined, so the handler lets it through; the log refuses it.
  The reply is the internal error; only the next sequence number has changed, and the map is the
  same. The log syncs every write here; under group commit the flush of the batch is rejected too,
  and when the timer or the hundredth entry started it, nobody handles that.\<close>

theorem http_empty_value:
  assumes "parseBody jp chunks = Inr body" "json_prop body ''key'' = Some (JStr k)" "k \<noteq> empty_string"
    and "json_prop body ''value'' = Some (JStr empty_string)" "engine_stands env clock (Suc n) (s, d) m"
    and "wal_syncPolicy (st_wal s) = SYNC_EVERY_WRITE"
    and "s' = s\<lparr>st_wal := (st_wal s)\<lparr>wal_sequenceId := wal_sequenceId (st_wal s) + 1\<rparr>\<rparr>"
  shows "handleRequest (registerRoutes (lsm_engine env clock) p) jp now (put_request chunks) (s, d) =
      (Some (500, internal_error), (s', d)) \<and> engine_stands env clock n (s', d) m"
proof -
  let ?c = "(s, d)" and ?b = "put_body k empty_string" and ?i = "wal_sequenceId (st_wal s)"
  have st: "store_sim env ?c m" "wal_pendingWrites (st_wal s) = []" "?i + Suc n \<le> 2 ^ 53" "\<forall>c. clock c \<le> 2 ^ 53"
    using assms(5) by (simp_all add: engine_stands_def del: split_paired_All)
  have now: "clock ?c \<le> 2 ^ 53" using st(4) by blast
  have err: "serializeEntry mem (stamp ?b i t) = Inl PutRequiresKeyAndValue" for mem i t
    by (simp add: serializeEntry_def serializePayload_def falsy_def)
  have notok: "\<not> entry_ok (stamp ?b i t)" for i t
    using err serializeEntry_ok by fastforce
  have ac: "acceptable (stamp ?b ?i (clock ?c))" using err notok by (auto simp: acceptable_def loggable_def)
  obtain tables where inv: "store_inv env s d tables" "store_view s tables = m" using st(1) by (auto simp: store_sim_def)
  have "wal_fileHandle (st_wal s)" "st_initialized s"
    using store_inv_log(1,3) [OF inv(1)] by (auto simp: log_inv_def log_ready_def)
  then have w: "store_write (env_mem env) (clock ?c) ?b s d = (Inl PutRequiresKeyAndValue, s', d)"
    by (simp add: store_write_def ensureInitialized_def append_sync_def Let_def writeEntry_def err assms(7))
  have "store_inv env s' d tables \<and> store_view s' tables = store_view s tables"
    using write_step_inv [OF inv(1) assms(6) ac now w] by simp
  then have "engine_stands env clock n (s', d) m"
    using st inv(2) by (auto simp: engine_stands_def store_sim_def assms(7) simp del: split_paired_All)
  then show ?thesis
    using w handle_put [OF assms(1-3), of "JStr empty_string" empty_string "lsm_engine env clock" p now ?c] assms(4,6)
    by (simp add: given_def lsm_engine_def store_put_def store_commit_def)
qed

lemma http_empty_value_witness:
  "\<exists>s d c. store_initialize demo_env 1 (new_store SYNC_EVERY_WRITE 1000 demo_cfg 0) empty_disk = Inr (s, d) \<and>
     handleRequest (registerRoutes (lsm_engine demo_env (\<lambda>c. 9)) None)
       (\<lambda>t. Some (JObj [(js ''key'', JStr (js ''k'')), (js ''value'', JStr empty_string)])) 2 (put_request [[0]]) (s, d) =
       (Some (500, internal_error), c) \<and> wal_sequenceId (st_wal (fst c)) = 1 \<and> store_sim demo_env c Map.empty"
proof -
  obtain s d where s: "store_initialize demo_env 1 (new_store SYNC_EVERY_WRITE 1000 demo_cfg 0) empty_disk = Inr (s, d)"
    "wal_syncPolicy (st_wal s) = SYNC_EVERY_WRITE"
    by (rule fresh_start [OF demo_env_ok, of 1 SYNC_EVERY_WRITE 1000 0]) simp_all
  note f = fresh_store_sim [OF demo_env_ok _ s(1)]
  let ?body = "JObj [(js ''key'', JStr (js ''k'')), (js ''value'', JStr empty_string)]"
  have stands: "engine_stands demo_env (\<lambda>c. 9) (Suc 0) (s, d) Map.empty"
    using f by (simp add: engine_stands_def)
  have body: "parseBody (\<lambda>t. Some ?body) [[0]] = Inr ?body" by (simp add: parseBody_def max_body_def)
  have "json_prop ?body ''key'' = Some (JStr (js ''k''))" "json_prop ?body ''value'' = Some (JStr empty_string)"
    by (simp_all add: json_prop_def)
  then show ?thesis
    using http_empty_value [OF body _ _ _ stands s(2) refl, of "js ''k''" None 2] s(1) f(2) by (auto simp: engine_stands_def)
qed

section \<open>Compaction\<close>

text \<open>C8. A compaction that runs to its end with no flush beside it leaves every lookup and every
  range query as it was. When some entry is alive, the store is in a good state again, with
  the merged table, which has no tombstones, as its only one. When nothing is alive, the manifest
  is empty, but the engine keeps the old tables.\<close>

theorem compaction_keeps_content:
  assumes "store_inv env s d tables" "st_flush s = NoFlush" "st_immutable s = None" "tables_listed s"
    and "merge_fits clock s tables" "2 \<le> length (st_sstables s)"
    and "cm_phase c = NoCompaction" "cm_config c = st_sstConfig s"
    and "\<forall>now\<in>set nows. now \<le> 2 ^ 53" "7 \<le> length nows"
    and "compact_run env clock nows (doCompaction (st_manifest s) c, s, d) = (c', s', d')"
  shows "cm_phase c' = NoCompaction \<and> (\<forall>k. store_get env k s' = store_get env k s) \<and>
    (\<forall>a b n. readKeyRange env a b n s' = readKeyRange env a b n s) \<and>
    (compacted clock tables \<noteq> [] \<longrightarrow> store_inv env s' d' [compacted clock tables] \<and> length (st_sstables s') = 1 \<and>
      (\<forall>e\<in>set (compacted clock tables). \<not> se_deleted e)) \<and>
    (compacted clock tables = [] \<longrightarrow> mf_sstables (mf_state (st_manifest s')) = [] \<and>
      map fst (st_sstables s') = map fst (st_sstables s))"
proof -
  obtain tables' where t: "cm_phase c' = NoCompaction" "same_memory s s'" "tables_open env (st_sstables s') tables'"
    "store_view s' tables' = store_view s tables"
    "compacted clock tables \<noteq> [] \<Longrightarrow> store_inv env s' d' tables' \<and> tables_listed s' \<and> tables' = [compacted clock tables]"
    "compacted clock tables = [] \<Longrightarrow> mf_sstables (mf_state (st_manifest s')) = [] \<and> map fst (st_sstables s') = map fst (st_sstables s)"
    using compaction_complete [OF assms(1,2,4,5,7,8,6,9,10,3,11)] by metis
  note reads = store_inv_reads [OF assms(1)]
  have reads': "st_initialized s'" "memory_ok s'"
    using reads same_memory_simps [OF t(2)] by (simp_all add: memory_ok_def)
  have "store_get env k s' = store_get env k s" for k
    using store_get_ok [OF reads(1,2)] store_get_ok [OF reads'(1) t(3)] t(4) by simp
  moreover have "readKeyRange env a b n s' = readKeyRange env a b n s" for a b n
    by (rule same_ranges [OF reads(1,3,2) reads' t(3,4)])
  moreover have "length (st_sstables s') = length tables'"
    using t(3) by (auto simp: tables_open_def dest: list_all2_lengthD)
  moreover have "\<forall>e\<in>set (compacted clock tables). \<not> se_deleted e"
    by (auto simp: compacted_def compacted_entries_def)
  ultimately show ?thesis using t(1,5,6) by auto
qed

lemma compaction_keeps_content_witness:
  "\<exists>s d c' s' d'. length (st_sstables s) = 2 \<and>
    compact_run demo_env (\<lambda>i. 7) [1, 2, 3, 4, 5, 6, 7] (doCompaction (st_manifest s) demo_compactor, s, d) = (c', s', d') \<and>
    length (st_sstables s') = 1 \<and> store_get demo_env (js ''a'') s' = store_get demo_env (js ''a'') s"
proof -
  obtain s d where s: "durable demo_env s d demo_tables" "st_flush s = NoFlush" "st_immutable s = None"
    "tables_listed s" "st_sstConfig s = demo_cfg" "merge_fits (\<lambda>i. 7) s demo_tables" "length (st_sstables s) = 2"
    using demo_store by metis
  obtain c' s' d' where r: "compact_run demo_env (\<lambda>i. 7) [1, 2, 3, 4, 5, 6, 7]
      (doCompaction (st_manifest s) demo_compactor, s, d) = (c', s', d')" by (metis prod_cases3)
  have "store_inv demo_env s d demo_tables" using s(1) by (simp add: durable_def)
  from compaction_keeps_content [OF this s(2-4,6) _ _ _ _ _ r]
  have "length (st_sstables s') = 1" "store_get demo_env (js ''a'') s' = store_get demo_env (js ''a'') s"
    using s(5,7) by (simp_all add: demo_compacted)
  then show ?thesis using s(7) r by blast
qed



text \<open>C10. While the new table is being opened, the old readers are closed but still the tables of
  the engine: every lookup that the memtables do not answer throws.\<close>

theorem compaction_read_gap:
  assumes "store_inv env s d tables" "st_flush s = NoFlush" "tables_listed s" "merge_fits clock s tables"
    and "cm_phase c = NoCompaction" "cm_config c = st_sstConfig s" "2 \<le> length (st_sstables s)"
    and "\<forall>now\<in>set nows. now \<le> 2 ^ 53" "length nows = 6" "compacted clock tables \<noteq> []"
    and "compact_run env clock nows (doCompaction (st_manifest s) c, s, d) = (c', s', d')"
    and "first_hit (memory_layers s) key = None"
  shows "store_get env key s' = Inl ReaderNotOpen"
  by (rule compaction_closes [OF assms])

lemma compaction_read_gap_witness:
  "\<exists>s d c' s' d'. compact_run demo_env (\<lambda>i. 7) [1, 2, 3, 4, 5, 6] (doCompaction (st_manifest s) demo_compactor, s, d) = (c', s', d') \<and>
    store_get demo_env (js ''a'') s = Inr (Some (js ''v'')) \<and> store_get demo_env (js ''a'') s' = Inl ReaderNotOpen"
proof -
  obtain s d where s: "durable demo_env s d demo_tables" "st_flush s = NoFlush"
    "tables_listed s" "st_sstConfig s = demo_cfg" "merge_fits (\<lambda>i. 7) s demo_tables" "length (st_sstables s) = 2"
    "memory_layers s = [mem_layer (st_active s)]" "mem_layer (st_active s) = Map.empty"
    using demo_store by metis
  obtain c' s' d' where r: "compact_run demo_env (\<lambda>i. 7) [1, 2, 3, 4, 5, 6]
      (doCompaction (st_manifest s) demo_compactor, s, d) = (c', s', d')" by (metis prod_cases3)
  have inv: "store_inv demo_env s d demo_tables" using s(1) by (simp add: durable_def)
  have gap: "store_get demo_env (js ''a'') s' = Inl ReaderNotOpen"
    by (rule compaction_read_gap [OF inv s(2,3,5) _ _ _ _ _ _ r])
      (use s in \<open>simp_all add: demo_compacted\<close>)
  have "store_get demo_env (js ''a'') s = Inr (store_view s demo_tables (js ''a''))"
    using store_inv_reads [OF inv] by (simp add: store_get_ok)
  then have "store_get demo_env (js ''a'') s = Inr (Some (js ''v''))"
    using s(7,8) by (simp add: store_view_def view_Cons demo_tables_def table_layer_def demo_entry_def sst_value_def)
  then show ?thesis using gap r by blast
qed

text \<open>C11. A flush that has built its table but not recorded it and a compaction that starts now get
  the same file number. The compaction replaces the file of the flush; when the flush then
  records, opens and checkpoints, lookups answer as if the flushed memtable had never been
  there, and the log is empty.\<close>

theorem compaction_overwrites_flush:
  assumes "store_inv env s d tables" "st_flush s = Built meta" "tables_listed s" "merge_fits clock s tables"
    and "cm_phase c = NoCompaction" "cm_config c = st_sstConfig s" "2 \<le> length (st_sstables s)"
    and "t1 \<le> 2 ^ 53" "t2 \<le> 2 ^ 53" "compacted clock tables \<noteq> []"
    and "wal_pendingWrites (st_wal s) = []" "wal_currentLogFile (st_wal s) < log_name n3"
    and "compact_run env clock [t1, t2] (doCompaction (st_manifest s) c, s, d) = (c', s', d')"
    and "flush_step env n1 s' d' = (s1, d1)" "flush_step env n2 s1 d1 = (s2, d2)" "flush_step env n3 s2 d2 = (s3, d3)"
  shows "store_get env key s3 = Inr (view (mem_layer (st_active s) # map table_layer tables) key) \<and>
    st_immutable s3 = None \<and> wal_replay (dk_logs d3) = []"
proof -
  obtain m' r where r: "s' = s" "dk_logs d' = dk_logs d" "openFile env (dk_files d') (sm_filePath meta) = Inr r"
    "represents env r (compacted clock tables)"
    using compaction_overwrites [OF assms(1-10,13)] by metis
  have f: "flush_step env n1 s d' = (s1, d1)" using assms(14) r(1) by simp
  note lost = flush_lost [OF assms(1,2) r(3,4,2) assms(11,12) f assms(15,16)]
  show ?thesis using lost by blast
qed

lemma compaction_overwrites_flush_witness:
  "\<exists>s d c' s' d' s1 d1 s2 d2 s3 d3. store_get demo_env (js ''c'') s = Inr (Some (js ''v'')) \<and>
    compact_run demo_env (\<lambda>i. 7) [5, 6] (doCompaction (st_manifest s) demo_compactor, s, d) = (c', s', d') \<and>
    flush_step demo_env 7 s' d' = (s1, d1) \<and> flush_step demo_env 8 s1 d1 = (s2, d2) \<and>
    flush_step demo_env 9 s2 d2 = (s3, d3) \<and> store_get demo_env (js ''c'') s3 = Inr None"
proof -
  obtain s d meta where s: "store_inv demo_env s d demo_tables" "st_flush s = Built meta" "tables_listed s"
    "merge_fits (\<lambda>i. 7) s demo_tables" "st_sstConfig s = demo_cfg" "length (st_sstables s) = 2"
    "mem_layer (st_active s) = Map.empty" "store_view s demo_tables (js ''c'') = Some (js ''v'')"
    "wal_pendingWrites (st_wal s) = []" "wal_currentLogFile (st_wal s) = log_name 1"
    using demo_flushing by metis
  obtain c' s' d' where r: "compact_run demo_env (\<lambda>i. 7) [5, 6] (doCompaction (st_manifest s) demo_compactor, s, d) = (c', s', d')"
    by (metis prod_cases3)
  obtain s1 d1 where f1: "flush_step demo_env 7 s' d' = (s1, d1)" by fastforce
  obtain s2 d2 where f2: "flush_step demo_env 8 s1 d1 = (s2, d2)" by fastforce
  obtain s3 d3 where f3: "flush_step demo_env 9 s2 d2 = (s3, d3)" by fastforce
  have "log_name 1 < log_name 9" by code_simp
  then have log: "wal_currentLogFile (st_wal s) < log_name 9" using s(10) by simp
  have "store_get demo_env (js ''c'') s3 = Inr (view (mem_layer (st_active s) # map table_layer demo_tables) (js ''c''))"
    using compaction_overwrites_flush [OF s(1-4) _ _ _ _ _ _ s(9) log r f1 f2 f3, of "js ''c''"] s(5,6)
    by (simp add: demo_compacted)
  also have "view (mem_layer (st_active s) # map table_layer demo_tables) (js ''c'') = None"
    using s(7) by (simp add: view_def demo_tables_def table_layer_def demo_entry_def)
  finally have lost: "store_get demo_env (js ''c'') s3 = Inr None" .
  have "store_get demo_env (js ''c'') s = Inr (Some (js ''v''))"
    using store_get_ok [OF store_inv_reads(1,2) [OF s(1)]] s(8) by simp
  then show ?thesis using r f1 f2 f3 lost by blast
qed

section \<open>Replication\<close>

text \<open>C12. Entries handed to the manager while it has no connection only start the timer; nothing
  keeps them. After the reconnection the backup has the later entries and none of the earlier,
  although the primary acknowledged all of them: there is no catch-up.\<close>

theorem replication_gap:
  assumes "2147483647 \<le> env_limit envp" "cf_falsePositiveRate cfgp < 1" "nowp \<le> 2 ^ 53"
    and "store_initialize envp nowp (new_store policy limitp cfgp tp) empty_disk = Inr (p0, pd0)"
    and "store_run envp (\<lambda>s. True) (p0, pd0) (es1 @ es2) (p, pd)" "length es2 \<le> 2 ^ 53"
    and "2147483647 \<le> env_limit envb" "cf_falsePositiveRate cfgb < 1" "nowb \<le> 2 ^ 53"
    and "store_initialize envb nowb (new_store policyb limitb cfgb tb) empty_disk = Inr (b0, bd0)"
    and "m = replicate_all mem es1 (repl_on_error t (repl_connect False new_manager))"
    and "rm_socket (replicate_all mem es2 (repl_on_connect (reconnect_fires m))) = Some sent"
    and "concat chunks = concat sent" "\<forall>c. clock c \<le> 2 ^ 53" "background_ok envb background"
    and "fold (repl_on_data (backup_handler envb clock background) time mem') chunks
      ((b0, bd0), snd (repl_handleConnection new_repl_server)) = ((b, bd), r)"
  shows "store_get envp k p = Inr (fold view_effect es2 (fold view_effect es1 Map.empty) k) \<and>
    store_get envb k b = Inr (fold view_effect es2 Map.empty k)"
proof -
  note p0 = fresh_store_sim [OF assms(1-4)] and b0 = fresh_store_sim [OF assms(7-10)]
  have p: "store_sim envp (p, pd) (fold view_effect (es1 @ es2) Map.empty)"
    by (rule store_run_sim [OF assms(5) p0(1)])
  have sound: "\<forall>e\<in>set es2. sound_entry e" using store_run_sound [OF assms(5) p0(1)] by simp
  have idle: "\<not> rm_connected (repl_on_error t (repl_connect False new_manager))"
    "\<not> rm_connecting (repl_on_error t (repl_connect False new_manager))"
    by (simp_all add: manager_event_defs new_manager_def Let_def)
  then have "\<not> rm_connected m" "\<not> rm_connecting m"
    unfolding assms(11) replicate_disconnected [OF idle(1)] by (simp_all add: scheduleReconnect_def)
  then have up: "rm_connected (repl_on_connect (reconnect_fires m))" "rm_socket (repl_on_connect (reconnect_fires m)) = Some []"
    by (simp_all add: repl_on_connect_def reconnect_fires_def repl_connect_def)
  have "store_sim envb (b, bd) (fold view_effect es2 Map.empty)"
    by (rule replicate_to_store(1) [OF b0(1) _ _ assms(14,15) sound up assms(12,13) _ assms(16)])
      (use assms(6) b0 in \<open>simp_all add: repl_handleConnection_def new_repl_server_def\<close>)
  then show ?thesis using sim_get [OF p] sim_get [of envb] by fastforce
qed

lemma replication_gap_witness:
  "\<exists>p0 pd0 p pd b0 bd0 b bd r.
     store_initialize demo_env 1 (new_store SYNC_EVERY_WRITE 1000 demo_cfg 0) empty_disk = Inr (p0, pd0) \<and>
     store_put (env_mem demo_env) 9 (js ''k'') (js ''v'') p0 pd0 = (Inr (), p, pd) \<and>
     store_initialize demo_env 5 (new_store SYNC_EVERY_WRITE 100 demo_cfg 0) empty_disk = Inr (b0, bd0) \<and>
     fold (repl_on_data (backup_handler demo_env (\<lambda>c. 7) (\<lambda>c. c)) (\<lambda>c. 8) (\<lambda>i. 1)) []
       ((b0, bd0), snd (repl_handleConnection new_repl_server)) = ((b, bd), r) \<and>
     store_get demo_env (js ''k'') p = Inr (Some (js ''v'')) \<and> store_get demo_env (js ''k'') b = Inr None"
proof -
  obtain p0 pd0 p pd where p: "store_initialize demo_env 1 (new_store SYNC_EVERY_WRITE 1000 demo_cfg 0) empty_disk = Inr (p0, pd0)"
    "store_put (env_mem demo_env) 9 (js ''k'') (js ''v'') p0 pd0 = (Inr (), p, pd)"
    "store_run demo_env (\<lambda>s. True) (p0, pd0) ([demo_log_entry] @ []) (p, pd)"
    by (rule one_put_run) simp
  obtain b0 bd0 where b0: "store_initialize demo_env 5 (new_store SYNC_EVERY_WRITE 100 demo_cfg 0) empty_disk = Inr (b0, bd0)"
    by (rule fresh_start [OF demo_env_ok, of 5]) simp_all
  let ?e = "repl_on_error 3 (repl_connect False new_manager)"
  define m where "m = replicate_all (\<lambda>i. 0) [demo_log_entry] ?e"
  have "\<not> rm_connected ?e" "\<not> rm_connecting ?e" "\<not> rm_reconnectTimer ?e"
    by (simp_all add: manager_event_defs new_manager_def Let_def)
  then have "rm_socket (replicate_all (\<lambda>i. 0) [] (repl_on_connect (reconnect_fires m))) = Some []"
    unfolding m_def by (simp add: replicate_disconnected replicate_all_def [of _ "[]"] manager_event_defs)
  from replication_gap [OF demo_env_ok _ p(1,3) _ demo_env_ok _ b0 m_def this, of "[]" "\<lambda>c. 7" "\<lambda>c. c" "\<lambda>c. 8" "\<lambda>i. 1"
      b0 bd0 "snd (repl_handleConnection new_repl_server)" "js ''k''"]
  have "store_get demo_env (js ''k'') p = Inr (Some (js ''v'')) \<and> store_get demo_env (js ''k'') b0 = Inr None"
    by (simp add: background_none demo_log_entry_def view_effect_def)
  then show ?thesis using p(1,2) b0
    by (intro exI [of _ p0] exI [of _ pd0] exI [of _ p] exI [of _ pd] exI [of _ b0] exI [of _ bd0] exI [of _ b0]
        exI [of _ bd0] exI [of _ "snd (repl_handleConnection new_repl_server)"]) simp
qed

text \<open>C13. The entries sent over one connection, with any handler behind the backup's server: each
  is applied once, in order; when the acknowledgements are back nothing is pending, and both
  ends report the same last sequence number and the same numbers of applied and failed entries.\<close>

theorem replication_settled:
  assumes "\<forall>e\<in>set es. repl_entry_ok e" "m0 = repl_on_connect (repl_connect False new_manager)"
    and "r0 = snd (repl_handleConnection new_repl_server)"
    and "rm_socket (replicate_all mem es m0) = Some sent" "concat chunks = concat sent"
    and "fold (repl_on_data h clock mem') chunks (s, r0) = (s', r)" "concat chunks' = concat (rs_sent r)"
    and "fold (\<lambda>chunk m. snd (manager_handleData now chunk m)) chunks' (replicate_all mem es m0) = m"
  shows "s' = snd (run_entries h es s) \<and> rm_pendingAcks m = [] \<and>
    rst_lastReplicatedSequence (manager_getState now m) = rst_lastReplicatedSequence (server_getState now r) \<and>
    mx_entriesReplicated (rm_metrics m) = mx_entriesReplicated (rs_metrics r) \<and>
    mx_failedAttempts (rm_metrics m) = mx_failedAttempts (rs_metrics r) \<and>
    mx_entriesReplicated (rm_metrics m) + mx_failedAttempts (rm_metrics m) = length es"
proof -
  have m0: "rm_connected m0" "rm_socket m0 = Some []" "rm_pendingAcks m0 = []" "rm_buffer m0 = []"
    "rm_lastReplicatedSequence m0 = - 1" "rm_metrics m0 = no_metrics"
    by (simp_all add: assms(2) repl_on_connect_def repl_connect_def new_manager_def)
  have r0: "rs_buffer r0 = []" "rs_sent r0 = []" "rs_lastAppliedSequence r0 = - 1" "rs_metrics r0 = no_metrics"
    by (simp_all add: assms(3) repl_handleConnection_def new_repl_server_def)
  let ?rs = "fst (run_entries h es s)"
  note link = replication_link [OF m0(1-4) assms(1,4,5) r0(1,2) assms(6-8)]
  have "concat chunks = repl.stream (map Replicate es)"
    using assms(4,5) replicate_connected [OF m0(1,2) assms(1), of mem] by (auto simp: repl.stream_def comp_def)
  note srv = server_entries [OF assms(1) r0(1) this assms(6)]
  have "length (filter (\<lambda>x. x = Inr ()) ?rs) + length (filter (\<lambda>x. x \<noteq> Inr ()) ?rs) = length es"
    using sum_length_filter_compl [of "\<lambda>x. x = Inr ()" ?rs] by (simp add: run_entries_length)
  then show ?thesis
    using link srv(3-5) m0(5,6) r0(3,4)
    by (simp add: manager_getState_def server_getState_def no_metrics_def)
qed

lemma replication_settled_witness:
  "\<exists>sent r m m0. m0 = repl_on_connect (repl_connect False new_manager) \<and>
     rm_socket (replicate_all (\<lambda>i. 0) [demo_log_entry] m0) = Some sent \<and>
     fold (repl_on_data (\<lambda>e s. (Inl NotInitialized, s)) (\<lambda>s. 3) (\<lambda>i. 0)) (map (\<lambda>x. [x]) (concat sent))
       ((), snd (repl_handleConnection new_repl_server)) = ((), r) \<and>
     fold (\<lambda>chunk m. snd (manager_handleData 5 chunk m)) (rs_sent r) (replicate_all (\<lambda>i. 0) [demo_log_entry] m0) = m \<and>
     rm_pendingAcks m = []"
proof -
  have ok: "\<forall>e\<in>set [demo_log_entry]. repl_entry_ok e"
    using put_entry_ok by (simp add: demo_log_entry_def entry_ok_repl)
  define m0 where "m0 = repl_on_connect (repl_connect False new_manager)"
  have m: "rm_connected m0" "rm_socket m0 = Some []"
    by (simp_all add: m0_def repl_on_connect_def repl_connect_def new_manager_def)
  obtain sent where sent: "rm_socket (replicate_all (\<lambda>i. 0) [demo_log_entry] m0) = Some sent"
    using replicate_connected [OF m ok] by simp
  obtain r where r: "fold (repl_on_data (\<lambda>e s. (Inl NotInitialized, s)) (\<lambda>s. 3) (\<lambda>i. 0)) (map (\<lambda>x. [x]) (concat sent))
      ((), snd (repl_handleConnection new_repl_server)) = ((), r)"
    by (metis (full_types) prod.exhaust unit.exhaust)
  have c: "concat (map (\<lambda>x. [x]) (concat sent)) = concat sent" by simp
  have "rm_pendingAcks (fold (\<lambda>chunk m. snd (manager_handleData 5 chunk m)) (rs_sent r)
      (replicate_all (\<lambda>i. 0) [demo_log_entry] m0)) = []"
    using replication_settled [OF ok m0_def refl sent c r refl refl] by blast
  then show ?thesis using sent r m0_def by blast
qed

text \<open>C14. In every state the manager reaches, at most one of connected, connecting and waiting for
  the timer holds, and a connection or an attempt has a socket. Once it has been connected, or
  the timer has been set, whatever happens leaves it connected, retrying, or waiting for the
  timer: the manager does not give up.\<close>

theorem manager_keeps_trying:
  assumes "manager_reach mem m"
  shows "manager_inv m \<and> (\<forall>m'. manager_step mem m m' \<and> trying m \<longrightarrow> trying m')"
  using manager_reach_inv [OF assms] manager_step_inv by blast

lemma manager_keeps_trying_witness:
  "trying (handleConnectionClose 3 (repl_on_connect (repl_connect False new_manager)))"
proof -
  let ?m = "repl_on_connect (repl_connect False new_manager)"
  have "manager_reach (\<lambda>i. 0) ?m"
    by (rule mr_step [OF mr_start ms_connected]) (simp add: repl_connect_def new_manager_def)
  moreover have "manager_step (\<lambda>i. 0) ?m (handleConnectionClose 3 ?m)"
    by (rule ms_close) (simp add: repl_on_connect_def repl_connect_def new_manager_def)
  moreover have "trying ?m" by (simp add: trying_def repl_on_connect_def)
  ultimately show ?thesis using manager_keeps_trying by blast
qed

text \<open>C15. A failure of the first attempt happens while \<open>connecting\<close> is still true, so
  \<open>scheduleReconnect\<close> does nothing, and nothing else retries, although the start-up code
  says so. Only the next write sets the timer; the writes until the connection is made are not sent.\<close>

theorem first_failure_not_retried:
  assumes "createApplication path_join t c = Inr app" "ap_manager app = Some (mc, m0)"
    and "startApplication env now pick ports outcome app d = Inr (app', d')" "ap_manager app' = Some (mc', m1)"
    and "outcome \<noteq> Reached \<or> mc_backupPort mc < 0 \<or> 65535 < mc_backupPort mc"
    and "m = (handleConnectionClose time ^^ n) m1"
  shows "\<not> trying m \<and> \<not> rm_connecting m \<and>
    replicate_all mem es m = (if es = [] then m else m\<lparr>rm_reconnectTimer := True\<rparr>) \<and>
    rm_socket (repl_on_connect (reconnect_fires (replicate_all mem es m))) = Some []"
proof -
  have "m0 = new_manager" using assms(1,2) by (auto simp: createApplication_def bind_res_eq_Inr split: option.splits if_splits)
  moreover have "m1 = first_connect now outcome mc m0"
    using start_manager [OF assms(3)] assms(2,4) by simp
  ultimately have m1: "\<not> rm_connected m1" "\<not> rm_connecting m1" "\<not> rm_reconnectTimer m1"
    using assms(5) by (auto simp: first_connect_def manager_event_defs new_manager_def Let_def split: connect_outcome.split)
  have "(handleConnectionClose time ^^ n) m1 = m1"
    using m1(1) by (induction n) (simp_all add: handleConnectionClose_def)
  then have m: "\<not> rm_connected m" "\<not> rm_connecting m" "\<not> rm_reconnectTimer m" using m1 assms(6) by simp_all
  then have all: "replicate_all mem es m = (if es = [] then m else m\<lparr>rm_reconnectTimer := True\<rparr>)"
    by (simp add: replicate_disconnected scheduleReconnect_def)
  have "rm_socket (repl_on_connect (reconnect_fires (replicate_all mem es m))) = Some []"
    unfolding all using m by (simp add: manager_event_defs)
  then show ?thesis using m all by (simp add: trying_def)
qed

lemma first_failure_not_retried_witness:
  "\<exists>app app' d' m. createApplication js_append 0 (DEFAULT_CONFIG\<lparr>sc_replication := Some (primary_config (js ''h'') 3002)\<rparr>) = Inr app \<and>
     startApplication demo_env 1 (\<lambda>ports. 50000) [] TimeoutEvent app empty_disk = Inr (app', d') \<and>
     map_option snd (ap_manager app') = Some m \<and> \<not> rm_reconnectTimer m \<and>
     rm_reconnectTimer (replicate_all (\<lambda>i. 0) [demo_log_entry] m)"
proof -
  let ?c = "DEFAULT_CONFIG\<lparr>sc_replication := Some (primary_config (js ''h'') 3002)\<rparr>"
  have c: "cli_role (sc_replication ?c)" "sc_sstableTuning ?c = None" "app_role ?c = PRIMARY"
    by (simp_all add: cli_role_def DEFAULT_CONFIG_def js_def app_role_def or_default_def)
  obtain app where app: "createApplication js_append 0 ?c = Inr app" "ap_config app = ?c"
    "ap_store app = new_store (sc_syncPolicy ?c) (sc_memTableSizeLimit ?c) (table_config js_append ?c DEFAULT_SSTABLE_TUNING) 0"
    "ap_manager app \<noteq> None"
    "ap_backup app = (if app_role ?c = BACKUP then Some (the (rc_replicationPort (the (sc_replication ?c))), new_repl_server) else None)"
    "ap_tcp app = new_tcp_server"
    by (rule create_application [OF c(1,2), of js_append 0]) (use c(3) in simp)
  obtain mc m0 where m0: "ap_manager app = Some (mc, m0)" using app(4) by auto
  have rate: "cf_falsePositiveRate (table_config js_append ?c DEFAULT_SSTABLE_TUNING) < 1"
    by (simp add: table_config_def DEFAULT_SSTABLE_TUNING_def)
  obtain s d where s: "store_initialize demo_env 1 (ap_store app) empty_disk = Inr (s, d)"
    unfolding app(3) by (rule fresh_start [OF demo_env_ok(1) rate, of 1]) simp_all
  have "app_ports ?c = [3000, 3001]" unfolding app_ports_def c(3) by (simp add: DEFAULT_CONFIG_def)
  then have free: "ports_free (\<lambda>ports. 50000) [] (app_ports ?c)" by simp
  obtain app' where app': "startApplication demo_env 1 (\<lambda>ports. 50000) [] TimeoutEvent app empty_disk = Inr (app', d)"
    "map_option fst (ap_manager app') = map_option fst (ap_manager app)"
    using start_application [OF s app(6) app(5) [folded app(2)], of "\<lambda>ports. 50000" "[]" TimeoutEvent] free
    unfolding app(2) by auto
  then obtain mc' m1 where m1: "ap_manager app' = Some (mc', m1)" using m0 by auto
  have "m1 = (handleConnectionClose 0 ^^ 0) m1" by simp
  from first_failure_not_retried [OF app(1) m0 app'(1) m1 _ this, of "\<lambda>i. 0" "[demo_log_entry]"]
  have "\<not> rm_reconnectTimer m1" "rm_reconnectTimer (replicate_all (\<lambda>i. 0) [demo_log_entry] m1)"
    by (simp_all add: trying_def)
  then show ?thesis using app(1) app'(1) m1 by auto
qed

text \<open>C16. The buffer outlives the connection. When one ends inside an acknowledgement, three bytes
  into it, say, the bytes that are left precede the first acknowledgement of the next
  connection: the parser finds an unknown opcode and the handler of the data throws.\<close>

theorem reconnect_stale_bytes:
  assumes "rm_connected m" "rm_buffer m = []"
    and "m' = repl_on_connect (reconnect_fires (handleConnectionClose now'
      (snd (manager_handleData now (take 3 (repl_bytes (ReplicateAck st s))) m))))"
  shows "fst (manager_handleData now'' (repl_bytes (ReplicateAck st' s')) m') = Some (UnknownOpcode 0)"
proof -
  have ack: "repl_bytes (ReplicateAck st s) = [0, 0, 0, 10] @ be_bytes 1 REPLICATE_ACK @ be_bytes 1 st @ be_bytes 8 s" for st s
  proof -
    have "be_bytes 4 10 = [0, 0, 0, 10 :: byte]" by code_simp
    then show ?thesis by (simp add: repl_bytes_def)
  qed
  have "rm_buffer (snd (manager_handleData now [0, 0, 0] m)) = [0, 0, 0]"
    using assms(2) by (simp add: manager_handleData_def drain.simps [of _ _ "[0, 0, 0]"] repl_parseMessage_def)
  then have buffer: "rm_buffer m' = [0, 0, 0]"
    by (simp add: assms(3) ack manager_event_defs)
  have "readUInt32BE (of_bytes ([0, 0, 0] @ repl_bytes (ReplicateAck st' s'))) 0 = Inr 0"
    "readUInt8 (of_bytes ([0, 0, 0] @ repl_bytes (ReplicateAck st' s'))) 4 = Inr 0"
    by (simp_all add: ack read_uint_def bytes_between_of_bytes be_value_def)
  then have "repl_parseMessage (of_bytes ([0, 0, 0] @ repl_bytes (ReplicateAck st' s'))) = Inl (UnknownOpcode 0)"
    by (simp add: repl_parseMessage_def REPLICATE_def REPLICATE_ACK_def Let_def repl_bytes_def)
  then show ?thesis
    by (simp add: manager_handleData_def buffer drain.simps [of _ _ "[0, 0, 0] @ _", simplified])
qed

lemma reconnect_stale_bytes_witness:
  "\<exists>m m'. m = repl_on_connect (repl_connect False new_manager) \<and>
     m' = repl_on_connect (reconnect_fires (handleConnectionClose 2
       (snd (manager_handleData 1 (take 3 (repl_bytes (ReplicateAck 0 7))) m)))) \<and>
     fst (manager_handleData 3 (repl_bytes (ReplicateAck 0 8)) m') = Some (UnknownOpcode 0)"
proof -
  let ?m = "repl_on_connect (repl_connect False new_manager)"
  have m: "rm_connected ?m" "rm_buffer ?m = []"
    by (simp_all add: repl_on_connect_def repl_connect_def new_manager_def)
  from reconnect_stale_bytes [OF m refl, of 3 0 8] show ?thesis by blast
qed

text \<open>C17. Entries and acknowledgements whose fields fit serialise; the parser gets them back, with
  their exact length, from the front of any buffer, and asks for more data when it has only a
  part. Every entry the log can hold (\<open>entry_ok\<close>) fits.\<close>

theorem replication_frames:
  assumes "repl_entry_ok e" "st < 256" "s \<le> 2 ^ 53"
  shows "\<exists>bs as. serializeReplicate mem e = Inr bs \<and> repl_serializeAck mem st s = Inr as \<and>
    (\<forall>rest. repl_parseMessage (of_bytes (bs @ rest)) = Inr (Some (Replicate e, length bs))) \<and>
    (\<forall>rest. repl_parseMessage (of_bytes (as @ rest)) = Inr (Some (ReplicateAck st s, length as))) \<and>
    (\<forall>n < length bs. repl_parseMessage (of_bytes (take n bs)) = Inr None) \<and>
    (\<forall>n < length as. repl_parseMessage (of_bytes (take n as)) = Inr None) \<and>
    (\<forall>e'. entry_ok e' \<longrightarrow> repl_entry_ok e' \<and> (\<exists>bs. serializeReplicate mem e' = Inr bs))"
proof -
  have ok: "repl_ok (Replicate e)" "repl_ok (ReplicateAck st s)" using assms by simp_all
  show ?thesis
    using serializeReplicate_ok [OF assms(1)] repl_serializeAck_ok [OF ok(2)] repl_parse_whole [OF ok(1)]
      repl_parse_whole [OF ok(2)] repl_parse_part [OF ok(1)] repl_parse_part [OF ok(2)] entry_ok_repl serializeReplicate_ok by blast
qed

lemma replication_frames_witness:
  "\<exists>bs. serializeReplicate (\<lambda>i. 5) demo_log_entry = Inr bs \<and>
     repl_parseMessage (of_bytes (bs @ bs)) = Inr (Some (Replicate demo_log_entry, length bs))"
proof -
  have "repl_entry_ok demo_log_entry" using put_entry_ok by (simp add: demo_log_entry_def entry_ok_repl)
  from replication_frames [OF this, of 0 0 "\<lambda>i. 5"] show ?thesis by auto
qed

text \<open>C18. From an empty directory, through any run of writes, batch commits, flush and compaction
  steps, where flushes and compactions do not overlap and compactions that find nothing alive
  are left out (they empty the manifest only): when no compaction is under way, the tables that the engine searches are those that the
  manifest lists, in the same order; only between recording and opening a flushed table is the
  manifest one table ahead.\<close>

theorem manifest_lists_tables:
  assumes "2147483647 \<le> env_limit env" "cf_falsePositiveRate cfg < 1" "now \<le> 2 ^ 53"
    and "store_initialize env now (new_store policy limit cfg t) empty_disk = Inr (s0, d0)"
    and "cm_phase c0 = NoCompaction" "cm_config c0 = cfg"
    and "system_run env (\<lambda>s. True) (c0, s0, d0) es (c, s, d)" "cm_phase c = NoCompaction"
  shows "(case st_flush s of
      Recorded meta \<Rightarrow> mf_sstables (mf_state (st_manifest s)) = meta # map fst (st_sstables s)
    | _ \<Rightarrow> mf_sstables (mf_state (st_manifest s)) = map fst (st_sstables s))"
  using running.system_listed [OF running.system_run_good [OF assms(7) fresh_system(2) [OF assms(1-6)]] assms(8)]
  by (simp only: tables_listed_def)

lemma manifest_lists_tables_witness:
  "\<exists>s0 d0 s d.
    store_initialize demo_env 1 (new_store SYNC_EVERY_WRITE 1000 demo_cfg 0) empty_disk = Inr (s0, d0) \<and>
    store_put (env_mem demo_env) 9 (js ''k'') (js ''v'') s0 d0 = (Inr (), s, d) \<and> tables_listed s"
proof -
  obtain s0 d0 s d where s0: "store_initialize demo_env 1 (new_store SYNC_EVERY_WRITE 1000 demo_cfg 0) empty_disk = Inr (s0, d0)"
    "store_put (env_mem demo_env) 9 (js ''k'') (js ''v'') s0 d0 = (Inr (), s, d)"
    "store_run demo_env (\<lambda>s. True) (s0, d0) [demo_log_entry] (s, d)"
    by (rule one_put_run)
  note run = store_run_system [OF s0(3) demo_compactor_simps(1)]
  show ?thesis
    using manifest_lists_tables [OF demo_env_ok _ s0(1) demo_compactor_simps run, folded tables_listed_def] s0(1,2) by auto
qed

section \<open>Reads\<close>

text \<open>C19. A point lookup on an initialised store returns what the newest layer with the key
  says: active memtable, immutable memtable, then the tables in their order. A tombstone gives
  null, and no read fails.\<close>

theorem store_get_newest:
  assumes "st_initialized s" "tables_open env (st_sstables s) tables"
  shows "store_get env key s = Inr (store_view s tables key)"
  by (rule store_get_ok [OF assms])

lemma store_get_newest_witness:
  fixes env s
  defines "env \<equiv> \<lparr>env_mem = \<lambda>i. 0, env_limit = 4294967296\<rparr>"
    and "s \<equiv> (new_store SYNC_EVERY_WRITE 1000
      \<lparr>cf_dataDir = js ''d'', cf_sparseIndexInterval = 2, cf_falsePositiveRate = 1 / 100\<rparr> 0)
      \<lparr>st_initialized := True, st_active := mt_put 5 (js ''k'') (js ''v'') False (new_mem_table 1000),
       st_immutable := Some (mt_delete 4 (js ''k'') (new_mem_table 1000))\<rparr>"
  shows "store_get env (js ''k'') s = Inr (Some (js ''v''))"
proof -
  have "store_get env (js ''k'') s = Inr (store_view s [] (js ''k''))"
    by (rule store_get_newest) (simp_all add: s_def new_store_def tables_open_def)
  then show ?thesis
    by (simp add: s_def store_view_def memory_layers_def view_Cons mem_layer_def getEntry_put entry_value_def)
qed

text \<open>C20. A range query yields the live pairs of the closed range in ascending key order, each
  key once with its newest value; a limit cuts the list, though a limit of zero still gives one
  pair.\<close>

theorem readKeyRange_sorted:
  assumes "st_initialized s" "memory_ok s" "tables_open env (st_sstables s) tables"
  shows "\<exists>ps. readKeyRange env a b limit s = Inr (limited limit ps) \<and> ordered_by fst ps \<and>
    (\<forall>k. map_of ps k = (if a \<le> k \<and> k \<le> b then store_view s tables k else None))"
proof -
  obtain ps where "readKeyRange env a b limit s = Inr (limited limit ps)" "ordered_by fst ps"
    "\<forall>k. map_of ps k = (if a \<le> k \<and> k \<le> b then store_view s tables k else None)"
    by (rule readKeyRange_ok [OF assms, where a = a and b = b and limit = limit])
  then show ?thesis by blast
qed

lemma readKeyRange_sorted_witness:
  fixes env s
  defines "env \<equiv> \<lparr>env_mem = \<lambda>i. 0, env_limit = 4294967296\<rparr>"
    and "s \<equiv> (new_store SYNC_EVERY_WRITE 1000
      \<lparr>cf_dataDir = js ''d'', cf_sparseIndexInterval = 2, cf_falsePositiveRate = 1 / 100\<rparr> 0)
      \<lparr>st_initialized := True, st_active := mt_put 5 (js ''k'') (js ''v'') False (new_mem_table 1000)\<rparr>"
  shows "\<exists>ps. readKeyRange env (js ''a'') (js ''z'') (Some 3) s = Inr (take 3 ps) \<and> ordered_by fst ps \<and>
    map_of ps (js ''k'') = (if js ''a'' \<le> js ''k'' \<and> js ''k'' \<le> js ''z'' then Some (js ''v'') else None)"
proof -
  have v: "store_view s [] (js ''k'') = Some (js ''v'')"
    by (simp add: s_def new_store_def store_view_def memory_layers_def view_Cons mem_layer_def
        getEntry_put entry_value_def)
  have "\<exists>ps. readKeyRange env (js ''a'') (js ''z'') (Some 3) s = Inr (limited (Some 3) ps) \<and>
      ordered_by fst ps \<and>
      (\<forall>k. map_of ps k = (if js ''a'' \<le> k \<and> k \<le> js ''z'' then store_view s [] k else None))"
    by (rule readKeyRange_sorted) (simp_all add: s_def new_store_def tables_open_def memory_ok_def)
  then show ?thesis by (auto simp: limited_def v)
qed

section \<open>The streaming interface\<close>

text \<open>C21. A client that pipelines puts over one connection, over any engine: however the bytes are cut
  in both directions, the engine executes every put once and in order, every request is
  settled, and each with the outcome of its own put; an error arrives with its text.\<close>

theorem tcp_pipelined_puts:
  assumes "texts_ok err_text" "\<forall>p\<in>set kvs. tcp_ok (put_message p)"
    and "client_puts mem kvs (new_tcp_client\<lparr>tc_connected := True\<rparr>) = Inr c"
    and "concat chunks = concat (tc_sent c)"
    and "fold (server_chunk put err_text mem') chunks (s, new_connection) = (s', cn)"
    and "concat chunks' = concat (cn_sent cn)"
    and "fold (\<lambda>chunk c. snd (client_handleData chunk c)) chunks' c = c'"
  shows "s' = snd (run_puts put kvs s) \<and> tc_pendingAcks c' = [] \<and>
    map (\<lambda>(i, r). (i, put_result r)) (tc_settled c') =
      zip [0..<length kvs] (map (put_outcome err_text) (fst (run_puts put kvs s)))"
  using link_puts [OF assms] by blast

lemma tcp_pipelined_puts_witness:
  "\<exists>c cn c'. client_puts (\<lambda>i. 0) [(js ''k'', js ''v'')] (new_tcp_client\<lparr>tc_connected := True\<rparr>) = Inr c \<and>
     fold (server_chunk (\<lambda>k v s. (Inl NotInitialized, s)) (\<lambda>e. js ''failed'') (\<lambda>i. 1))
       (map (\<lambda>x. [x]) (concat (tc_sent c))) ((), new_connection) = ((), cn) \<and>
     fold (\<lambda>chunk c. snd (client_handleData chunk c)) (cn_sent cn) c = c' \<and>
     map (\<lambda>(i, r). (i, put_result r)) (tc_settled c') = [(0, Inl (js ''failed''))]"
proof -
  have texts: "texts_ok (\<lambda>e. js ''failed'')" by (simp add: texts_ok_def string_ok_js)
  have kv: "utf8 (js ''k'') = [byte_of 107]" "utf8 (js ''v'') = [byte_of 118]" by (simp_all add: utf8_js utf8_of_def)
  have ok: "\<forall>p\<in>set [(js ''k'', js ''v'')]. tcp_ok (put_message p)"
    by (simp add: put_message_def string_ok_js kv)
  obtain c where c: "client_puts (\<lambda>i. 0) [(js ''k'', js ''v'')] (new_tcp_client\<lparr>tc_connected := True\<rparr>) = Inr c"
    using client_puts_ok [OF _ ok, of "new_tcp_client\<lparr>tc_connected := True\<rparr>" "\<lambda>i. 0"] by simp
  define z where "z = fold (server_chunk (\<lambda>k v s. (Inl NotInitialized, s)) (\<lambda>e. js ''failed'') (\<lambda>i. 1))
      (map (\<lambda>x. [x]) (concat (tc_sent c))) ((), new_connection)"
  obtain cn where cn: "fold (server_chunk (\<lambda>k v s. (Inl NotInitialized, s)) (\<lambda>e. js ''failed'') (\<lambda>i. 1))
      (map (\<lambda>x. [x]) (concat (tc_sent c))) ((), new_connection) = ((), cn)"
    unfolding z_def [symmetric] by (cases z) simp
  have "concat (map (\<lambda>x. [x]) (concat (tc_sent c))) = concat (tc_sent c)" by simp
  note all = tcp_pipelined_puts [OF texts ok c this cn refl refl]
  have "zip [0..<length [(js ''k'', js ''v'')]] (map (put_outcome (\<lambda>e. js ''failed''))
      (fst (run_puts (\<lambda>k v s. (Inl NotInitialized, s)) [(js ''k'', js ''v'')] ()))) = [(0, Inl (js ''failed''))]"
    by (simp add: put_outcome_def)
  then have "map (\<lambda>(i, r). (i, put_result r)) (tc_settled (fold (\<lambda>chunk c. snd (client_handleData chunk c)) (cn_sent cn) c)) =
      [(0, Inl (js ''failed''))]"
    using conjunct2 [OF conjunct2 [OF all]] by (rule trans [rotated])
  then show ?thesis
    by (intro exI [of _ c] exI [of _ cn] exI [of _ "fold (\<lambda>chunk c. snd (client_handleData chunk c)) (cn_sent cn) c"]
        conjI c cn refl)
qed

text \<open>C22. An error of the parser leaves the buffer uncut. A put that precedes such bytes in a chunk
  has been executed and acknowledged, and is executed once more when the next chunk comes.\<close>

theorem tcp_repeats_after_error:
  assumes "texts_ok err_text" "tcp_ok (StreamPut k v)" "cn_buffer c = []" "\<not> cn_ended c"
    and "\<And>later. tcp_parseMessage (of_bytes (bad @ later)) = Inl err"
  shows "fst (fold (server_chunk put err_text mem) [tcp_bytes (StreamPut k v) @ bad, later] (s, c)) =
    snd (put k v (snd (put k v s)))"
  by (rule server_repeats [OF assms])

lemma tcp_repeats_after_error_witness:
  "fst (fold (server_chunk (\<lambda>k v n. (Inr (), Suc n)) (\<lambda>e. js ''e'') (\<lambda>i. 0))
     [tcp_bytes (StreamPut (js ''k'') (js ''v'')) @ [0, 0, 0, 1, 9], [0]] (0 :: nat, new_connection)) = 2"
proof -
  have texts: "texts_ok (\<lambda>e. js ''e'')" by (simp add: texts_ok_def string_ok_js)
  have kv: "utf8 (js ''k'') = [byte_of 107]" "utf8 (js ''v'') = [byte_of 118]" by (simp_all add: utf8_js utf8_of_def)
  have ok: "tcp_ok (StreamPut (js ''k'') (js ''v''))" by (simp add: string_ok_js kv)
  have "tcp_parseMessage (of_bytes ([0, 0, 0, 1, 9] @ later)) = Inl (UnknownOpcode 9)" for later
  proof -
    have "readUInt32BE (of_bytes ([0, 0, 0, 1, 9] @ later)) 0 = Inr 1"
      "readUInt8 (of_bytes ([0, 0, 0, 1, 9] @ later)) 4 = Inr 9"
      by (simp_all add: read_uint_def bytes_between_of_bytes be_value_def)
    then show ?thesis by (simp add: tcp_parseMessage_def opcode_defs Let_def)
  qed
  from tcp_repeats_after_error [OF texts ok _ _ this, of new_connection "\<lambda>k v n. (Inr (), Suc n)" "\<lambda>i. 0" "[0]" 0]
  show ?thesis by (simp add: new_connection_def numeral_2_eq_2)
qed

text \<open>C23. Every message whose fields fit serialises; from the front of any buffer the parser gets
  it back with its exact length, and it asks for more data when it has only a part of it.\<close>

theorem tcp_frames:
  assumes "tcp_ok m"
  shows "\<exists>bs. (\<forall>mem. serialize_tcp mem m = Inr bs) \<and>
    (\<forall>rest. tcp_parseMessage (of_bytes (bs @ rest)) = Inr (Some (m, length bs))) \<and>
    (\<forall>n < length bs. tcp_parseMessage (of_bytes (take n bs)) = Inr None)"
  using serialize_tcp_ok [OF assms] tcp.parse_whole [of m] tcp_parse_part [OF assms] assms by blast

lemma tcp_frames_witness:
  "\<exists>bs. serializeAck (\<lambda>i. 3) ACK_ERROR (Some (js ''no'')) = Inr bs \<and>
     tcp_parseMessage (of_bytes (bs @ [1, 2])) = Inr (Some (Ack ACK_ERROR (Some (js ''no'')), length bs))"
proof -
  have "tcp_ok (Ack ACK_ERROR (Some (js ''no'')))"
    by (simp add: string_ok_js ACK_ERROR_def)
  then obtain bs where "\<forall>mem. serialize_tcp mem (Ack ACK_ERROR (Some (js ''no''))) = Inr bs"
    "\<forall>rest. tcp_parseMessage (of_bytes (bs @ rest)) = Inr (Some (Ack ACK_ERROR (Some (js ''no'')), length bs))"
    using tcp_frames by blast
  then show ?thesis by auto
qed

section \<open>The write-ahead log\<close>

text \<open>C24. Replaying a log file whose last record is cut short at any byte yields exactly the
  entries that were completely written, in order.\<close>

theorem wal_torn_tail:
  assumes "\<forall>e\<in>set es. entry_ok e" "serialized es bss"
    and "entry_ok e" "serializeEntry mem e = Inr r" "n < length r"
  shows "readLogFile (concat bss @ take n r) = es"
  using readLogFile_torn [OF assms(1,3)] assms serialized_bytes by (simp add: serializeEntry_ok)

lemma wal_torn_tail_witness:
  fixes e defines "e \<equiv> stamp (put_body (js ''k'') (js ''v'')) 7 9"
  shows "readLogFile (concat [entry_bytes e] @ take 5 (entry_bytes e)) = [e]"
proof -
  have "entry_ok e" by (simp add: e_def put_entry_ok)
  then show ?thesis
    by (intro wal_torn_tail [where mem = "\<lambda>i. 0" and e = e])
      (auto simp: serialized_def serializeEntry_ok length_entry_bytes)
qed

text \<open>C25. When a single byte of a record, its length field apart, is changed to any other value,
  replay returns exactly the entries before that record, whatever follows it.\<close>

theorem wal_corrupt_byte:
  assumes "\<forall>e\<in>set es. entry_ok e" "serialized es bss" "entry_ok e"
    and "serializeEntry mem e = Inr (xs @ a # ys)" "4 \<le> length xs" "a \<noteq> a'"
  shows "readLogFile (concat bss @ xs @ a' # ys @ rest) = es"
proof -
  have "entry_bytes e = xs @ a # ys" using assms(3,4) by (simp add: serializeEntry_ok)
  then show ?thesis
    using readLogFile_corrupt [OF assms(1,3) _ assms(5,6)] serialized_bytes [OF assms(1,2)] by simp
qed

lemma wal_corrupt_byte_witness:
  fixes e defines "e \<equiv> stamp (put_body (js ''k'') (js ''v'')) 7 9"
  shows "readLogFile (concat [entry_bytes e] @ take 6 (entry_bytes e) @ (entry_bytes e ! 6 + 1) #
      drop 7 (entry_bytes e) @ [1, 2, 3]) = [e]"
proof -
  have ok: "entry_ok e" by (simp add: e_def put_entry_ok)
  have len: "6 < length (entry_bytes e)" by (simp add: length_entry_bytes)
  then have split: "entry_bytes e = take 6 (entry_bytes e) @ entry_bytes e ! 6 # drop 7 (entry_bytes e)"
    using id_take_nth_drop [of 6 "entry_bytes e"] by simp
  show ?thesis
  proof (rule wal_corrupt_byte [where mem = "\<lambda>i. 0" and e = e])
    show "serializeEntry (\<lambda>i. 0) e =
        Inr (take 6 (entry_bytes e) @ entry_bytes e ! 6 # drop 7 (entry_bytes e))"
      using serializeEntry_ok [OF ok] split by simp
  qed (use ok len in \<open>auto simp: serialized_def serializeEntry_ok\<close>)
qed

text \<open>C26. From a newly opened log and through any sequence of appends, queued appends, batch
  flushes and checkpoints, failed ones included, every entry acknowledged since the last
  checkpoint is in the replay, in the order of the acknowledgements.\<close>

theorem wal_acked_replay:
  assumes "wal_open now (new_wal policy) [] = (w, dir)"
    and "log_step\<^sup>*\<^sup>* \<lparr>lg_wal = w, lg_dir = dir, lg_acked = []\<rparr> s"
  shows "subseq (lg_acked s) (wal_replay (lg_dir s))"
proof -
  have "log_inv \<lparr>lg_wal = w, lg_dir = dir, lg_acked = []\<rparr>"
    using wal_open_new [OF _ _ assms(1)] by (intro log_invI [where old = "[]" and es = "[]"]) (simp_all add: log_files_def new_wal_def)
  then show ?thesis by (intro log_inv_acked log_steps_inv [OF assms(2)])
qed

lemma wal_acked_replay_witness:
  fixes e defines "e \<equiv> stamp (put_body (js ''k'') (js ''v'')) 0 9"
  shows "\<exists>dir. subseq [e] (wal_replay dir)"
proof -
  obtain w dir where o: "wal_open 5 (new_wal SYNC_EVERY_WRITE) [] = (w, dir)" by fastforce
  have w: "wal_sequenceId w = 0" "wal_syncPolicy w = SYNC_EVERY_WRITE" "wal_fileHandle w"
    using wal_open_new [OF _ _ o] by (simp_all add: log_files_def new_wal_def log_ready_def)
  have ok: "entry_ok e" by (simp add: e_def put_entry_ok)
  obtain w' dir' where a: "append_sync (\<lambda>i. 0) 9 (put_body (js ''k'') (js ''v'')) w dir = (Inr (), w', dir', [e])"
    using w serializeEntry_ok [OF ok] by (simp add: append_sync_def writeEntry_def e_def Let_def)
  have "log_step \<lparr>lg_wal = w, lg_dir = dir, lg_acked = []\<rparr>
      \<lparr>lg_wal = w', lg_dir = dir', lg_acked = [] @ [e]\<rparr>"
    using w ok by (intro step_sync [OF _ _ a]) (simp_all add: loggable_def e_def)
  then show ?thesis
    using wal_acked_replay [OF o r_into_rtranclp] by fastforce
qed

text \<open>C27. At any time at most one caller holds the write lock of the log, and the callers that
  have asked are those it was granted to followed by those that wait, in the order of asking.\<close>

theorem wal_lock_exclusive:
  assumes "lock_step\<^sup>*\<^sup>* lock_start s"
  shows "length (lk_holders s) \<le> 1 \<and>
    lk_asked s = lk_granted s @ mx_waitQueue (lk_mutex s) \<and>
    (lk_holders s = [] \<longrightarrow> mx_waitQueue (lk_mutex s) = [])"
  using lock_invariant [OF assms] by (auto split: if_splits)

lemma wal_lock_exclusive_witness:
  fixes s1 defines "s1 \<equiv> \<lparr>lk_mutex = \<lparr>mx_locked = True, mx_waitQueue = []\<rparr>, lk_holders = [7],
      lk_asked = [7], lk_granted = [7]\<rparr>"
  shows "length (lk_holders s1) \<le> 1 \<and> lk_asked s1 = lk_granted s1 @ mx_waitQueue (lk_mutex s1)"
proof -
  have "lock_step lock_start s1"
    using lock_ask [of 7 "lk_mutex lock_start" True "lk_mutex s1" "[]" "[]" "[]"]
    by (simp add: lock_start_def s1_def mutex_acquire_def)
  then show ?thesis using wal_lock_exclusive [OF r_into_rtranclp] by blast
qed

text \<open>C28. Opening a log does not cut off a torn record at its end. An entry that is acknowledged
  afterwards, and that does not fill up the length the torn record declares, is lost: the next
  replay returns only the entries before the torn record.\<close>

theorem wal_append_after_torn:
  assumes "\<forall>e\<in>set es. entry_ok e" "entry_ok e" "4 \<le> n"
    and "wal_open now (new_wal SYNC_EVERY_WRITE)
      [(log_name t, concat (map entry_bytes es) @ take n (entry_bytes e))] = (w, dir)"
    and "entry_ok (stamp body (wal_sequenceId w) now')"
    and "n + length (entry_bytes (stamp body (wal_sequenceId w) now')) < length (entry_bytes e)"
  shows "\<exists>w' dir'. append_sync mem now' body w dir =
      (Inr (), w', dir', [stamp body (wal_sequenceId w) now']) \<and> wal_replay dir' = es"
  by (rule append_after_torn [OF assms(1-3) refl assms(4-6)])

lemma wal_append_after_torn_witness:
  fixes e defines "e \<equiv> stamp (put_body (js ''k'') (js ''a long value that is cut off'')) 0 9"
  shows "\<exists>w dir w' dir'. wal_open 7 (new_wal SYNC_EVERY_WRITE) [(log_name 5, take 4 (entry_bytes e))] = (w, dir) \<and>
    append_sync (\<lambda>i. 0) 11 (delete_body (js ''k'')) w dir =
      (Inr (), w', dir', [stamp (delete_body (js ''k'')) (wal_sequenceId w) 11]) \<and> wal_replay dir' = []"
proof -
  let ?torn = "take 4 (entry_bytes e)" and ?b = "delete_body (js ''k'')"
  have e: "entry_ok e" by (simp add: e_def put_entry_ok)
  obtain w dir where o: "wal_open 7 (new_wal SYNC_EVERY_WRITE) [(log_name 5, ?torn)] = (w, dir)"
    by fastforce
  have "readLogFile ?torn = []"
    using readLogFile_torn [OF _ e, of "[]" 4] by (simp add: length_entry_bytes)
  then have seq: "wal_sequenceId w = 0"
    using o by (auto simp: wal_open_def Let_def log_files_def is_log_file_name readLastSequenceId_def
        new_wal_def split: if_splits)
  have u: "utf8 (js ''k'') = [byte_of 107]" "length (utf8 (js ''a long value that is cut off'')) = 28"
    by (simp_all add: utf8_js utf8_of_def)
  have "body_ok ?b"
    unfolding body_ok_def
    by (rule disjI2, rule disjI1, rule exI [of _ "js ''k''"]) (simp add: string_ok_def well_formed_js u)
  then have b: "entry_ok (stamp ?b (wal_sequenceId w) 11)"
    unfolding entry_ok_def seq
    by (auto simp: length_entry_data payload_bytes_def payload_writes_def u wops_bytes_def)
  have len: "4 + length (entry_bytes (stamp ?b (wal_sequenceId w) 11)) < length (entry_bytes e)"
    by (simp add: e_def length_entry_bytes length_entry_data payload_bytes_def payload_writes_def u
        wops_bytes_def put_writes_def)
  show ?thesis
    using wal_append_after_torn [of "[]" e 4 7 5 w dir ?b 11 "\<lambda>i. 0"] e o b len by auto
qed

section \<open>Merging and the memtable\<close>

text \<open>C29. On sources in strictly ascending key order the heap-based merge equals the reference: all
  keys of all sources in ascending order, each with the entry of the first source that has it,
  tombstones dropped unless they are asked for.\<close>

theorem merge_newest_wins:
  assumes "\<forall>es\<in>set srcs. ordered_by me_key es"
  shows "iterate b (new_merge srcs) =
    map (\<lambda>e. (me_key e, me_value e)) (filter (\<lambda>e. b \<or> \<not> me_deleted e)
      (map (\<lambda>k. the (first_hit (map entry_of srcs) k))
        (sorted_list_of_set (\<Union>es\<in>set srcs. me_key ` set es))))"
  using iterate_merged [OF assms, of b]
  by (simp add: yielded_def merged_def newest_def all_keys_def)

lemma merge_newest_wins_witness:
  fixes e srcs
  defines "e \<equiv> \<lambda>k v d. \<lparr>me_key = js k, me_value = js v, me_time = 0, me_deleted = d\<rparr>"
    and "srcs \<equiv> [[e ''a'' ''1'' False, e ''b'' '''' True], [e ''b'' ''2'' False]]"
  shows "iterate False (new_merge srcs) = [(js ''a'', js ''1'')]"
proof -
  have ab: "js ''a'' < js ''b''" by code_simp
  have keys: "(\<Union>es\<in>set srcs. me_key ` set es) = {js ''a'', js ''b''}"
    by (auto simp: srcs_def e_def)
  have list: "sorted_list_of_set {js ''a'', js ''b''} = [js ''a'', js ''b'']"
    by (rule sorted_list_of_set_unique [THEN iffD1]) (use ab in auto)
  have "\<forall>es\<in>set srcs. ordered_by me_key es" using ab by (simp add: srcs_def e_def)
  note run = merge_newest_wins [OF this, of False]
  show ?thesis
    unfolding run keys list using ab by (simp add: srcs_def e_def entry_of_def)
qed

text \<open>C30. After any sequence of sets and deletes the red-black map is the finite map that the same
  updates give: \<open>get\<close> and \<open>has\<close> agree with it, \<open>delete\<close> reports whether the key was there,
  the entries are its pairs in ascending key order, \<open>range\<close> cuts out the closed interval, and
  the count is their number.\<close>

theorem sorted_map_refines:
  fixes ops :: "(jstring \<times> 'v option) list" and a b key
  defines "m \<equiv> fold sm_op ops new_map" and "f \<equiv> fold (\<lambda>(k, x) f. f(k := x)) ops (\<lambda>_. None)"
  shows "sm_get m key = f key \<and> sm_has m key = (f key \<noteq> None) \<and> snd (sm_delete m key) = (f key \<noteq> None) \<and>
    map_of (sm_entries m) = f \<and> ordered_by fst (sm_entries m) \<and>
    sm_range m a b = filter (\<lambda>p. a \<le> fst p \<and> fst p \<le> b) (sm_entries m) \<and>
    sm_count m = card (dom f)"
  using sm_invar_view [OF sm_ops(1) [of ops]] sm_delete_entries(2) [OF sm_ops(1) [of ops]]
  unfolding m_def f_def sm_ops(2) by (simp add: sm_has_get sm_ops(2))

text \<open>C31. After any sequence of sets and deletes the tree of the sorted map is a red-black tree, so
  that its height is at most twice the binary logarithm of the number of its entries plus one.\<close>

theorem sorted_map_balanced:
  fixes ops :: "(jstring \<times> 'v option) list"
  defines "m \<equiv> fold sm_op ops new_map"
  shows "rb_ok (sm_root m) \<and> \<not> is_red (sm_root m) \<and> 2 ^ (rb_height (sm_root m) div 2) \<le> sm_count m + 1"
  using sm_ops(1) [of ops] sm_height [OF sm_ops(1) [of ops]] unfolding m_def sm_invar_def by blast

text \<open>C32. \<open>put\<close> keeps the recorded size of a memtable in step with its content; \<open>delete\<close> takes the
  size of the entry it replaces off twice, so that the recorded size falls behind by it.\<close>

theorem memtable_size_drift:
  assumes "mt_invar m"
  shows "size_drift (mt_put now key v d m) = size_drift m \<and>
    size_drift (mt_delete now key m) = size_drift m - recorded_size m key \<and>
    mt_size m = content_size m + size_drift m"
  using drift_put [OF assms] drift_delete [OF assms] by (simp_all add: mt_size_def size_drift_def)

lemma memtable_size_drift_witness:
  fixes m defines "m \<equiv> mt_put 1 (js ''k'') (js ''v'') False (new_mem_table 100)"
  shows "size_drift (mt_delete 2 (js ''k'') m) = - 51"
proof -
  have "recorded_size m (js ''k'') = 51"
    by (simp add: m_def recorded_size_def getEntry_put calculateEntrySize_def utf8_js utf8_of_def)
  then show ?thesis
    using memtable_size_drift [of m 2 "js ''k''"] memtable_size_drift [of "new_mem_table 100"]
    by (simp add: m_def)
qed

section \<open>Sorted tables\<close>

text \<open>C33. A filter created for \<open>n\<close> keys at a rate below one, filled, serialised and read back, says yes
  for every key that was added.\<close>

theorem bloom_no_false_negative:
  assumes "rate < 1" "28 * max n 1 < 4294967296"
  shows "\<exists>f bytes f'. bf_create n rate = Inr f \<and> bf_serialize (fold bf_add ks f) = Inr bytes \<and>
    bf_fromBuffer (of_bytes bytes) = Inr f' \<and> (\<forall>k\<in>set ks. mightContain f' k)"
proof -
  obtain f where f: "bf_create n rate = Inr f" "bf_invar f" "bf_numBits f \<le> 28 * max n 1"
    "bf_numHashFunctions f \<le> 28"
    by (rule bf_create_ok [OF assms(1)])
  let ?f = "fold bf_add ks f"
  have inv: "bf_invar ?f" by (rule bloom.add_all(1) [OF f(2)])
  have "bf_numBits (fold bf_add ks f) = bf_numBits f \<and>
      bf_numHashFunctions (fold bf_add ks f) = bf_numHashFunctions f" for f
    by (induction ks arbitrary: f) auto
  then have size: "bf_numBits ?f < 4294967296" "bf_numHashFunctions ?f < 4294967296"
    using f(3,4) assms(2) by simp_all
  have "bf_fromBuffer (of_bytes (bf_bytes ?f)) = Inr ?f"
    by (rule bf_fromBuffer_holds [OF _ inv size]) (simp add: holds_at_of_bytes)
  then show ?thesis
    using f(1) bf_serialize_ok [OF inv size] bloom.add_all(3) [OF f(2)] by blast
qed

lemma bloom_no_false_negative_witness:
  "\<exists>f bytes f'. bf_create 2 (1 / 100) = Inr f \<and>
     bf_serialize (fold bf_add [js ''a'', js ''b''] f) = Inr bytes \<and>
     bf_fromBuffer (of_bytes bytes) = Inr f' \<and> (\<forall>k\<in>set [js ''a'', js ''b'']. mightContain f' k)"
  by (rule bloom_no_false_negative) simp_all

text \<open>C34. A table built from entries in key order and opened again finds every entry by its key,
  nothing else, and its range scan yields exactly the entries of the closed range in order.\<close>

theorem sstable_roundtrip:
  assumes "table_ok n now es" "cf_falsePositiveRate cfg < 1"
    and "1073741824 \<le> env_limit env" "\<forall>e\<in>set es. readable env e"
  shows "\<exists>w meta w' fs' r. sw_add_all es (new_writer n cfg) = Inr w \<and>
    sw_build mem now w fs = (Inr meta, w', fs') \<and> openFile env fs' (sm_filePath meta) = Inr r \<and>
    (\<forall>k. reader_get env r k = Inr (find (\<lambda>e. se_key e = k) es)) \<and>
    (\<forall>a b. reader_iterate env r (Some a) (Some b) = (filter (\<lambda>e. a \<le> se_key e \<and> se_key e \<le> b) es, None))"
proof -
  have es: "es \<noteq> []" "ordered_by se_key es" using assms(1) by (auto simp: table_ok_def)
  obtain w where w: "sw_add_all es (new_writer n cfg) = Inr w" "sw_entries w = es" "sw_fileNumber w = n"
    "sw_config w = cfg" "\<not> sw_built w" "sw_sparseIndex w = []"
    using sw_add_all_ok [of "new_writer n cfg" es] es by (simp add: new_writer_def)
  let ?path = "sst_path (cf_dataDir cfg) n"
  obtain w' index bloom where parts: "table_parts (sw_entries w) index bloom" and build:
    "sw_build mem now w fs = (Inr (table_meta (sw_fileNumber w) now (sw_entries w) index bloom
        (sst_path (cf_dataDir (sw_config w)) (sw_fileNumber w))), w',
      fs(temp_path (sst_path (cf_dataDir (sw_config w)) (sw_fileNumber w)) := None,
         sst_path (cf_dataDir (sw_config w)) (sw_fileNumber w) \<mapsto>
           table_bytes (sw_fileNumber w) now (sw_entries w) index bloom))"
    by (rule sw_build_ok [of w now mem fs]) (use w assms(1,2) in simp_all)
  define meta fs' where "meta = table_meta n now es index bloom ?path"
    and "fs' = fs(temp_path ?path := None, ?path \<mapsto> table_bytes n now es index bloom)"
  have b: "sw_build mem now w fs = (Inr meta, w', fs')"
    "fs' (sm_filePath meta) = Some (table_bytes n now es index bloom)" "table_parts es index bloom"
    using build parts w by (simp_all add: meta_def fs'_def table_meta_def)
  have "openFile env fs' (sm_filePath meta) = Inr (opened_reader (sm_filePath meta) n now es index bloom)"
    by (rule openFile_ok [where fs = fs', OF assms(1) b(3,2) assms(3)])
  moreover have "represents env (opened_reader (sm_filePath meta) n now es index bloom) es"
    unfolding represents_def using assms(1,4) b(3) by blast
  ultimately show ?thesis
    using w(1) b(1) sst.look_up_find sst.scan_filter by blast
qed

lemma sstable_roundtrip_witness:
  fixes e cfg env
  defines "e \<equiv> \<lparr>se_key = js ''k'', se_value = js ''v'', se_time = 3, se_deleted = False\<rparr>"
    and "cfg \<equiv> \<lparr>cf_dataDir = js ''d'', cf_sparseIndexInterval = 2, cf_falsePositiveRate = 1 / 100\<rparr>"
    and "env \<equiv> \<lparr>env_mem = \<lambda>i. 0, env_limit = 2147483647\<rparr>"
  shows "\<exists>w meta w' fs' r. sw_add_all [e] (new_writer 1 cfg) = Inr w \<and>
    sw_build (\<lambda>i. 0) 4 w Map.empty = (Inr meta, w', fs') \<and> openFile env fs' (sm_filePath meta) = Inr r \<and>
    reader_get env r (js ''k'') = Inr (Some e) \<and> reader_get env r (js ''z'') = Inr None"
proof -
  have u: "utf8 (js ''k'') = [byte_of 107]" "utf8 (js ''v'') = [byte_of 118]"
    by (simp_all add: utf8_js utf8_of_def)
  have ok: "sst_entry_ok e" by (simp add: sst_entry_ok_def e_def well_formed_js u)
  have asc: "ascii_start (js ''k'')" by (simp add: ascii_start_def js_def)
  have rd: "readable env e"
    using ok asc by (intro readable_ascii) (simp_all add: e_def env_def u)
  have "table_ok 1 4 [e]"
    using ok by (simp add: table_ok_def data_bytes_def length_sst_entry_bytes sst_entrySize_def e_def u)
  then have "\<exists>w meta w' fs' r. sw_add_all [e] (new_writer 1 cfg) = Inr w \<and>
    sw_build (\<lambda>i. 0) 4 w Map.empty = (Inr meta, w', fs') \<and> openFile env fs' (sm_filePath meta) = Inr r \<and>
    (\<forall>k. reader_get env r k = Inr (find (\<lambda>e. se_key e = k) [e])) \<and>
    (\<forall>a b. reader_iterate env r (Some a) (Some b) = (filter (\<lambda>e. a \<le> se_key e \<and> se_key e \<le> b) [e], None))"
    using rd by (intro sstable_roundtrip) (simp_all add: cfg_def env_def)
  then show ?thesis by (fastforce simp: e_def)
qed

text \<open>C35. The binary search in the sparse index finds what a linear scan does, the last entry that is not
  greater, and its loop ends after a logarithmic number of turns.\<close>

theorem index_search_linear:
  assumes "ordered_by ix_key index" "length index < 2 ^ n"
  shows "findStartOffset key index start =
    (case filter (\<lambda>x. ix_key x \<le> key) index of [] \<Rightarrow> start | x # xs \<Rightarrow> ix_offset (last (x # xs))) \<and>
    (index \<noteq> [] \<longrightarrow> search_within (Suc n) index key 0 (int (length index) - 1) start = Some (findStartOffset key index start))"
proof -
  have "int (length index) < 2 ^ n" using assms(2) by (metis of_nat_less_iff of_nat_numeral of_nat_power)
  then show ?thesis
    using findStartOffset_last [OF assms(1)] search_within_bound [of "int (length index) - 1" 0 n index key start]
    by (simp add: last_offset_def findStartOffset_def del: search_within.simps)
qed

lemma index_search_linear_witness:
  "findStartOffset (js ''c'') [\<lparr>ix_key = js ''a'', ix_offset = 10\<rparr>, \<lparr>ix_key = js ''b'', ix_offset = 20\<rparr>] 0 = 20 \<and>
   search_within 3 [\<lparr>ix_key = js ''a'', ix_offset = 10\<rparr>, \<lparr>ix_key = js ''b'', ix_offset = 20\<rparr>] (js ''c'') 0 1 0 = Some 20"
proof -
  have "js ''a'' < js ''b''" "js ''a'' \<le> js ''c''" "js ''b'' \<le> js ''c''" by code_simp+
  then show ?thesis
    using index_search_linear [of "[\<lparr>ix_key = js ''a'', ix_offset = 10\<rparr>, \<lparr>ix_key = js ''b'', ix_offset = 20\<rparr>]" 2 "js ''c''" 0]
    by (simp add: numeral_3_eq_3 del: search_within.simps)
qed

text \<open>C36. The reader takes the length of the value from the first bytes of the key. An entry whose
  key begins with a byte of 128 or more serialises, but reading it fails with a RangeError where
  buffers are limited to less than two gibibytes.\<close>

theorem sstable_unreadable_key:
  assumes "sst_entry_ok e" "utf8 (se_key e) = c # cs" "128 \<le> unat c"
    and "6 \<le> env_limit env" "env_limit env < 2147483648"
  shows "\<exists>bytes. sst_serializeEntry mem e = Inr bytes \<and>
    readEntryAt env (pre @ bytes @ post) (length pre) = Inl RangeError"
  using sst_serializeEntry_ok [OF assms(1)] readEntryAt_refused [OF assms] by blast

lemma sstable_unreadable_key_witness:
  fixes e defines "e \<equiv> \<lparr>se_key = js [char_of (233 :: nat)], se_value = js ''v'', se_time = 3, se_deleted = False\<rparr>"
  shows "\<exists>bytes. sst_serializeEntry (\<lambda>i. 0) e = Inr bytes \<and>
    readEntryAt \<lparr>env_mem = \<lambda>i. 0, env_limit = 2147483647\<rparr> ([] @ bytes @ []) (length ([] :: byte list)) = Inl RangeError"
proof -
  have u: "utf8 (js [char_of (233 :: nat)]) = [byte_of 195, byte_of 169]" "utf8 (js ''v'') = [byte_of 118]"
    by (simp_all add: utf8_js utf8_of_def)
  have "128 \<le> unat (byte_of 195)" by (simp add: byte_of_def)
  moreover have "sst_entry_ok e" by (simp add: e_def sst_entry_ok_def u well_formed_js)
  ultimately show ?thesis
    by (intro sstable_unreadable_key [where c = "byte_of 195" and cs = "[byte_of 169]"]) (simp_all add: e_def u)
qed

text \<open>C37. Adding a table with a fresh number and removing others keeps the live tables sorted
  newest first, with every number below the next one, and a new process loads what was saved.\<close>

theorem manifest_reload:
  assumes "mf_loaded m" "manifest_inv (mf_state m)" "mf_nextFileNumber (mf_state m) \<le> sm_fileNumber meta"
  shows "\<exists>m1 d1 m2 d2. addSSTable meta m = Inr (m1, d1) \<and> removeSSTables ns m1 = Inr (m2, d2) \<and>
    mf_sstables (mf_state m2) = filter (\<lambda>s. sm_fileNumber s \<notin> set ns) (meta # mf_sstables (mf_state m)) \<and>
    mf_nextFileNumber (mf_state m2) = sm_fileNumber meta + 1 \<and> manifest_inv (mf_state m2) \<and>
    manifest_load now d2 (new_manifest now) = Inr m2"
proof -
  obtain m1 where m1: "addSSTable meta m = Inr (m1, manifest_save m1)" "mf_loaded m1"
    "mf_sstables (mf_state m1) = meta # mf_sstables (mf_state m)"
    "mf_nextFileNumber (mf_state m1) = sm_fileNumber meta + 1" "manifest_inv (mf_state m1)"
    by (rule addSSTable_ok [OF assms])
  obtain m2 where m2: "removeSSTables ns m1 = Inr (m2, manifest_save m2)" "mf_loaded m2"
    "mf_sstables (mf_state m2) = filter (\<lambda>s. sm_fileNumber s \<notin> set ns) (mf_sstables (mf_state m1))"
    "mf_nextFileNumber (mf_state m2) = mf_nextFileNumber (mf_state m1)" "manifest_inv (mf_state m2)"
    by (rule removeSSTables_ok [OF m1(2,5)])
  have "manifest_load now (manifest_save m2) (new_manifest now) = Inr m2"
    using m2(2) load_saved [of "new_manifest now" now m2] by (simp add: new_manifest_def)
  then show ?thesis using m1 m2 by auto
qed

lemma manifest_reload_witness:
  fixes meta m
  defines "meta \<equiv> table_meta 1 7 [\<lparr>se_key = js ''k'', se_value = js ''v'', se_time = 3, se_deleted = False\<rparr>]
      [] \<lparr>bf_bits = [0], bf_numBits = 8, bf_numHashFunctions = 1\<rparr> (js ''d/sstable-00001.sst'')"
    and "m \<equiv> \<lparr>mf_state = EMPTY_MANIFEST_STATE 0, mf_loaded = True\<rparr>"
  shows "\<exists>m1 d1 m2 d2. addSSTable meta m = Inr (m1, d1) \<and> removeSSTables [5] m1 = Inr (m2, d2) \<and>
    mf_sstables (mf_state m2) = [meta] \<and> manifest_load 9 d2 (new_manifest 9) = Inr m2"
proof -
  have n: "sm_fileNumber meta = 1" by (simp add: meta_def table_meta_def)
  have s: "mf_sstables (mf_state m) = []" by (simp add: m_def EMPTY_MANIFEST_STATE_def)
  have "\<exists>m1 d1 m2 d2. addSSTable meta m = Inr (m1, d1) \<and> removeSSTables [5] m1 = Inr (m2, d2) \<and>
    mf_sstables (mf_state m2) = filter (\<lambda>s. sm_fileNumber s \<notin> set [5]) (meta # mf_sstables (mf_state m)) \<and>
    mf_nextFileNumber (mf_state m2) = sm_fileNumber meta + 1 \<and> manifest_inv (mf_state m2) \<and>
    manifest_load 9 d2 (new_manifest 9) = Inr m2"
  proof (rule manifest_reload)
    show "manifest_inv (mf_state m)" by (simp add: m_def manifest_inv_empty)
  qed (simp_all add: m_def n EMPTY_MANIFEST_STATE_def)
  then show ?thesis by (simp add: n s) blast
qed

section \<open>Start and stop\<close>

text \<open>C38. Whatever the arguments, a configuration that is parsed is complete: the application can be
  created. On an empty directory it starts, whether or not the backup can be reached, and has the
  parts of its role, if all its ports can be had (\<open>ports_free\<close>); if not, the start fails with the
  error of a listener. \<open>ports\<close> are the ports the system does not give, \<open>pick\<close> the one it gives for port 0.\<close>

theorem cli_application:
  assumes "cli_parse args = Inr (c, h)" and "2147483647 \<le> env_limit env" and "now \<le> 2 ^ 53"
  shows "\<exists>app. createApplication path_join t c = Inr app \<and>
    (if ports_free pick ports (app_ports c)
     then \<exists>app' d. startApplication env now pick ports outcome app empty_disk = Inr (app', d) \<and>
       store_sim env (ap_store app', d) Map.empty \<and> ap_http app' \<and> ts_started (ap_tcp app') \<and>
       wal_syncPolicy (st_wal (ap_store app')) = sc_syncPolicy c \<and> ap_compactor app' \<noteq> None \<and>
       (ap_listener app' \<longleftrightarrow> app_role c = PRIMARY) \<and> (ap_manager app' \<noteq> None \<longleftrightarrow> app_role c = PRIMARY) \<and>
       (ap_backup app' \<noteq> None \<longleftrightarrow> app_role c = BACKUP)
     else \<exists>err. startApplication env now pick ports outcome app empty_disk = Inl err \<and> err \<in> {BadPort, ListenFailed})"
proof -
  obtain app where app: "createApplication path_join t c = Inr app" "ap_config app = c"
    "ap_store app = new_store (sc_syncPolicy c) (sc_memTableSizeLimit c) (table_config path_join c DEFAULT_SSTABLE_TUNING) t"
    "ap_manager app \<noteq> None \<longleftrightarrow> app_role c = PRIMARY"
    "ap_backup app = (if app_role c = BACKUP then Some (the (rc_replicationPort (the (sc_replication c))), new_repl_server) else None)"
    "ap_compactor app = None" "ap_tcp app = new_tcp_server" "ap_listener app \<longleftrightarrow> app_role c = PRIMARY"
    by (rule create_application [OF cli_parse_role(1,2) [OF assms(1)], of path_join t])
  let ?cfg = "table_config path_join c DEFAULT_SSTABLE_TUNING"
  have rate: "cf_falsePositiveRate ?cfg < 1" by (simp add: table_config_def DEFAULT_SSTABLE_TUNING_def)
  obtain s d where s: "store_initialize env now (ap_store app) empty_disk = Inr (s, d)"
    "wal_syncPolicy (st_wal s) = sc_syncPolicy c"
    unfolding app(3) by (rule fresh_start [OF assms(2) rate assms(3), of "sc_syncPolicy c" "sc_memTableSizeLimit c" t]) simp_all
  note sim = fresh_store_sim(1) [OF assms(2) rate assms(3) s(1) [unfolded app(3)]]
  note start = start_application [OF s(1) app(7) app(5) [folded app(2)], of pick ports outcome, unfolded app(2)]
  have "use_compaction c" using cli_parse_role(3) [OF assms(1)] by (simp add: use_compaction_def)
  then have comp: "start_compaction (use_compaction c) (st_sstConfig s) (st_manifest s) (ap_compactor app) \<noteq> None"
    by (simp add: start_compaction_def app(6))
  show ?thesis
  proof (cases "ports_free pick ports (app_ports c)")
    case True
    then obtain app' where app': "startApplication env now pick ports outcome app empty_disk = Inr (app', d)" "ap_store app' = s"
      "ap_http app'" "ts_started (ap_tcp app')" "ap_listener app' = ap_listener app"
      "ap_compactor app' = start_compaction (use_compaction c) (st_sstConfig s) (st_manifest s) (ap_compactor app)"
      "map_option fst (ap_manager app') = map_option fst (ap_manager app)"
      "map_option fst (ap_backup app') = map_option fst (ap_backup app)"
      using start by auto
    have iff: "ap_manager app' = None \<longleftrightarrow> ap_manager app = None" "ap_backup app' = None \<longleftrightarrow> ap_backup app = None"
      using app'(7,8) by (metis option.map_disc_iff)+
    show ?thesis
      using True app(1,4,5,8) app'(1-6) s(2) sim iff comp by (intro exI [of _ app]) auto
  next
    case False
    then show ?thesis using start app(1) by auto
  qed
qed

lemma cli_application_witness:
  "\<exists>c app app' d. cli_parse (config_args (DEFAULT_CONFIG\<lparr>sc_replication := Some (backup_config 3002)\<rparr>)) = Inr (c, False) \<and>
     createApplication js_append 0 c = Inr app \<and>
     startApplication demo_env 1 (\<lambda>ports. 50000) [] ErrorEvent app empty_disk = Inr (app', d) \<and>
     startApplication demo_env 1 (\<lambda>ports. 50000) [3000] ErrorEvent app empty_disk \<in> {Inl BadPort, Inl ListenFailed} \<and>
     ap_backup app' \<noteq> None \<and> ap_manager app' = None \<and> store_sim demo_env (ap_store app', d) Map.empty"
proof -
  let ?c = "DEFAULT_CONFIG\<lparr>sc_replication := Some (backup_config 3002)\<rparr>"
  have "cli_config ?c" by (simp add: cli_config_def DEFAULT_CONFIG_def cli_role_def)
  moreover have "before_equals (sc_dataDir ?c) = sc_dataDir ?c" by (simp add: DEFAULT_CONFIG_def before_equals_js)
  ultimately have parse: "cli_parse (config_args ?c) = Inr (?c, False)" using cli_parse_args [of ?c] by simp
  have role: "app_role ?c = BACKUP" by (simp add: app_role_def or_default_def)
  then have free: "ports_free (\<lambda>ports. 50000) [] (app_ports ?c)" "\<not> ports_free (\<lambda>ports. 50000) [3000] (app_ports ?c)"
    by (simp_all add: app_ports_def DEFAULT_CONFIG_def backup_config_def)
  have now: "(1 :: nat) \<le> 2 ^ 53" by simp
  note start = cli_application [OF parse demo_env_ok(1) now, of js_append 0 "\<lambda>ports. 50000" _ ErrorEvent]
  obtain app app' d where app: "createApplication js_append 0 ?c = Inr app"
    "startApplication demo_env 1 (\<lambda>ports. 50000) [] ErrorEvent app empty_disk = Inr (app', d)"
    "store_sim demo_env (ap_store app', d) Map.empty" "ap_manager app' \<noteq> None \<longleftrightarrow> app_role ?c = PRIMARY"
    "ap_backup app' \<noteq> None \<longleftrightarrow> app_role ?c = BACKUP"
    using start [of "[]"] free(1) by auto
  moreover have "startApplication demo_env 1 (\<lambda>ports. 50000) [3000] ErrorEvent app empty_disk \<in> {Inl BadPort, Inl ListenFailed}"
    using start [of "[3000]"] free(2) app(1) by auto
  ultimately show ?thesis using parse role by (metis repl_role.distinct(5))
qed

text \<open>C39. The arguments written for a configuration parse to it. The value of \<open>--data-dir=\<close> is cut at an equals
  sign of its own.\<close>

theorem cli_roundtrip:
  assumes "cli_config c"
  shows "cli_parse (config_args c) = Inr (c\<lparr>sc_dataDir := before_equals (sc_dataDir c)\<rparr>, False) \<and>
    ((61 :: 16 word) \<notin> set (units (sc_dataDir c)) \<longrightarrow> cli_parse (config_args c) = Inr (c, False))"
  using cli_parse_args [OF assms] before_equals_whole [of "sc_dataDir c"] by simp

lemma cli_roundtrip_witness:
  "cli_parse (config_args (DEFAULT_CONFIG\<lparr>sc_dataDir := js ''a=b'', sc_replication := Some (primary_config (js ''h'') 3002)\<rparr>)) =
   Inr (DEFAULT_CONFIG\<lparr>sc_dataDir := js ''a'', sc_replication := Some (primary_config (js ''h'') 3002)\<rparr>, False)"
proof -
  let ?c = "DEFAULT_CONFIG\<lparr>sc_dataDir := js ''a=b'', sc_replication := Some (primary_config (js ''h'') 3002)\<rparr>"
  have "cli_config ?c"
    by (simp add: cli_config_def DEFAULT_CONFIG_def cli_role_def) (simp add: js_def)
  moreover have "before_equals (js ''a=b'') = js ''a''" by code_simp
  ultimately show ?thesis using cli_roundtrip [of ?c] by simp
qed



end
